(* ===== verification/Prelude.thy ===== *)
theory Prelude
  imports Main "HOL-Library.Word" "HOL-Library.Sublist"
begin

text \<open>
  What every theory of the development shares: the result type of the fallible Go functions
  (\<open>Inl\<close> an error text, \<open>Inr\<close> the value), the names of the basic types, the fact collections
  the component proofs use, and generic lemmas on lists and options.

  A Go string is a sequence of bytes, so it is a HOL \<open>string\<close> (a list of the 256
  characters) and \<open>length\<close> counts bytes as \<open>len\<close> does.
\<close>

subsection \<open>Types\<close>

type_synonym error = string
type_synonym 'a result = "error + 'a"

text \<open>
  \<open>time.Time\<close>: nanoseconds since Go's zero time (1 January of year 1), so that
  \<open>IsZero\<close> is equality with 0, \<open>Before\<close> and \<open>After\<close> are the orders, and
  \<open>Add\<close> is addition. \<open>time.Duration\<close> is a number of nanoseconds as well.
\<close>

type_synonym gotime = int
type_synonym duration = int

abbreviation second_ns :: duration where "second_ns \<equiv> 1000000000"
abbreviation minute_ns :: duration where "minute_ns \<equiv> 60 * second_ns"
abbreviation hour_ns :: duration where "hour_ns \<equiv> 60 * minute_ns"

text \<open>\<open>int64\<close> arithmetic: results wrap.\<close>

definition int64 :: "int \<Rightarrow> int" where "int64 x = signed_take_bit 63 x"

lemma int64_id: "- (2 ^ 63) \<le> x \<Longrightarrow> x < 2 ^ 63 \<Longrightarrow> int64 x = x"
  unfolding int64_def by (rule signed_take_bit_int_eq_self) simp_all

subsection \<open>Fact collections\<close>

named_theorems str_simps \<open>facts on the string functions of the standard library\<close>
named_theorems path_simps \<open>facts on lexical paths and the file system\<close>
named_theorems store_simps \<open>facts on the list operations of the stores\<close>

subsection \<open>Results\<close>

abbreviation is_ok :: "'a result \<Rightarrow> bool" where
  "is_ok r \<equiv> \<not> isl r"

lemma is_ok_iff: "is_ok r \<longleftrightarrow> (\<exists>v. r = Inr v)"
  by (cases r) auto

text \<open>
  A JSON file as the program finds it when it starts: missing, unreadable, empty or not parsing,
  or holding a value (\<open>json.Unmarshal\<close> of what \<open>json.MarshalIndent\<close> wrote).
\<close>

datatype 'a diskFile = NoFile | ReadFails error | EmptyFile | ParseFails error | Holds 'a

subsection \<open>Removing one position of a list\<close>

text \<open>\<open>append(xs[:i], xs[i+1:]...)\<close>\<close>

definition remove_at :: "nat \<Rightarrow> 'a list \<Rightarrow> 'a list" where
  "remove_at i xs = take i xs @ drop (Suc i) xs"

lemma set_remove_at_subset: "set (remove_at i xs) \<subseteq> set xs"
  unfolding remove_at_def by (auto dest: in_set_takeD in_set_dropD)

lemma mset_split_at: "i < length xs \<Longrightarrow> take i xs @ xs ! i # drop (Suc i) xs = xs"
  by (simp add: id_take_nth_drop [symmetric])

lemma length_remove_at [store_simps]:
  "i < length xs \<Longrightarrow> length (remove_at i xs) = length xs - 1"
  by (simp add: remove_at_def)

lemma filter_remove_at:
  assumes "i < length xs"
  shows "filter P (remove_at i xs) =
    filter P (take i xs) @ filter P (drop (Suc i) xs)"
  by (simp add: remove_at_def)

lemma length_filter_remove_at:
  assumes "i < length xs"
  shows "length (filter P xs) = length (filter P (remove_at i xs)) + (if P (xs ! i) then 1 else 0)"
proof -
  have "length (filter P xs) = length (filter P (take i xs @ xs ! i # drop (Suc i) xs))"
    using assms by (simp only: mset_split_at)
  then show ?thesis by (simp add: remove_at_def)
qed

lemma distinct_map_remove_at: "distinct (map f xs) \<Longrightarrow> distinct (map f (remove_at i xs))"
proof (cases "i < length xs")
  case True
  assume "distinct (map f xs)"
  then have "distinct (map f (take i xs @ xs ! i # drop (Suc i) xs))"
    using True by (simp only: mset_split_at)
  then show ?thesis by (auto simp: remove_at_def)
next
  case False
  assume "distinct (map f xs)"
  with False show ?thesis by (simp add: remove_at_def)
qed

lemma map_update_same:
  "f y = f (xs ! i) \<Longrightarrow> map f (xs[i := y]) = map f xs"
  by (metis list_update_beyond list_update_id map_update not_le)

lemma length_filter_update:
  assumes "i < length xs"
  shows "length (filter P (xs[i := y])) + (if P (xs ! i) then 1 else 0) =
         length (filter P xs) + (if P y then 1 else 0)"
proof -
  have "length (filter P xs) = length (filter P (take i xs @ xs ! i # drop (Suc i) xs))"
    using assms by (simp only: mset_split_at)
  then show ?thesis using assms by (simp add: upd_conv_take_nth_drop)
qed

subsection \<open>The first position that satisfies a predicate\<close>

text \<open>The index loops of the stores: \<open>for i := range xs { if p(xs[i]) { idx = i; break } }\<close>.\<close>

fun find_index :: "('a \<Rightarrow> bool) \<Rightarrow> 'a list \<Rightarrow> nat option" where
  "find_index p [] = None"
| "find_index p (x # xs) =
     (if p x then Some 0 else map_option Suc (find_index p xs))"

lemma find_index_None: "find_index p xs = None \<longleftrightarrow> (\<forall>x\<in>set xs. \<not> p x)"
  by (induction xs) auto

lemma find_index_Some:
  "find_index p xs = Some i \<Longrightarrow> i < length xs \<and> p (xs ! i) \<and> (\<forall>j<i. \<not> p (xs ! j))"
proof (induction xs arbitrary: i)
  case (Cons x xs)
  show ?case
  proof (cases "p x")
    case True
    with Cons.prems show ?thesis by simp
  next
    case False
    with Cons.prems obtain k where k: "find_index p xs = Some k" "i = Suc k" by auto
    from Cons.IH [OF k(1)] False k(2) show ?thesis
      by (auto simp: nth_Cons split: nat.splits)
  qed
qed simp

lemma find_index_SomeD:
  assumes "find_index p xs = Some i"
  shows "i < length xs" and "p (xs ! i)" and "xs ! i \<in> set xs"
  using find_index_Some [OF assms] by auto

lemma find_index_map: "find_index p (map f xs) = find_index (p \<circ> f) xs"
  by (induction xs) auto

lemma find_index_cong:
  "(\<And>x. x \<in> set xs \<Longrightarrow> p x = q x) \<Longrightarrow> find_index p xs = find_index q xs"
  by (induction xs) auto

lemma find_as_find_index: "List.find p xs = map_option ((!) xs) (find_index p xs)"
  by (induction xs) (auto simp: option.map_comp o_def)

lemma find_in_set: "List.find p xs = Some x \<Longrightarrow> x \<in> set xs \<and> p x"
  by (auto simp: find_Some_iff)

subsection \<open>Go maps as association lists\<close>

definition aput :: "'k \<Rightarrow> 'v \<Rightarrow> ('k \<times> 'v) list \<Rightarrow> ('k \<times> 'v) list" where
  "aput k v m = (k, v) # filter (\<lambda>e. fst e \<noteq> k) m"

definition adel :: "'k \<Rightarrow> ('k \<times> 'v) list \<Rightarrow> ('k \<times> 'v) list" where
  "adel k m = filter (\<lambda>e. fst e \<noteq> k) m"

lemma map_of_adel [simp]: "map_of (adel k m) j = (if j = k then None else map_of m j)"
  by (induction m) (auto simp: adel_def)

lemma map_of_aput [simp]: "map_of (aput k v m) j = (if j = k then Some v else map_of m j)"
  using map_of_adel [of k m j] by (simp add: aput_def adel_def)

lemma set_adel: "set (adel k m) \<subseteq> set m"
  by (auto simp: adel_def)

lemma set_aput: "set (aput k v m) \<subseteq> insert (k, v) (set m)"
  by (auto simp: aput_def)

lemma distinct_adel: "distinct (map fst m) \<Longrightarrow> distinct (map fst (adel k m))"
  by (induction m) (auto simp: adel_def)

lemma distinct_aput: "distinct (map fst m) \<Longrightarrow> distinct (map fst (aput k v m))"
  using distinct_adel [of m k] by (auto simp: aput_def adel_def)

lemma length_adel_le: "length (adel k m) \<le> length m"
  by (simp add: adel_def)

text \<open>The entries a map holds: deletions through a filter on keys and values.\<close>

lemma map_of_filter_None: "map_of m k = None \<Longrightarrow> map_of (filter P m) k = None"
  by (induction m) (auto split: if_splits)

lemma map_of_filter_distinct:
  "distinct (map fst m) \<Longrightarrow> map_of (filter P m) k =
     (case map_of m k of None \<Rightarrow> None | Some v \<Rightarrow> if P (k, v) then Some v else None)"
  by (induction m) (auto split: option.splits if_splits dest: map_of_SomeD
      simp: map_of_eq_None_iff image_iff)

end
