(* ===== verification/GoStrings.thy ===== *)
theory GoStrings
  imports Prelude
begin

text \<open>
  The part of Go's \<open>strings\<close>, \<open>unicode/utf8\<close>, \<open>strconv\<close> and \<open>encoding/hex\<close> packages
  that dingbap uses, over byte strings. Case mapping goes through runes: the ASCII range is
  defined here as Go defines it, and the tables of the \<open>unicode\<close> package beyond ASCII are an
  argument (record \<open>unicode\<close>), so every theorem holds for the tables of any Go release.
\<close>

subsection \<open>Prefixes, splitting, joining, trimming\<close>

abbreviation HasPrefix :: "string \<Rightarrow> string \<Rightarrow> bool" where
  "HasPrefix s p \<equiv> prefix p s"

abbreviation HasSuffix :: "string \<Rightarrow> string \<Rightarrow> bool" where
  "HasSuffix s p \<equiv> suffix p s"

fun Contains :: "string \<Rightarrow> string \<Rightarrow> bool" where
  "Contains [] sub \<longleftrightarrow> sub = []"
| "Contains (c # s) sub \<longleftrightarrow> prefix sub (c # s) \<or> Contains s sub"

lemma Contains_iff_sublist: "Contains s sub \<longleftrightarrow> sublist sub s"
  by (induction s) (auto simp: sublist_Cons_right)

text \<open>\<open>strings.Split(s, sep)\<close> and \<open>strings.SplitN(s, sep, 2)\<close> for a separator of one byte.\<close>

fun split_on :: "char \<Rightarrow> string \<Rightarrow> string list" where
  "split_on c [] = [[]]"
| "split_on c (x # s) =
     (if x = c then [] # split_on c s
      else (case split_on c s of [] \<Rightarrow> [[x]] | p # ps \<Rightarrow> (x # p) # ps))"

fun splitN2 :: "char \<Rightarrow> string \<Rightarrow> string list" where
  "splitN2 c s = (let a = takeWhile ((\<noteq>) c) s; r = dropWhile ((\<noteq>) c) s
                  in case r of [] \<Rightarrow> [a] | _ # t \<Rightarrow> [a, t])"

fun join_with :: "string \<Rightarrow> string list \<Rightarrow> string" where
  "join_with sep [] = []"
| "join_with sep [p] = p"
| "join_with sep (p # q # ps) = p @ sep @ join_with sep (q # ps)"

definition TrimLeft :: "string \<Rightarrow> string \<Rightarrow> string" where
  "TrimLeft s cs = dropWhile (\<lambda>c. c \<in> set cs) s"

definition TrimRight :: "string \<Rightarrow> string \<Rightarrow> string" where
  "TrimRight s cs = rev (dropWhile (\<lambda>c. c \<in> set cs) (rev s))"

definition Trim :: "string \<Rightarrow> string \<Rightarrow> string" where
  "Trim s cs = TrimRight (TrimLeft s cs) cs"

definition TrimPrefix :: "string \<Rightarrow> string \<Rightarrow> string" where
  "TrimPrefix s p = (if prefix p s then drop (length p) s else s)"

definition TrimSuffix :: "string \<Rightarrow> string \<Rightarrow> string" where
  "TrimSuffix s p = (if suffix p s then take (length s - length p) s else s)"

text \<open>\<open>strings.ReplaceAll(s, a, b)\<close> for one byte \<open>a\<close>.\<close>

definition ReplaceByte :: "string \<Rightarrow> char \<Rightarrow> string \<Rightarrow> string" where
  "ReplaceByte s a b = concat (map (\<lambda>c. if c = a then b else [c]) s)"

abbreviation slash :: char where "slash \<equiv> CHR ''/''"
abbreviation backslash :: char where "backslash \<equiv> CHR 0x5C"
abbreviation dot :: char where "dot \<equiv> CHR ''.''"
abbreviation nul :: char where "nul \<equiv> CHR 0x00"
abbreviation dquote :: char where "dquote \<equiv> CHR 0x22"

text \<open>The em dash of the English messages, as its three UTF-8 bytes.\<close>

abbreviation emdash :: string where "emdash \<equiv> [CHR 0xE2, CHR 0x80, CHR 0x94]"

text \<open>\<open>strings.IndexByte\<close> and \<open>strings.LastIndexByte\<close>; \<open>None\<close> for -1.\<close>

definition index_of :: "char \<Rightarrow> string \<Rightarrow> nat option" where
  "index_of c s = find_index ((=) c) s"

definition last_index :: "char \<Rightarrow> string \<Rightarrow> nat option" where
  "last_index c s = map_option (\<lambda>i. length s - 1 - i) (find_index ((=) c) (rev s))"

subsection \<open>Splitting and joining undo each other\<close>

lemma split_on_nonempty [simp]: "split_on c s \<noteq> []"
  by (induction s) (auto split: list.splits)

lemma split_on_no_sep: "p \<in> set (split_on c s) \<Longrightarrow> c \<notin> set p"
proof (induction s arbitrary: p)
  case (Cons x s)
  then show ?case by (cases "split_on c s") (auto split: if_splits)
qed simp

lemma split_on_chars: "p \<in> set (split_on c s) \<Longrightarrow> set p \<subseteq> set s"
proof (induction s arbitrary: p)
  case (Cons x s)
  obtain a l where a: "split_on c s = a # l" by (cases "split_on c s") auto
  have "\<And>q. q \<in> set (a # l) \<Longrightarrow> set q \<subseteq> set s" using Cons.IH a by simp
  with Cons.prems a show ?case by (fastforce split: if_splits)
qed simp

lemma join_split_on [str_simps]: "join_with [c] (split_on c s) = s"
proof (induction s)
  case (Cons x s)
  obtain p ps where "split_on c s = p # ps" by (cases "split_on c s") auto
  with Cons show ?case by (cases ps) auto
qed simp

lemma split_on_fresh: "c \<notin> set s \<Longrightarrow> split_on c s = [s]"
  by (induction s) auto

lemma split_on_append_sep: "c \<notin> set p \<Longrightarrow> split_on c (p @ c # s) = p # split_on c s"
  by (induction p) auto

lemma split_join_with [str_simps]:
  "ps \<noteq> [] \<Longrightarrow> \<forall>p\<in>set ps. c \<notin> set p \<Longrightarrow> split_on c (join_with [c] ps) = ps"
proof (induction ps rule: induct_list012)
  case (3 p q ps)
  then show ?case by (simp add: split_on_append_sep)
qed (auto simp: split_on_fresh)

lemma join_with_append:
  "xs \<noteq> [] \<Longrightarrow> ys \<noteq> [] \<Longrightarrow> join_with sep (xs @ ys) = join_with sep xs @ sep @ join_with sep ys"
proof (induction xs rule: join_with.induct [of _ sep])
  case (2 sep p)
  then show ?case by (cases ys) auto
qed auto

lemma TrimPrefix_append [simp]: "TrimPrefix (p @ s) p = s"
  by (simp add: TrimPrefix_def)

subsection \<open>Trimming\<close>

lemma set_dropWhile_subset: "set (dropWhile P xs) \<subseteq> set xs"
  by (auto dest: set_dropWhileD)

lemma set_Trim: "set (Trim s cs) \<subseteq> set s"
  unfolding Trim_def TrimRight_def TrimLeft_def by (auto dest!: set_dropWhileD)

lemma Trim_no_left: "Trim s cs = c # t \<Longrightarrow> c \<notin> set cs"
proof -
  assume t: "Trim s cs = c # t"
  define u where "u = TrimLeft s cs"
  have hu: "u \<noteq> [] \<Longrightarrow> hd u \<notin> set cs"
    unfolding u_def TrimLeft_def by (metis hd_dropWhile)
  have p: "prefix (c # t) u"
  proof -
    have "rev u = takeWhile (\<lambda>c. c \<in> set cs) (rev u) @ dropWhile (\<lambda>c. c \<in> set cs) (rev u)"
      by simp
    then have "u = rev (dropWhile (\<lambda>c. c \<in> set cs) (rev u)) @ rev (takeWhile (\<lambda>c. c \<in> set cs) (rev u))"
      by (metis rev_append rev_rev_ident)
    with t show ?thesis
      unfolding Trim_def TrimRight_def u_def [symmetric] by (metis prefixI)
  qed
  then show ?thesis using hu by (cases u) auto
qed

lemma Trim_no_right: "Trim s cs \<noteq> [] \<Longrightarrow> last (Trim s cs) \<notin> set cs"
  unfolding Trim_def TrimRight_def by (metis hd_dropWhile last_rev rev.simps(1) rev_rev_ident)

lemma Trim_id: "s = [] \<or> hd s \<notin> set cs \<and> last s \<notin> set cs \<Longrightarrow> Trim s cs = s"
proof (cases "s = []")
  case True
  then show ?thesis by (simp add: Trim_def TrimLeft_def TrimRight_def)
next
  case False
  assume "s = [] \<or> hd s \<notin> set cs \<and> last s \<notin> set cs"
  with False have h: "hd s \<notin> set cs" and l: "hd (rev s) \<notin> set cs"
    by (auto simp: hd_rev)
  from False h have "TrimLeft s cs = s" unfolding TrimLeft_def by (cases s) auto
  moreover from False l have "dropWhile (\<lambda>c. c \<in> set cs) (rev s) = rev s"
    by (cases "rev s") auto
  ultimately show ?thesis by (simp add: Trim_def TrimRight_def)
qed

lemma Trim_idem [str_simps]: "Trim (Trim s cs) cs = Trim s cs"
proof (rule Trim_id)
  show "Trim s cs = [] \<or> hd (Trim s cs) \<notin> set cs \<and> last (Trim s cs) \<notin> set cs"
    using Trim_no_left [of s cs] Trim_no_right [of s cs] by (cases "Trim s cs") auto
qed

lemma ReplaceByte_no: "a \<notin> set b \<Longrightarrow> a \<notin> set (ReplaceByte s a b)"
  by (auto simp: ReplaceByte_def split: if_splits)

lemma ReplaceByte_id [str_simps]: "a \<notin> set s \<Longrightarrow> ReplaceByte s a b = s"
  by (induction s) (auto simp: ReplaceByte_def)

subsection \<open>Decimal and hexadecimal text\<close>

definition digit_char :: "nat \<Rightarrow> char" where
  "digit_char d = char_of (48 + d)"

fun itoa :: "nat \<Rightarrow> string" where
  "itoa n = (if n < 10 then [digit_char n] else itoa (n div 10) @ [digit_char (n mod 10)])"

declare itoa.simps [simp del]

definition itoa_int :: "int \<Rightarrow> string" where
  "itoa_int i = (if i < 0 then CHR ''-'' # itoa (nat (- i)) else itoa (nat i))"

definition is_digit :: "char \<Rightarrow> bool" where
  "is_digit c \<longleftrightarrow> 48 \<le> (of_char c :: nat) \<and> (of_char c :: nat) \<le> 57"

definition digit_val :: "char \<Rightarrow> nat" where
  "digit_val c = of_char c - 48"

definition dec_val :: "string \<Rightarrow> nat" where
  "dec_val s = foldl (\<lambda>a c. 10 * a + digit_val c) 0 s"

lemma of_char_digit: "d < 10 \<Longrightarrow> (of_char (digit_char d) :: nat) = 48 + d"
  by (simp add: digit_char_def)

lemma digit_val_char [simp]: "d < 10 \<Longrightarrow> digit_val (digit_char d) = d"
  by (simp add: digit_val_def of_char_digit)

lemma is_digit_char [simp]: "d < 10 \<Longrightarrow> is_digit (digit_char d)"
  by (simp add: is_digit_def of_char_digit)

lemma itoa_digits: "c \<in> set (itoa n) \<Longrightarrow> is_digit c"
proof (induction n rule: itoa.induct)
  case (1 n)
  show ?case
  proof (cases "n < 10")
    case True
    with "1.prems" show ?thesis by (simp add: itoa.simps [of n])
  next
    case False
    with "1.prems" have "c \<in> set (itoa (n div 10)) \<or> c = digit_char (n mod 10)"
      by (subst (asm) itoa.simps) auto
    with "1.IH" False show ?thesis by auto
  qed
qed

lemma itoa_nonempty [simp]: "itoa n \<noteq> []"
  by (subst itoa.simps) auto

lemma dec_val_snoc: "dec_val (s @ [c]) = 10 * dec_val s + digit_val c"
  by (simp add: dec_val_def)

lemma dec_val_itoa [str_simps]: "dec_val (itoa n) = n"
proof (induction n rule: itoa.induct)
  case (1 n)
  show ?case
  proof (cases "n < 10")
    case True
    then show ?thesis by (simp add: itoa.simps [of n] dec_val_def)
  next
    case False
    with "1.IH" have "dec_val (itoa (n div 10)) = n div 10" by simp
    with False show ?thesis by (subst itoa.simps) (simp add: dec_val_snoc)
  qed
qed

lemma itoa_inject: "itoa m = itoa n \<longleftrightarrow> m = n"
  by (metis dec_val_itoa)

definition hex_digit :: "nat \<Rightarrow> char" where
  "hex_digit d = (if d < 10 then char_of (48 + d) else char_of (87 + d))"

text \<open>\<open>hex.EncodeToString\<close>: two lower-case digits per byte.\<close>

definition hex_encode :: "nat list \<Rightarrow> string" where
  "hex_encode bs = concat (map (\<lambda>b. [hex_digit (b div 16), hex_digit (b mod 16)]) bs)"

lemma length_hex_encode [simp]: "length (hex_encode bs) = 2 * length bs"
  by (induction bs) (auto simp: hex_encode_def)

lemma hex_digit_inject:
  assumes "a < 16" "b < 16" "hex_digit a = hex_digit b"
  shows "a = b"
proof -
  have "(of_char (hex_digit a) :: nat) = of_char (hex_digit b)" using assms(3) by simp
  with assms(1,2) show ?thesis by (auto simp: hex_digit_def split: if_splits)
qed

lemma hex_encode_inject:
  "\<forall>b\<in>set xs. b < 256 \<Longrightarrow> \<forall>b\<in>set ys. b < 256 \<Longrightarrow> hex_encode xs = hex_encode ys \<Longrightarrow> xs = ys"
proof (induction xs arbitrary: ys)
  case Nil
  then show ?case by (cases ys) (auto simp: hex_encode_def)
next
  case (Cons x xs)
  then obtain y zs where ys: "ys = y # zs" by (cases ys) (auto simp: hex_encode_def)
  with Cons.prems have d: "hex_digit (x div 16) = hex_digit (y div 16)"
    "hex_digit (x mod 16) = hex_digit (y mod 16)" "hex_encode xs = hex_encode zs"
    by (auto simp: hex_encode_def)
  have "x div 16 = y div 16" "x mod 16 = y mod 16"
    using Cons.prems ys d(1,2) by (auto intro!: hex_digit_inject)
  then have "x = y" by (metis div_mult_mod_eq)
  with Cons.IH [of zs] Cons.prems ys d(3) show ?case by simp
qed

subsection \<open>UTF-8\<close>

abbreviation byte_val :: "char \<Rightarrow> nat" where "byte_val c \<equiv> of_char c"

definition cont :: "char \<Rightarrow> bool" where
  "cont c \<longleftrightarrow> 128 \<le> byte_val c \<and> byte_val c < 192"

definition cbits :: "char \<Rightarrow> nat" where
  "cbits c = byte_val c mod 64"

text \<open>
  \<open>utf8.DecodeRune\<close>: the first rune and its width; an invalid byte is \<open>U+FFFD\<close> of width 1.
  The second byte of a three- or four-byte sequence has the narrower ranges of Go's
  \<open>acceptRanges\<close> (no overlong forms, no surrogates, nothing above \<open>U+10FFFF\<close>).
\<close>

definition rune_error :: nat where "rune_error = 65533"

definition decode2 :: "char \<Rightarrow> string \<Rightarrow> (nat \<times> nat) option" where
  "decode2 b t =
     (case t of c1 # _ \<Rightarrow>
        if 194 \<le> byte_val b \<and> byte_val b < 224 \<and> cont c1
        then Some (byte_val b mod 32 * 64 + cbits c1, 2) else None
      | [] \<Rightarrow> None)"

definition accept3 :: "nat \<Rightarrow> nat \<Rightarrow> bool" where
  "accept3 b c \<longleftrightarrow>
     (if b = 224 then 160 \<le> c \<and> c < 192
      else if b = 237 then 128 \<le> c \<and> c < 160
      else 225 \<le> b \<and> b < 240 \<and> 128 \<le> c \<and> c < 192)"

definition decode3 :: "char \<Rightarrow> string \<Rightarrow> (nat \<times> nat) option" where
  "decode3 b t =
     (case t of c1 # c2 # _ \<Rightarrow>
        if accept3 (byte_val b) (byte_val c1) \<and> cont c2
        then Some (byte_val b mod 16 * 4096 + cbits c1 * 64 + cbits c2, 3) else None
      | _ \<Rightarrow> None)"

definition accept4 :: "nat \<Rightarrow> nat \<Rightarrow> bool" where
  "accept4 b c \<longleftrightarrow>
     (if b = 240 then 144 \<le> c \<and> c < 192
      else if b = 244 then 128 \<le> c \<and> c < 144
      else 241 \<le> b \<and> b < 244 \<and> 128 \<le> c \<and> c < 192)"

definition decode4 :: "char \<Rightarrow> string \<Rightarrow> (nat \<times> nat) option" where
  "decode4 b t =
     (case t of c1 # c2 # c3 # _ \<Rightarrow>
        if accept4 (byte_val b) (byte_val c1) \<and> cont c2 \<and> cont c3
        then Some (byte_val b mod 8 * 262144 + cbits c1 * 4096 + cbits c2 * 64 + cbits c3, 4)
        else None
      | _ \<Rightarrow> None)"

definition decode_rune :: "char \<Rightarrow> string \<Rightarrow> nat \<times> nat" where
  "decode_rune b t =
     (if byte_val b < 128 then (byte_val b, 1)
      else case decode2 b t of Some r \<Rightarrow> r
      | None \<Rightarrow> (case decode3 b t of Some r \<Rightarrow> r
        | None \<Rightarrow> (case decode4 b t of Some r \<Rightarrow> r | None \<Rightarrow> (rune_error, 1))))"

text \<open>The runes a \<open>for range\<close> loop visits.\<close>

fun runes :: "string \<Rightarrow> nat list" where
  "runes [] = []"
| "runes (b # t) = fst (decode_rune b t) # runes (drop (snd (decode_rune b t) - 1) t)"

abbreviation RuneCount :: "string \<Rightarrow> nat" where
  "RuneCount s \<equiv> length (runes s)"

definition encode_rune :: "nat \<Rightarrow> string" where
  "encode_rune r =
     (if r < 128 then [char_of r]
      else if r < 2048 then [char_of (192 + r div 64), char_of (128 + r mod 64)]
      else if r < 65536 then
        [char_of (224 + r div 4096), char_of (128 + r div 64 mod 64), char_of (128 + r mod 64)]
      else [char_of (240 + r div 262144), char_of (128 + r div 4096 mod 64),
            char_of (128 + r div 64 mod 64), char_of (128 + r mod 64)])"

lemma runes_ascii: "\<forall>c\<in>set s. byte_val c < 128 \<Longrightarrow> runes s = map byte_val s"
  by (induction s) (auto simp: decode_rune_def)

lemma decode_rune_ascii: "fst (decode_rune b t) < 128 \<Longrightarrow> byte_val b < 128"
proof (rule ccontr)
  assume r: "fst (decode_rune b t) < 128" and b: "\<not> byte_val b < 128"
  have d2: "128 \<le> fst x" if "decode2 b t = Some x" for x
  proof -
    have "2 \<le> byte_val b mod 32" if "194 \<le> byte_val b" "byte_val b < 224"
      using that by presburger
    with \<open>decode2 b t = Some x\<close> show ?thesis by (auto simp: decode2_def split: list.splits if_splits)
  qed
  have d3: "128 \<le> fst x" if "decode3 b t = Some x" for x
  proof -
    have "1 \<le> byte_val b mod 16" if "byte_val b \<noteq> 224" "225 \<le> byte_val b" "byte_val b < 240"
      using that by presburger
    moreover have "32 \<le> c mod 64" if "160 \<le> c" "c < 192" for c :: nat using that by presburger
    ultimately show ?thesis using \<open>decode3 b t = Some x\<close>
      by (fastforce simp: decode3_def accept3_def cbits_def split: list.splits if_splits)
  qed
  have d4: "128 \<le> fst x" if "decode4 b t = Some x" for x
  proof -
    have "1 \<le> byte_val b mod 8" if "byte_val b \<noteq> 240" "241 \<le> byte_val b" "byte_val b < 248"
      using that by presburger
    moreover have "16 \<le> c mod 64" if "144 \<le> c" "c < 192" for c :: nat using that by presburger
    ultimately show ?thesis using \<open>decode4 b t = Some x\<close>
      by (fastforce simp: decode4_def accept4_def cbits_def split: list.splits if_splits)
  qed
  from r b d2 d3 d4 show False
    by (fastforce simp: decode_rune_def rune_error_def split: option.splits)
qed

lemma runes_all_ascii: "\<forall>r\<in>set (runes s). r < 128 \<Longrightarrow> \<forall>c\<in>set s. byte_val c < 128"
proof (induction s rule: runes.induct)
  case (2 b t)
  then have b: "byte_val b < 128" using decode_rune_ascii [of b t] by simp
  then have "snd (decode_rune b t) = 1" by (simp add: decode_rune_def)
  with 2 b show ?case by simp
qed simp

subsection \<open>Case mapping and white space\<close>

text \<open>
  The tables of Go's \<open>unicode\<close> package for runes beyond ASCII: \<open>unicode.ToLower\<close>, and a
  representative of each orbit of \<open>unicode.SimpleFold\<close>, and \<open>unicode.IsPrint\<close>.
\<close>

record unicode =
  uni_lower :: "nat \<Rightarrow> nat"
  uni_fold :: "nat \<Rightarrow> nat"
  uni_print :: "nat \<Rightarrow> bool"

text \<open>A concrete table: the two orbits that cross into ASCII (Kelvin sign, long s), nothing else.\<close>

definition basic_unicode :: unicode where
  "basic_unicode =
     \<lparr>uni_lower = (\<lambda>r. if r = 8490 then 107 else r),
      uni_fold = (\<lambda>r. if r = 8490 then 107 else if r = 383 then 115 else r),
      uni_print = (\<lambda>r. 161 \<le> r)\<rparr>"

definition ascii_lower :: "nat \<Rightarrow> nat" where
  "ascii_lower r = (if 65 \<le> r \<and> r \<le> 90 then r + 32 else r)"

definition rune_lower :: "unicode \<Rightarrow> nat \<Rightarrow> nat" where
  "rune_lower U r = (if r < 128 then ascii_lower r else uni_lower U r)"

definition rune_fold :: "unicode \<Rightarrow> nat \<Rightarrow> nat" where
  "rune_fold U r = (if r < 128 then ascii_lower r else uni_fold U r)"

text \<open>\<open>strings.ToLower\<close>: byte by byte on ASCII, otherwise \<open>strings.Map(unicode.ToLower)\<close>.\<close>

definition ToLower :: "unicode \<Rightarrow> string \<Rightarrow> string" where
  "ToLower U s =
     (if list_all (\<lambda>c. byte_val c < 128) s
      then map (\<lambda>c. char_of (ascii_lower (byte_val c))) s
      else concat (map (\<lambda>r. encode_rune (rune_lower U r)) (runes s)))"

text \<open>
  \<open>strings.EqualFold\<close> compares rune by rune, two runes being equal when they lie on one
  orbit of simple folding; so it compares the lists of orbit representatives.
\<close>

definition fold_key :: "unicode \<Rightarrow> string \<Rightarrow> nat list" where
  "fold_key U s = map (rune_fold U) (runes s)"

definition EqualFold :: "unicode \<Rightarrow> string \<Rightarrow> string \<Rightarrow> bool" where
  "EqualFold U s t \<longleftrightarrow> fold_key U s = fold_key U t"

lemma EqualFold_refl [simp]: "EqualFold U s s"
  by (simp add: EqualFold_def)

lemma EqualFold_sym: "EqualFold U s t \<Longrightarrow> EqualFold U t s"
  by (simp add: EqualFold_def)

lemma EqualFold_trans: "EqualFold U s t \<Longrightarrow> EqualFold U t u \<Longrightarrow> EqualFold U s u"
  by (simp add: EqualFold_def)

lemma EqualFold_commute: "EqualFold U s t \<longleftrightarrow> EqualFold U t s"
  by (auto simp: EqualFold_def)

text \<open>
  \<open>strconv.Quote\<close> (the verb \<open>%q\<close>): printable runes as they are, the rest escaped. The width
  tells an invalid byte (\<open>\xHH\<close>) from an encoded \<open>U+FFFD\<close>.
\<close>

fun hex_pad :: "nat \<Rightarrow> nat \<Rightarrow> string" where
  "hex_pad 0 n = []"
| "hex_pad (Suc k) n = hex_pad k (n div 16) @ [hex_digit (n mod 16)]"

definition quote_rune :: "unicode \<Rightarrow> char \<Rightarrow> nat \<Rightarrow> nat \<Rightarrow> string" where
  "quote_rune U b r w =
     (if w = 1 \<and> r = rune_error then backslash # CHR ''x'' # hex_pad 2 (byte_val b)
      else if b = dquote \<or> b = backslash then [backslash, b]
      else if (if r < 128 then 32 \<le> r \<and> r < 127 else uni_print U r) then encode_rune r
      else case map_of [(7, CHR ''a''), (8, CHR ''b''), (12, CHR ''f''), (10, CHR ''n''),
                        (13, CHR ''r''), (9, CHR ''t''), (11, CHR ''v'')] r of
             Some e \<Rightarrow> [backslash, e]
           | None \<Rightarrow>
               (if r < 32 \<or> r = 127 then backslash # CHR ''x'' # hex_pad 2 r
                else if r < 65536 then backslash # CHR ''u'' # hex_pad 4 r
                else backslash # CHR ''U'' # hex_pad 8 r))"

fun quote_body :: "unicode \<Rightarrow> string \<Rightarrow> string" where
  "quote_body U [] = []"
| "quote_body U (b # t) =
     quote_rune U b (fst (decode_rune b t)) (snd (decode_rune b t)) @
     quote_body U (drop (snd (decode_rune b t) - 1) t)"

definition Quote :: "unicode \<Rightarrow> string \<Rightarrow> string" where
  "Quote U s = dquote # quote_body U s @ [dquote]"

text \<open>
  \<open>strings.TrimSpace\<close>: the encodings of the runes \<open>unicode.IsSpace\<close> accepts (its table is
  closed and small), removed from both ends.
\<close>

definition space_encodings :: "string list" where
  "space_encodings =
     map (\<lambda>n. [char_of n]) [9, 10, 11, 12, 13, 32 :: nat] @
     map encode_rune ([133, 160, 5760] @ [8192..<8203] @ [8232, 8233, 8239, 8287, 12288])"

definition strip_space :: "string list \<Rightarrow> string \<Rightarrow> string option" where
  "strip_space encs s =
     (case List.find (\<lambda>e. prefix e s) encs of
        None \<Rightarrow> None
      | Some e \<Rightarrow> (if e = [] then None else Some (drop (length e) s)))"

function trim_spaces :: "string list \<Rightarrow> string \<Rightarrow> string" where
  "trim_spaces encs s = (case strip_space encs s of None \<Rightarrow> s | Some t \<Rightarrow> trim_spaces encs t)"
  by pat_completeness auto
termination
  by (relation "measure (\<lambda>(encs, s). length s)")
    (auto simp: strip_space_def find_Some_iff prefix_def split: option.splits if_splits)

declare trim_spaces.simps [simp del]

definition TrimSpace :: "string \<Rightarrow> string" where
  "TrimSpace s = rev (trim_spaces (map rev space_encodings) (rev (trim_spaces space_encodings s)))"

lemma trim_spaces_idem: "strip_space encs (trim_spaces encs s) = None"
proof (induction encs s rule: trim_spaces.induct)
  case (1 encs s)
  then show ?case by (subst trim_spaces.simps) (auto split: option.splits)
qed

lemma trim_spaces_suffix: "suffix (trim_spaces encs s) s"
proof (induction encs s rule: trim_spaces.induct)
  case (1 encs s)
  show ?case
  proof (cases "strip_space encs s")
    case None
    then show ?thesis by (simp add: trim_spaces.simps [of encs s])
  next
    case (Some t)
    then have "suffix t s"
      by (auto simp: strip_space_def suffix_drop split: option.splits if_splits)
    with "1.IH" [OF Some] Some show ?thesis
      by (auto simp: trim_spaces.simps [of encs s] intro: suffix_order.trans)
  qed
qed

lemma set_TrimSpace: "set (TrimSpace s) \<subseteq> set s"
proof -
  have "set (TrimSpace s) \<subseteq> set (trim_spaces space_encodings s)"
    unfolding TrimSpace_def by (metis set_rev trim_spaces_suffix set_mono_suffix)
  also have "\<dots> \<subseteq> set s" by (metis trim_spaces_suffix set_mono_suffix)
  finally show ?thesis .
qed

lemma strip_space_prefix_None:
  assumes "strip_space encs s = None" and "prefix t s" and "\<forall>e\<in>set encs. e \<noteq> []"
  shows "strip_space encs t = None"
proof -
  have "\<not> prefix e t" if "e \<in> set encs" for e
  proof
    assume "prefix e t"
    then have "prefix e s" using assms(2) by (rule prefix_order.trans)
    with that obtain d where d: "List.find (\<lambda>e. prefix e s) encs = Some d"
      by (cases "List.find (\<lambda>e. prefix e s) encs") (auto simp: find_None_iff)
    then have "d \<noteq> []" using find_in_set [OF d] assms(3) by auto
    with assms(1) d show False by (simp add: strip_space_def)
  qed
  then have "List.find (\<lambda>e. prefix e t) encs = None" by (auto simp: find_None_iff)
  then show ?thesis by (simp add: strip_space_def)
qed

lemma space_encodings_nonempty: "\<forall>e\<in>set space_encodings. e \<noteq> []"
  by (auto simp: space_encodings_def encode_rune_def)

lemma TrimSpace_idem [str_simps]: "TrimSpace (TrimSpace s) = TrimSpace s"
proof -
  let ?l = "trim_spaces space_encodings" and ?r = "trim_spaces (map rev space_encodings)"
  have "prefix (TrimSpace s) (?l s)"
    unfolding TrimSpace_def by (metis rev_rev_ident suffix_to_prefix trim_spaces_suffix)
  then have "strip_space space_encodings (TrimSpace s) = None"
    using trim_spaces_idem space_encodings_nonempty by (metis strip_space_prefix_None)
  then have l: "?l (TrimSpace s) = TrimSpace s" by (subst trim_spaces.simps) simp
  have "strip_space (map rev space_encodings) (rev (TrimSpace s)) = None"
    by (simp add: TrimSpace_def trim_spaces_idem)
  then have "?r (rev (TrimSpace s)) = rev (TrimSpace s)" by (subst trim_spaces.simps) simp
  then show ?thesis by (simp add: TrimSpace_def [of "TrimSpace s"] l)
qed

lemma TrimSpace_Nil [simp]: "TrimSpace [] = []"
  using set_TrimSpace [of "[]"] by simp

definition graphic :: "char \<Rightarrow> bool" where
  "graphic c \<longleftrightarrow> 33 \<le> byte_val c \<and> byte_val c \<le> 126"

lemma space_encodings_not_graphic:
  "e \<in> set space_encodings \<Longrightarrow> e \<noteq> [] \<and> \<not> graphic (hd e) \<and> \<not> graphic (last e)"
  by (auto simp: space_encodings_def encode_rune_def graphic_def upt_rec)

lemma strip_space_graphic:
  assumes "\<And>e. e \<in> set encs \<Longrightarrow> e \<noteq> [] \<and> \<not> graphic (hd e)" "graphic c"
  shows "strip_space encs (c # s) = None"
proof -
  have "\<not> prefix e (c # s)" if "e \<in> set encs" for e
    using assms(1) [OF that] assms(2) by (cases e) auto
  then have "List.find (\<lambda>e. prefix e (c # s)) encs = None" by (auto simp: find_None_iff)
  then show ?thesis by (simp add: strip_space_def)
qed

lemma TrimSpace_id:
  assumes "s \<noteq> []" "graphic (hd s)" "graphic (last s)"
  shows "TrimSpace s = s"
proof -
  obtain c t where s: "s = c # t" using assms(1) by (cases s) auto
  obtain d u where r: "rev s = d # u" using assms(1) by (cases "rev s") auto
  have d: "d = last s" using r by (metis hd_rev list.sel(1))
  have "trim_spaces space_encodings s = s"
    using assms(2) s strip_space_graphic [of space_encodings c t] space_encodings_not_graphic
    by (subst trim_spaces.simps) auto
  moreover have "strip_space (map rev space_encodings) (d # u) = None"
    using assms(3) d space_encodings_not_graphic by (intro strip_space_graphic) (auto simp: hd_rev)
  then have "trim_spaces (map rev space_encodings) (d # u) = d # u"
    by (subst trim_spaces.simps) simp
  then have "trim_spaces (map rev space_encodings) (rev s) = rev s" by (simp only: r)
  ultimately show ?thesis by (simp add: TrimSpace_def)
qed

subsection \<open>Hexadecimal text\<close>

lemma hex_digit_range:
  "d < 16 \<Longrightarrow> (48 \<le> byte_val (hex_digit d) \<and> byte_val (hex_digit d) \<le> 57) \<or>
     (97 \<le> byte_val (hex_digit d) \<and> byte_val (hex_digit d) \<le> 102)"
  by (auto simp: hex_digit_def)

lemma hex_encode_chars:
  assumes "\<forall>b\<in>set bs. b < 256" "c \<in> set (hex_encode bs)"
  shows "(48 \<le> byte_val c \<and> byte_val c \<le> 57) \<or> (97 \<le> byte_val c \<and> byte_val c \<le> 102)"
proof -
  from assms obtain d where "c = hex_digit d" "d < 16"
    by (fastforce simp: hex_encode_def)
  then show ?thesis using hex_digit_range by simp
qed

lemma TrimSpace_hex:
  assumes "b \<noteq> []"
  shows "TrimSpace (hex_encode (map byte_val b)) = hex_encode (map byte_val b)"
proof (rule TrimSpace_id)
  show ne: "hex_encode (map byte_val b) \<noteq> []" using assms by (cases b) (auto simp: hex_encode_def)
  have "graphic c" if "c \<in> set (hex_encode (map byte_val b))" for c
    using hex_encode_chars [OF _ that] by (auto simp: graphic_def)
  then show "graphic (hd (hex_encode (map byte_val b)))" "graphic (last (hex_encode (map byte_val b)))"
    using ne hd_in_set last_in_set by blast+
qed

end
