(* ===== verification/Base64.thy ===== *)
theory Base64
  imports GoStrings
begin

text \<open>
  \<open>encoding/base64\<close> over byte strings: the raw (unpadded) standard encoding that password
  hashes use, with the round trip, and the padded decoding of the \<open>Authorization\<close> header.
  As in Go, the decoders skip carriage returns and newlines and do not insist that the
  unused low bits of the last character are zero.
\<close>

definition b64_char :: "nat \<Rightarrow> char" where
  "b64_char n =
     char_of (if n < 26 then 65 + n else if n < 52 then 71 + n
              else if n < 62 then n - 4 else if n = 62 then 43 else 47)"

definition b64_val :: "char \<Rightarrow> nat option" where
  "b64_val c =
     (let b = byte_val c in
      if 65 \<le> b \<and> b \<le> 90 then Some (b - 65)
      else if 97 \<le> b \<and> b \<le> 122 then Some (b - 71)
      else if 48 \<le> b \<and> b \<le> 57 then Some (b + 4)
      else if b = 43 then Some 62
      else if b = 47 then Some 63
      else None)"

fun b64_encode :: "string \<Rightarrow> string" where
  "b64_encode [] = []"
| "b64_encode [a] =
     [b64_char (byte_val a div 4), b64_char (byte_val a mod 4 * 16)]"
| "b64_encode [a, b] =
     [b64_char (byte_val a div 4), b64_char (byte_val a mod 4 * 16 + byte_val b div 16),
      b64_char (byte_val b mod 16 * 4)]"
| "b64_encode (a # b # c # r) =
     b64_char (byte_val a div 4) # b64_char (byte_val a mod 4 * 16 + byte_val b div 16) #
     b64_char (byte_val b mod 16 * 4 + byte_val c div 64) # b64_char (byte_val c mod 64) #
     b64_encode r"

text \<open>Decoding the six-bit values, four at a time; a single value left over is an error.\<close>

fun b64_group :: "nat list \<Rightarrow> string option" where
  "b64_group [] = Some []"
| "b64_group [v] = None"
| "b64_group [v, w] = Some [char_of (v * 4 + w div 16)]"
| "b64_group [v, w, x] = Some [char_of (v * 4 + w div 16), char_of (w mod 16 * 16 + x div 4)]"
| "b64_group (v # w # x # y # r) =
     map_option (\<lambda>s. char_of (v * 4 + w div 16) # char_of (w mod 16 * 16 + x div 4) #
                     char_of (x mod 4 * 64 + y) # s) (b64_group r)"

definition drop_newlines :: "string \<Rightarrow> string" where
  "drop_newlines s = filter (\<lambda>c. byte_val c \<noteq> 10 \<and> byte_val c \<noteq> 13) s"

definition those_vals :: "string \<Rightarrow> nat list option" where
  "those_vals s = those (map b64_val s)"

text \<open>\<open>base64.RawStdEncoding.DecodeString\<close>.\<close>

definition b64_decode :: "string \<Rightarrow> string option" where
  "b64_decode s = Option.bind (those_vals (drop_newlines s)) b64_group"

text \<open>
  \<open>base64.StdEncoding.DecodeString\<close>: the length must be a multiple of four, and one or two
  padding characters may end the last group.
\<close>

definition b64_std_decode :: "string \<Rightarrow> string option" where
  "b64_std_decode s0 =
     (let s = drop_newlines s0;
          body = (if HasSuffix s ''=='' then take (length s - 2) s
                  else if HasSuffix s ''='' then take (length s - 1) s else s)
      in if length s mod 4 = 0 then Option.bind (those_vals body) b64_group else None)"

definition b64_std_encode :: "string \<Rightarrow> string" where
  "b64_std_encode s =
     b64_encode s @ (if length s mod 3 = 1 then ''=='' else if length s mod 3 = 2 then ''='' else [])"

lemma b64_val_char: "n < 64 \<Longrightarrow> b64_val (b64_char n) = Some n"
  by (auto simp: b64_val_def b64_char_def Let_def)

lemma b64_char_byte: "n < 64 \<Longrightarrow> byte_val (b64_char n) \<in> {43} \<union> {47..57} \<union> {65..90} \<union> {97..122}"
  by (auto simp: b64_char_def)

lemma sextet_bounds:
  fixes a b c :: nat
  assumes "a < 256" "b < 256" "c < 256"
  shows "a div 4 < 64" "a mod 4 * 16 < 64" "a mod 4 * 16 + b div 16 < 64"
    "b mod 16 * 4 < 64" "b mod 16 * 4 + c div 64 < 64" "c mod 64 < 64"
proof -
  have d: "b div 16 < 16" "c div 64 < 4" using assms by (simp_all add: less_mult_imp_div_less)
  have m: "a mod 4 < 4" "b mod 16 < 16" by simp_all
  show "a div 4 < 64" using assms by (simp add: less_mult_imp_div_less)
  show "a mod 4 * 16 < 64" "a mod 4 * 16 + b div 16 < 64" "b mod 16 * 4 < 64"
    "b mod 16 * 4 + c div 64 < 64" using d m by linarith+
  show "c mod 64 < 64" by simp
qed

lemmas b64_sextets =
  sextet_bounds [OF nat_of_char_less_256 nat_of_char_less_256 nat_of_char_less_256]

lemma b64_encode_chars:
  "list_all (\<lambda>x. byte_val x \<in> {43} \<union> {47..57} \<union> {65..90} \<union> {97..122}) (b64_encode s)"
proof (induction s rule: b64_encode.induct)
  case (4 a b c r)
  then show ?case
    by (simp only: b64_encode.simps list.pred_inject b64_char_byte b64_sextets simp_thms)
qed (simp_all only: b64_encode.simps list.pred_inject b64_char_byte b64_sextets simp_thms)

lemma drop_newlines_encode: "drop_newlines (b64_encode s) = b64_encode s"
  unfolding drop_newlines_def
  using b64_encode_chars [of s] by (intro filter_True) (auto simp: list_all_iff)

lemma sextet_joins:
  fixes a b c :: nat
  assumes "b < 256" "c < 256"
  shows "a div 4 * 4 + (a mod 4 * 16 + b div 16) div 16 = a"
    "a div 4 * 4 + (a mod 4 * 16) div 16 = a"
    "(a mod 4 * 16 + b div 16) mod 16 * 16 + (b mod 16 * 4 + c div 64) div 4 = b"
    "(a mod 4 * 16 + b div 16) mod 16 * 16 + (b mod 16 * 4) div 4 = b"
    "(b mod 16 * 4 + c div 64) mod 4 * 64 + c mod 64 = c"
proof -
  have d: "b div 16 < 16" "c div 64 < 4" using assms by (simp_all add: less_mult_imp_div_less)
  have 1: "(a mod 4 * 16 + b div 16) div 16 = a mod 4" "(a mod 4 * 16 + b div 16) mod 16 = b div 16"
    "(b mod 16 * 4 + c div 64) div 4 = b mod 16" "(b mod 16 * 4 + c div 64) mod 4 = c div 64"
    using d by simp_all
  show "a div 4 * 4 + (a mod 4 * 16 + b div 16) div 16 = a" "a div 4 * 4 + (a mod 4 * 16) div 16 = a"
    "(a mod 4 * 16 + b div 16) mod 16 * 16 + (b mod 16 * 4 + c div 64) div 4 = b"
    "(a mod 4 * 16 + b div 16) mod 16 * 16 + (b mod 16 * 4) div 4 = b"
    "(b mod 16 * 4 + c div 64) mod 4 * 64 + c mod 64 = c"
    unfolding 1 by simp_all
qed

lemmas b64_join = sextet_joins [OF nat_of_char_less_256 nat_of_char_less_256]

lemma those_vals_simps:
  "those_vals [] = Some []"
  "those_vals (c # s) =
     (case b64_val c of None \<Rightarrow> None | Some v \<Rightarrow> map_option ((#) v) (those_vals s))"
  by (simp_all add: those_vals_def split: option.split)

lemma those_vals_encode:
  "Option.bind (those_vals (b64_encode s)) b64_group = Some s"
proof (induction s rule: b64_encode.induct)
  case (4 a b c r)
  then obtain vs where vs: "those_vals (b64_encode r) = Some vs" "b64_group vs = Some r"
    by (auto simp: Option.bind_eq_Some_conv)
  show ?case
    by (simp only: b64_encode.simps those_vals_simps vs b64_val_char b64_sextets option.case
        option.map bind.simps b64_group.simps b64_join char_of_char)
qed (simp_all only: b64_encode.simps those_vals_simps b64_val_char b64_sextets option.case
        option.map bind.simps b64_group.simps b64_join char_of_char)

theorem b64_roundtrip: "b64_decode (b64_encode s) = Some s"
  by (simp add: b64_decode_def drop_newlines_encode those_vals_encode)

end
