(* ===== verification/Password.thy ===== *)
theory Password
  imports Base64
begin

text \<open>
  Password hashes (\<open>users.go\<close>, lines 334 to 401): the encoding of an Argon2id hash as
  \<open>$argon2id$v=19$m=...,t=...,p=...$salt$hash\<close>, and its parsing. Argon2 itself is a third-party
  package (\<open>golang.org/x/crypto/argon2\<close>): the function \<open>IDKey\<close> is an argument, taking
  password, salt, time, memory, threads and key length. The salt the random source yields is
  an argument too (\<open>None\<close>: it failed).
\<close>

type_synonym argon2 = "string \<Rightarrow> string \<Rightarrow> nat \<Rightarrow> nat \<Rightarrow> nat \<Rightarrow> nat \<Rightarrow> string"

subsection \<open>fmt.Sscanf for the two formats in use\<close>

text \<open>
  A \<open>%d\<close> verb skips blanks (a newline is an error), takes a sign when the target is signed,
  then at least one decimal digit, and fails when the value does not fit the target. The
  result pairs the value with the input left.
\<close>

definition newline :: char where "newline = CHR 0x0A"

definition scan_blanks :: "string \<Rightarrow> string option" where
  "scan_blanks s =
     (let t = trim_spaces (filter (\<lambda>e. e \<noteq> [newline]) space_encodings) s
      in if HasPrefix t [newline] then None else Some t)"

definition scan_nat :: "string \<Rightarrow> (nat \<times> string) option" where
  "scan_nat s =
     (let ds = takeWhile is_digit s
      in if ds = [] then None else Some (dec_val ds, dropWhile is_digit s))"

definition scan_uint :: "nat \<Rightarrow> string \<Rightarrow> (nat \<times> string) option" where
  "scan_uint bits s =
     (case scan_blanks s of None \<Rightarrow> None
      | Some t \<Rightarrow> (case scan_nat t of None \<Rightarrow> None
        | Some (n, r) \<Rightarrow> (if n < 2 ^ bits then Some (n, r) else None)))"

definition scan_int :: "nat \<Rightarrow> string \<Rightarrow> (int \<times> string) option" where
  "scan_int bits s =
     (case scan_blanks s of None \<Rightarrow> None
      | Some t \<Rightarrow>
          (let neg = HasPrefix t ''-'';
               u = (if neg \<or> HasPrefix t ''+'' then drop 1 t else t)
           in case scan_nat u of None \<Rightarrow> None
              | Some (n, r) \<Rightarrow>
                  (let i = (if neg then - int n else int n)
                   in if - (2 ^ (bits - 1)) \<le> i \<and> i < 2 ^ (bits - 1) then Some (i, r) else None)))"

definition scan_lit :: "string \<Rightarrow> string \<Rightarrow> string option" where
  "scan_lit l s = (if HasPrefix s l then Some (drop (length l) s) else None)"

text \<open>\<open>Sscanf(s, "v=%d", &version)\<close> and \<open>Sscanf(s, "m=%d,t=%d,p=%d", ...)\<close>.\<close>

definition scan_version :: "string \<Rightarrow> int option" where
  "scan_version s =
     Option.bind (scan_lit ''v='' s) (\<lambda>s. map_option fst (scan_int 64 s))"

definition scan_params :: "string \<Rightarrow> (nat \<times> nat \<times> nat) option" where
  "scan_params s =
     Option.bind (scan_lit ''m='' s) (\<lambda>s.
     Option.bind (scan_uint 32 s) (\<lambda>(m, s).
     Option.bind (scan_lit '',t='' s) (\<lambda>s.
     Option.bind (scan_uint 32 s) (\<lambda>(t, s).
     Option.bind (scan_lit '',p='' s) (\<lambda>s.
     Option.bind (scan_uint 8 s) (\<lambda>(p, s). Some (m, t, p)))))))"

subsection \<open>hashPassword and verifyPassword\<close>

definition argonTime :: nat where "argonTime = 3"
definition argonMemory :: nat where "argonMemory = 64 * 1024"
definition argonThreads :: nat where "argonThreads = 4"
definition argonKeyLen :: nat where "argonKeyLen = 32"
definition argonSaltLen :: nat where "argonSaltLen = 16"
definition argon2_Version :: nat where "argon2_Version = 19"

definition hashPassword :: "argon2 \<Rightarrow> string option \<Rightarrow> string \<Rightarrow> string result" where
  "hashPassword A rnd password =
     (case rnd of
        None \<Rightarrow> Inl ''rand: read failed''
      | Some salt \<Rightarrow>
          (let hash = A password salt argonTime argonMemory argonThreads argonKeyLen
           in Inr (''$argon2id$v='' @ itoa argon2_Version @
                   ''$m='' @ itoa argonMemory @ '',t='' @ itoa argonTime @ '',p='' @ itoa argonThreads @
                   ''$'' @ b64_encode salt @ ''$'' @ b64_encode hash)))"

definition verifyPassword :: "argon2 \<Rightarrow> string \<Rightarrow> string \<Rightarrow> bool result" where
  "verifyPassword A encoded password =
     (let parts = split_on (CHR ''$'') encoded in
      if length parts \<noteq> 6 \<or> parts ! 1 \<noteq> ''argon2id'' then Inl ''invalid password hash format''
      else case scan_version (parts ! 2) of
        None \<Rightarrow> Inl ''bad version''
      | Some version \<Rightarrow>
      (case scan_params (parts ! 3) of
        None \<Rightarrow> Inl ''bad parameters''
      | Some (memory, time, threads) \<Rightarrow>
      (case b64_decode (parts ! 4) of
        None \<Rightarrow> Inl ''illegal base64 data''
      | Some salt \<Rightarrow>
      (case b64_decode (parts ! 5) of
        None \<Rightarrow> Inl ''illegal base64 data''
      | Some want \<Rightarrow>
          (let got = A password salt time memory threads (length want mod 2 ^ 32)
           in Inr (got = want))))))"

text \<open>
  \<open>dummyPasswordHash\<close>: computed once from a fixed password; if the random source fails, a
  fixed encoding whose salt and hash are all zero.
\<close>

definition dummyPasswordHash :: "argon2 \<Rightarrow> string option \<Rightarrow> string" where
  "dummyPasswordHash A rnd =
     (case hashPassword A rnd ''dingbap-dummy-password-not-a-real-account'' of
        Inl _ \<Rightarrow> ''$argon2id$v=19$m=65536,t=3,p=4$AAAAAAAAAAAAAAAAAAAAAA$AAAAAAAAAAAAAAAAAAAAAAAAAAAAAAAAAAAAAAAAAAA''
      | Inr h \<Rightarrow> h)"

subsection \<open>The round trip\<close>

lemma digit_char_values:
  "digit_char 1 = CHR ''1''" "digit_char 3 = CHR ''3''" "digit_char 4 = CHR ''4''"
  "digit_char 5 = CHR ''5''" "digit_char 6 = CHR ''6''" "digit_char 9 = CHR ''9''"
  by code_simp+

lemma itoa_values:
  "itoa argon2_Version = ''19''" "itoa argonMemory = ''65536''" "itoa argonTime = ''3''"
  "itoa argonThreads = ''4''"
  by (simp_all add: itoa.simps digit_char_values [simplified] argon2_Version_def argonMemory_def
      argonTime_def argonThreads_def)

lemmas scan_simps = scan_lit_def scan_uint_def scan_int_def scan_nat_def is_digit_def
  digit_val_def dec_val_def newline_def

lemma space_encodings_no_digit: "e \<in> set space_encodings \<Longrightarrow> \<not> prefix e (c # s) \<or> \<not> is_digit c"
  by (auto simp: space_encodings_def encode_rune_def is_digit_def upt_rec)

lemma strip_space_digit:
  "is_digit c \<Longrightarrow> strip_space (filter (\<lambda>e. e \<noteq> [newline]) space_encodings) (c # s) = None"
proof -
  assume "is_digit c"
  then have "List.find (\<lambda>e. prefix e (c # s)) (filter (\<lambda>e. e \<noteq> [newline]) space_encodings) = None"
    using space_encodings_no_digit by (auto simp: find_None_iff)
  then show ?thesis by (simp add: strip_space_def)
qed

lemma scan_blanks_digit:
  assumes "is_digit c"
  shows "scan_blanks (c # s) = Some (c # s)"
proof -
  have "c \<noteq> newline" using assms by (auto simp: is_digit_def newline_def)
  then show ?thesis
    by (simp add: scan_blanks_def trim_spaces.simps [of _ "c # s"] strip_space_digit [OF assms])
qed

lemma scan_version_19: "scan_version ''v=19'' = Some 19"
  by (simp add: scan_version_def scan_blanks_digit scan_simps)

lemma scan_params_default: "scan_params ''m=65536,t=3,p=4'' = Some (65536, 3, 4)"
  by (simp add: scan_params_def scan_blanks_digit scan_simps)

lemma b64_no_dollar: "CHR ''$'' \<notin> set (b64_encode s)"
  using b64_encode_chars [of s] by (auto simp: list_all_iff)

lemma hashPassword_parts:
  assumes "hashPassword A (Some salt) pw = Inr h"
  shows "split_on (CHR ''$'') h =
    [[], ''argon2id'', ''v=19'', ''m=65536,t=3,p=4'', b64_encode salt,
     b64_encode (A pw salt argonTime argonMemory argonThreads argonKeyLen)]"
proof -
  let ?d = "CHR ''$''"
  let ?ps = "[[], ''argon2id'', ''v=19'', ''m=65536,t=3,p=4'', b64_encode salt,
     b64_encode (A pw salt argonTime argonMemory argonThreads argonKeyLen)]"
  have "h = join_with [?d] ?ps"
    using assms by (simp add: hashPassword_def itoa_values)
  moreover have "\<forall>p\<in>set ?ps. ?d \<notin> set p" by (simp add: b64_no_dollar)
  ultimately show ?thesis by (metis split_join_with list.distinct(1))
qed

lemma verify_stored:
  assumes "\<And>p s t m th k. length (A p s t m th k) = k"
    and "hashPassword A (Some salt) pw = Inr h"
  shows "verifyPassword A h pw' =
    Inr (A pw' salt argonTime argonMemory argonThreads argonKeyLen =
         A pw salt argonTime argonMemory argonThreads argonKeyLen)"
proof -
  have len: "length (A pw salt argonTime argonMemory argonThreads argonKeyLen) mod 2 ^ 32 = argonKeyLen"
    using assms(1) by (simp add: argonKeyLen_def)
  have p: "(65536::nat) = argonMemory" "(3::nat) = argonTime" "(4::nat) = argonThreads"
    by (simp_all add: argonMemory_def argonTime_def argonThreads_def)
  show ?thesis
    unfolding verifyPassword_def hashPassword_parts [OF assms(2)] Let_def
    using len by (simp add: scan_version_19 scan_params_default b64_roundtrip flip: p)
qed

text \<open>
  A stored hash can always be checked: verifying a candidate against the encoding
  \<open>hashPassword\<close> produced for a password never fails to parse, and answers whether Argon2id
  gives the same key for both under the stored salt and parameters. The hypothesis is the
  documented contract of \<open>argon2.IDKey\<close>: it returns as many bytes as asked.
\<close>

theorem verify_hashPassword:
  assumes "\<And>p s t m th k. length (A p s t m th k) = k"
    and "hashPassword A (Some salt) pw = Inr h"
  shows "verifyPassword A h pw' =
    Inr (A pw' salt argonTime argonMemory argonThreads argonKeyLen =
         A pw salt argonTime argonMemory argonThreads argonKeyLen)"
  by (rule verify_stored [OF assms])

text \<open>A stand-in for Argon2 with the contract: the password and salt, cut or padded.\<close>

definition toy_argon :: argon2 where
  "toy_argon p s t m th k = take k (p @ s @ replicate k nul)"

lemma toy_argon_length: "length (toy_argon p s t m th k) = k"
  by (simp add: toy_argon_def)

theorem verify_hashPassword_witness:
  "verifyPassword toy_argon (projr (hashPassword toy_argon (Some ''salt'') ''secret'')) ''guess'' =
   Inr (toy_argon ''guess'' ''salt'' argonTime argonMemory argonThreads argonKeyLen =
        toy_argon ''secret'' ''salt'' argonTime argonMemory argonThreads argonKeyLen)"
  by (rule verify_hashPassword [OF toy_argon_length]) (simp add: hashPassword_def Let_def)

end
