(* ===== verification/Sha256.thy ===== *)
theory Sha256
  imports GoStrings
begin

text \<open>
  \<open>crypto/sha256\<close> as FIPS 180-4 defines it, on 32-bit words: the hash of the recovery codes
  (\<open>totp.go\<close>) and of the unlock cookie of a password-protected share (\<open>shares.go\<close>). The proofs
  never open it: they hold for the digest as a function of its input.
\<close>

unbundle bit_operations_syntax

text \<open>
  The standard's constants are the first 32 bits of the fractional parts of the cube roots of
  the first 64 primes, and of the square roots of the first 8; \<open>int_root\<close> finds the integer
  root bit by bit.
\<close>

definition first_primes :: "nat \<Rightarrow> nat list" where
  "first_primes n = take n (filter (\<lambda>p. list_all (\<lambda>d. p mod d \<noteq> 0) [2..<p]) [2..<312])"

fun int_root :: "nat \<Rightarrow> nat \<Rightarrow> nat \<Rightarrow> nat \<Rightarrow> nat" where
  "int_root k n acc 0 = acc"
| "int_root k n acc (Suc b) =
     int_root k n (if (acc + 2 ^ b) ^ k \<le> n then acc + 2 ^ b else acc) b"

definition sha256_k :: "32 word list" where
  "sha256_k = map (\<lambda>p. of_nat (int_root 3 (p * 2 ^ 96) 0 36)) (first_primes 64)"

definition sha256_init :: "32 word list" where
  "sha256_init = map (\<lambda>p. of_nat (int_root 2 (p * 2 ^ 64) 0 36)) (first_primes 8)"

definition rotr :: "nat \<Rightarrow> 32 word \<Rightarrow> 32 word" where
  "rotr n x = (drop_bit n x) OR (push_bit (32 - n) x)"

text \<open>The message schedule, newest word first.\<close>

definition sched_next :: "32 word list \<Rightarrow> 32 word" where
  "sched_next w =
     (let s0 = rotr 7 (w ! 14) XOR rotr 18 (w ! 14) XOR drop_bit 3 (w ! 14);
          s1 = rotr 17 (w ! 1) XOR rotr 19 (w ! 1) XOR drop_bit 10 (w ! 1)
      in w ! 15 + s0 + w ! 6 + s1)"

fun schedule :: "nat \<Rightarrow> 32 word list \<Rightarrow> 32 word list" where
  "schedule 0 w = w"
| "schedule (Suc n) w = schedule n (sched_next w # w)"

fun sha256_rounds :: "(32 word \<times> 32 word) list \<Rightarrow> 32 word list \<Rightarrow> 32 word list" where
  "sha256_rounds ((k, w) # kws) [a, b, c, d, e, f, g, h] =
     (let S1 = rotr 6 e XOR rotr 11 e XOR rotr 25 e;
          ch = (e AND f) XOR ((NOT e) AND g);
          t1 = h + S1 + ch + k + w;
          S0 = rotr 2 a XOR rotr 13 a XOR rotr 22 a;
          maj = (a AND b) XOR (a AND c) XOR (b AND c)
      in sha256_rounds kws [t1 + S0 + maj, a, b, c, d + t1, e, f, g])"
| "sha256_rounds _ st = st"

fun be_word :: "string \<Rightarrow> 32 word" where
  "be_word bs = foldl (\<lambda>a c. a * 256 + of_nat (byte_val c)) 0 bs"

fun chunks :: "nat \<Rightarrow> 'a list \<Rightarrow> 'a list list" where
  "chunks n xs = (if n = 0 \<or> xs = [] then [] else take n xs # chunks n (drop n xs))"

declare chunks.simps [simp del]

definition sha256_block :: "32 word list \<Rightarrow> string \<Rightarrow> 32 word list" where
  "sha256_block st blk =
     map2 (+) st (sha256_rounds (zip sha256_k (rev (schedule 48 (rev (map be_word (chunks 4 blk)))))) st)"

definition be_bytes :: "nat \<Rightarrow> nat \<Rightarrow> nat list" where
  "be_bytes k n = map (\<lambda>i. n div 256 ^ i mod 256) (rev [0..<k])"

definition sha256_pad :: "string \<Rightarrow> string" where
  "sha256_pad s =
     s @ [CHR 0x80] @ replicate ((119 - length s mod 64) mod 64) nul @
     map char_of (be_bytes 8 (8 * length s mod 2 ^ 64))"

definition sha256_Sum256 :: "string \<Rightarrow> nat list" where
  "sha256_Sum256 s =
     concat (map (\<lambda>w. be_bytes 4 (unat w)) (foldl sha256_block sha256_init (chunks 64 (sha256_pad s))))"

lemma be_bytes_lt: "b \<in> set (be_bytes k n) \<Longrightarrow> b < 256"
  by (auto simp: be_bytes_def)

lemma sha256_bytes: "\<forall>b\<in>set (sha256_Sum256 s). b < 256"
  by (auto simp: sha256_Sum256_def dest: be_bytes_lt)

text \<open>Two digests with one hexadecimal text are one digest.\<close>

lemma sha256_hex_inject:
  "hex_encode (sha256_Sum256 s) = hex_encode (sha256_Sum256 t) \<longleftrightarrow> sha256_Sum256 s = sha256_Sum256 t"
  using hex_encode_inject [OF sha256_bytes sha256_bytes] by auto

end
