(* ===== verification/Machine.thy ===== *)
theory Machine
  imports Prelude
begin

text \<open>
  The contracts the stores share. A store is a state machine: its operations hold a mutex, so
  any concurrent execution is a sequence of atomic steps. \<open>invariant_machine\<close> is the contract
  "every step keeps the invariant"; \<open>quota_machine\<close> adds steps that grant something and a
  budget that pays for every grant, which bounds what a whole execution can grant.
\<close>

subsection \<open>Executions as lists of labelled steps\<close>

fun trace :: "('s \<Rightarrow> 'e \<Rightarrow> 's \<Rightarrow> bool) \<Rightarrow> 's \<Rightarrow> ('e \<times> 's) list \<Rightarrow> bool" where
  "trace step s [] = True"
| "trace step s ((e, t) # tr) = (step s e t \<and> trace step t tr)"

definition final_state :: "'s \<Rightarrow> ('e \<times> 's) list \<Rightarrow> 's" where
  "final_state s tr = (if tr = [] then s else snd (last tr))"

lemma final_state_simps [simp]:
  "final_state s [] = s"
  "final_state s ((e, t) # tr) = final_state t tr"
  by (auto simp: final_state_def)

locale invariant_machine =
  fixes step :: "'s \<Rightarrow> 'e \<Rightarrow> 's \<Rightarrow> bool"
    and inv :: "'s \<Rightarrow> bool"
  assumes step_inv: "step s e t \<Longrightarrow> inv s \<Longrightarrow> inv t"
begin

lemma trace_inv: "trace step s tr \<Longrightarrow> inv s \<Longrightarrow> inv (final_state s tr)"
proof (induction tr arbitrary: s)
  case (Cons x tr)
  then show ?case by (cases x) (auto dest: step_inv)
qed simp

lemma trace_inv_all: "trace step s tr \<Longrightarrow> inv s \<Longrightarrow> (e, t) \<in> set tr \<Longrightarrow> inv t"
proof (induction tr arbitrary: s)
  case (Cons x tr)
  then show ?case by (cases x) (auto dest: step_inv)
qed simp

end

locale quota_machine = invariant_machine step inv
  for step :: "'s \<Rightarrow> 'e \<Rightarrow> 's \<Rightarrow> bool" and inv :: "'s \<Rightarrow> bool" +
  fixes granted :: "'e \<Rightarrow> nat"
    and returned :: "'e \<Rightarrow> nat"
    and budget :: "'s \<Rightarrow> nat"
  assumes step_budget: "step s e t \<Longrightarrow> inv s \<Longrightarrow> granted e + budget t \<le> budget s + returned e"
begin

lemma trace_budget:
  "trace step s tr \<Longrightarrow> inv s \<Longrightarrow>
   sum_list (map (granted \<circ> fst) tr) + budget (final_state s tr)
     \<le> budget s + sum_list (map (returned \<circ> fst) tr)"
proof (induction tr arbitrary: s)
  case (Cons x tr)
  obtain e t where x: "x = (e, t)" by (cases x)
  with Cons.prems have st: "step s e t" and tr: "trace step t tr" and it: "inv t"
    by (auto dest: step_inv)
  from Cons.IH [OF tr it] step_budget [OF st Cons.prems(2)] x show ?case by simp
qed simp

end

text \<open>
  An invariant that speaks of what has happened so far: it holds of the labels of the steps taken
  and the state reached.
\<close>

locale history_machine =
  fixes step :: "'s \<Rightarrow> 'e \<Rightarrow> 's \<Rightarrow> bool"
    and hinv :: "'e list \<Rightarrow> 's \<Rightarrow> bool"
  assumes step_hinv: "step s e t \<Longrightarrow> hinv es s \<Longrightarrow> hinv (es @ [e]) t"
begin

lemma trace_hinv: "trace step s tr \<Longrightarrow> hinv es s \<Longrightarrow> hinv (es @ map fst tr) (final_state s tr)"
proof (induction tr arbitrary: s es)
  case (Cons x tr)
  obtain e t where x: "x = (e, t)" by (cases x)
  with Cons.prems have "trace step t tr" "hinv (es @ [e]) t" by (auto dest: step_hinv)
  from Cons.IH [OF this] x show ?case by simp
qed simp

end

end
