(* ===== verification/Users.thy ===== *)
theory Users
  imports Password Sha256 Machine
begin

text \<open>
  The accounts (\<open>users.go\<close>, and \<open>bootstrapUsers\<close> of \<open>main.go\<close>). The store is the in-memory
  slice together with the contents of \<open>users.json\<close> (\<open>usersDisk\<close>, \<open>None\<close>: no file). Every
  operation holds the mutex, so it is one step; whether its \<open>save\<close> succeeds is an argument.
  \<open>encoding/json\<close> is taken to read back what it wrote, which it does for text in UTF-8.
\<close>

subsection \<open>Data\<close>

definition roleAdmin :: string where "roleAdmin = ''admin''"
definition roleViewer :: string where "roleViewer = ''viewer''"

record user =
  Username :: string
  PasswordHash :: string
  Role :: string
  TOTPSecret :: string
  TOTPEnabled :: bool
  TOTPRecoveryHash :: "string list"

record userStore =
  Users :: "user list"
  usersDisk :: "user list option"

type_synonym 'a userOp = "'a \<times> userStore"

definition errInvalidCredentials :: error where
  "errInvalidCredentials = ''invalid username or password''"

definition not_found :: "unicode \<Rightarrow> string \<Rightarrow> error" where
  "not_found U n = ''user '' @ Quote U n @ '' not found''"

definition same_user :: "unicode \<Rightarrow> string \<Rightarrow> user \<Rightarrow> bool" where
  "same_user U n u = EqualFold U (Username u) n"

subsection \<open>Operations\<close>

definition usersFrom :: "user list option \<Rightarrow> userStore" where
  "usersFrom disk =
     \<lparr>Users = (case disk of None \<Rightarrow> [] | Some us \<Rightarrow> us), usersDisk = disk\<rparr>"

definition openUserStore :: "user list diskFile \<Rightarrow> userStore result" where
  "openUserStore file =
     (case file of
        NoFile \<Rightarrow> Inr (usersFrom None)
      | ReadFails e \<Rightarrow> Inl e
      | EmptyFile \<Rightarrow> Inl (''parse users file: unexpected end of JSON input'')
      | ParseFails e \<Rightarrow> Inl (''parse users file: '' @ e)
      | Holds us \<Rightarrow> Inr (usersFrom (Some us)))"

definition save :: "bool \<Rightarrow> userStore \<Rightarrow> unit result userOp" where
  "save ok s = (if ok then (Inr (), s\<lparr>usersDisk := Some (Users s)\<rparr>)
                else (Inl ''write users.json failed'', s))"

definition empty_users :: "userStore \<Rightarrow> bool" where
  "empty_users s = (Users s = [])"

definition new_user :: "string \<Rightarrow> string \<Rightarrow> string \<Rightarrow> user" where
  "new_user n h r = \<lparr>Username = n, PasswordHash = h, Role = r,
     TOTPSecret = [], TOTPEnabled = False, TOTPRecoveryHash = []\<rparr>"

definition addUser ::
  "unicode \<Rightarrow> argon2 \<Rightarrow> string option \<Rightarrow> bool \<Rightarrow> string \<Rightarrow> string \<Rightarrow> string \<Rightarrow> userStore \<Rightarrow> unit result userOp"
where
  "addUser U A rnd ok username0 password role s =
     (let username = TrimSpace username0 in
      if username = [] \<or> password = [] then (Inl ''username and password required'', s)
      else if length password < 8 then (Inl ''password must be at least 8 characters'', s)
      else if role \<noteq> roleAdmin \<and> role \<noteq> roleViewer then (Inl ''role must be admin or viewer'', s)
      else case hashPassword A rnd password of
        Inl e \<Rightarrow> (Inl e, s)
      | Inr hash \<Rightarrow>
          (if list_ex (same_user U username) (Users s)
           then (Inl (''user '' @ Quote U username @ '' already exists''), s)
           else save ok (s\<lparr>Users := Users s @ [new_user username hash role]\<rparr>)))"

definition byUsername :: "unicode \<Rightarrow> string \<Rightarrow> userStore \<Rightarrow> user option" where
  "byUsername U n s = List.find (same_user U n) (Users s)"

definition authenticate ::
  "unicode \<Rightarrow> argon2 \<Rightarrow> userStore \<Rightarrow> string \<Rightarrow> string \<Rightarrow> user result"
where
  "authenticate U A s username password =
     (case List.find (same_user U username) (Users s) of
        None \<Rightarrow> Inl errInvalidCredentials
      | Some u \<Rightarrow>
          (case verifyPassword A (PasswordHash u) password of
             Inl e \<Rightarrow> Inl e
           | Inr False \<Rightarrow> Inl errInvalidCredentials
           | Inr True \<Rightarrow> Inr u))"

text \<open>
  The encoded hash whose parameters decide how much Argon2 work \<open>authenticate\<close> does: the
  account's, or the dummy one for an unknown name.
\<close>

definition authenticate_target :: "unicode \<Rightarrow> argon2 \<Rightarrow> string option \<Rightarrow> userStore \<Rightarrow> string \<Rightarrow> string" where
  "authenticate_target U A rnd s username =
     (case List.find (same_user U username) (Users s) of
        None \<Rightarrow> dummyPasswordHash A rnd
      | Some u \<Rightarrow> PasswordHash u)"

definition listPublic :: "userStore \<Rightarrow> user list" where
  "listPublic s = map (\<lambda>u. (new_user (Username u) [] (Role u))
     \<lparr>TOTPEnabled := TOTPEnabled u \<and> TOTPSecret u \<noteq> []\<rparr>) (Users s)"

definition is_admin :: "user \<Rightarrow> bool" where
  "is_admin u \<longleftrightarrow> Role u = roleAdmin"

definition admins :: "user list \<Rightarrow> nat" where
  "admins us = length (filter is_admin us)"

definition adminCount :: "userStore \<Rightarrow> nat" where
  "adminCount s = admins (Users s)"

definition setPassword ::
  "unicode \<Rightarrow> argon2 \<Rightarrow> string option \<Rightarrow> bool \<Rightarrow> string \<Rightarrow> string \<Rightarrow> userStore \<Rightarrow> unit result userOp"
where
  "setPassword U A rnd ok username0 password s =
     (let username = TrimSpace username0 in
      if username = [] \<or> password = [] then (Inl ''username and password required'', s)
      else if length password < 8 then (Inl ''password must be at least 8 characters'', s)
      else case hashPassword A rnd password of
        Inl e \<Rightarrow> (Inl e, s)
      | Inr hash \<Rightarrow>
          (case find_index (same_user U username) (Users s) of
             None \<Rightarrow> (Inl (not_found U username), s)
           | Some i \<Rightarrow>
               save ok (s\<lparr>Users := (Users s)[i := (Users s ! i)\<lparr>PasswordHash := hash\<rparr>]\<rparr>)))"

definition clear_totp :: "user \<Rightarrow> user" where
  "clear_totp u = u\<lparr>TOTPSecret := [], TOTPEnabled := False, TOTPRecoveryHash := []\<rparr>"

definition setRole :: "unicode \<Rightarrow> bool \<Rightarrow> string \<Rightarrow> string \<Rightarrow> userStore \<Rightarrow> unit result userOp" where
  "setRole U ok username0 role s =
     (let username = TrimSpace username0 in
      if role \<noteq> roleAdmin \<and> role \<noteq> roleViewer then (Inl ''role must be admin or viewer'', s)
      else case find_index (same_user U username) (Users s) of
        None \<Rightarrow> (Inl (not_found U username), s)
      | Some i \<Rightarrow>
          (if Role (Users s ! i) = roleAdmin \<and> role \<noteq> roleAdmin \<and> admins (Users s) \<le> 1
           then (Inl ''cannot demote the last admin'', s)
           else let u = (Users s ! i)\<lparr>Role := role\<rparr>;
                    u' = (if role \<noteq> roleAdmin then clear_totp u else u)
                in save ok (s\<lparr>Users := (Users s)[i := u']\<rparr>)))"

definition deleteUser :: "unicode \<Rightarrow> bool \<Rightarrow> string \<Rightarrow> userStore \<Rightarrow> unit result userOp" where
  "deleteUser U ok username0 s =
     (let username = TrimSpace username0 in
      case find_index (same_user U username) (Users s) of
        None \<Rightarrow> (Inl (not_found U username), s)
      | Some i \<Rightarrow>
          (if Role (Users s ! i) = roleAdmin \<and> admins (Users s) \<le> 1
           then (Inl ''cannot delete the last admin'', s)
           else save ok (s\<lparr>Users := remove_at i (Users s)\<rparr>)))"

definition totp_active :: "user \<Rightarrow> bool" where
  "totp_active u \<longleftrightarrow> Role u = roleAdmin \<and> TOTPEnabled u \<and> TOTPSecret u \<noteq> []"

definition totpEnabled :: "unicode \<Rightarrow> string \<Rightarrow> userStore \<Rightarrow> bool" where
  "totpEnabled U n s = (case List.find (same_user U n) (Users s) of
     None \<Rightarrow> False | Some u \<Rightarrow> totp_active u)"

definition totpSecret :: "unicode \<Rightarrow> string \<Rightarrow> userStore \<Rightarrow> (string \<times> string list) option" where
  "totpSecret U n s = (case List.find (same_user U n) (Users s) of
     None \<Rightarrow> None
   | Some u \<Rightarrow> (if totp_active u then Some (TOTPSecret u, TOTPRecoveryHash u) else None))"

definition enableTOTP ::
  "unicode \<Rightarrow> bool \<Rightarrow> string \<Rightarrow> string \<Rightarrow> string list \<Rightarrow> userStore \<Rightarrow> unit result userOp"
where
  "enableTOTP U ok n secret hashes s =
     (case find_index (same_user U n) (Users s) of
        None \<Rightarrow> (Inl (not_found U n), s)
      | Some i \<Rightarrow>
          (if Role (Users s ! i) \<noteq> roleAdmin
           then (Inl ''TOTP is only available for admin accounts'', s)
           else save ok (s\<lparr>Users := (Users s)[i := (Users s ! i)
             \<lparr>TOTPSecret := secret, TOTPEnabled := True, TOTPRecoveryHash := hashes\<rparr>]\<rparr>)))"

definition disableTOTP :: "unicode \<Rightarrow> bool \<Rightarrow> string \<Rightarrow> userStore \<Rightarrow> unit result userOp" where
  "disableTOTP U ok n s =
     (case find_index (same_user U n) (Users s) of
        None \<Rightarrow> (Inl (not_found U n), s)
      | Some i \<Rightarrow> save ok (s\<lparr>Users := (Users s)[i := clear_totp (Users s ! i)]\<rparr>))"

text \<open>\<open>hashRecoveryCode\<close> (\<open>totp.go\<close>) and the one-time use of a recovery code.\<close>

definition hashRecoveryCode :: "unicode \<Rightarrow> string \<Rightarrow> string" where
  "hashRecoveryCode U code = hex_encode (sha256_Sum256 (TrimSpace (ToLower U code)))"

definition consumeRecoveryCode :: "unicode \<Rightarrow> bool \<Rightarrow> string \<Rightarrow> string \<Rightarrow> userStore \<Rightarrow> bool userOp" where
  "consumeRecoveryCode U ok n code s =
     (let h = hashRecoveryCode U code in
      case find_index (same_user U n) (Users s) of
        None \<Rightarrow> (False, s)
      | Some i \<Rightarrow>
          (case find_index ((=) h) (TOTPRecoveryHash (Users s ! i)) of
             None \<Rightarrow> (False, s)
           | Some j \<Rightarrow>
               (True, snd (save ok (s\<lparr>Users := (Users s)[i := (Users s ! i)
                  \<lparr>TOTPRecoveryHash := remove_at j (TOTPRecoveryHash (Users s ! i))\<rparr>]\<rparr>)))))"

text \<open>
  \<open>bootstrapUsers\<close>: the first accounts, from the environment. The two salts and save outcomes
  are those of the two \<open>addUser\<close> calls.
\<close>

definition bootstrapUsers ::
  "unicode \<Rightarrow> argon2 \<Rightarrow> (string \<Rightarrow> string) \<Rightarrow> string option \<Rightarrow> bool \<Rightarrow> string option \<Rightarrow> bool \<Rightarrow>
   userStore \<Rightarrow> unit result userOp"
where
  "bootstrapUsers U A getenv rnd1 ok1 rnd2 ok2 s =
     (if \<not> empty_users s then (Inr (), s)
      else let adminUser = getenv ''ADMIN_USER''; adminPass = getenv ''ADMIN_PASS'' in
        if adminUser = [] \<or> adminPass = []
        then (Inl (''no users.json yet '' @ emdash @ '' set ADMIN_USER and ADMIN_PASS to create the first admin''
          @ [newline, newline] @ ''Example:'' @ [newline] @
          ''  ADMIN_USER=admin ADMIN_PASS='' @ CHR 0x27 # ''your-secret'' @ CHR 0x27 # '' go run .''), s)
        else case addUser U A rnd1 ok1 adminUser adminPass roleAdmin s of
          (Inl e, s1) \<Rightarrow> (Inl e, s1)
        | (Inr _, s1) \<Rightarrow>
            (let old = getenv ''VIEWER_USER'' = [] \<and> getenv ''VIEWER_PASS'' = [];
                 viewerUser = (if old then getenv ''PUBLIC_USER'' else getenv ''VIEWER_USER'');
                 viewerPass = (if old then getenv ''PUBLIC_PASS'' else getenv ''VIEWER_PASS'')
             in if viewerUser = [] \<and> viewerPass = [] then (Inr (), s1)
                else if viewerUser = [] \<or> viewerPass = []
                then (Inl ''VIEWER_USER and VIEWER_PASS must both be set, or both omitted'', s1)
                else addUser U A rnd2 ok2 viewerUser viewerPass roleViewer s1))"

subsection \<open>Well-formed accounts\<close>

definition user_ok :: "user \<Rightarrow> bool" where
  "user_ok u \<longleftrightarrow>
     Username u \<noteq> [] \<and> TrimSpace (Username u) = Username u \<and>
     (Role u = roleAdmin \<or> Role u = roleViewer) \<and>
     (Role u \<noteq> roleAdmin \<longrightarrow> TOTPSecret u = [] \<and> \<not> TOTPEnabled u \<and> TOTPRecoveryHash u = [])"

abbreviation name_key :: "unicode \<Rightarrow> user \<Rightarrow> nat list" where
  "name_key U u \<equiv> fold_key U (Username u)"

definition wf_users :: "unicode \<Rightarrow> user list \<Rightarrow> bool" where
  "wf_users U us \<longleftrightarrow> distinct (map (name_key U) us) \<and> (\<forall>u\<in>set us. user_ok u)"

definition good_users :: "unicode \<Rightarrow> user list \<Rightarrow> bool" where
  "good_users U us \<longleftrightarrow> wf_users U us \<and> 1 \<le> admins us"

definition users_inv :: "unicode \<Rightarrow> userStore \<Rightarrow> bool" where
  "users_inv U s \<longleftrightarrow> good_users U (Users s) \<and>
     (case usersDisk s of None \<Rightarrow> False | Some d \<Rightarrow> good_users U d)"

lemma good_users_update:
  assumes g: "good_users U us" and i: "i < length us" and y: "user_ok y"
    and n: "Username y = Username (us ! i)"
    and a: "is_admin (us ! i) \<Longrightarrow> \<not> is_admin y \<Longrightarrow> 1 < admins us"
  shows "good_users U (us[i := y])"
proof -
  have d: "distinct (map (name_key U) (us[i := y]))"
    using g n by (simp add: good_users_def wf_users_def map_update_same [where f = "name_key U"])
  have k: "\<forall>u\<in>set (us[i := y]). user_ok u"
    using g y by (auto simp: good_users_def wf_users_def dest: subsetD [OF set_update_subset_insert])
  have "1 \<le> admins (us[i := y])"
    using length_filter_update [OF i, of is_admin y] g a
    by (cases "is_admin (us ! i)"; cases "is_admin y") (auto simp: admins_def good_users_def)
  with d k show ?thesis by (simp add: good_users_def wf_users_def)
qed

lemma good_users_remove:
  assumes g: "good_users U us" and i: "i < length us"
    and a: "is_admin (us ! i) \<Longrightarrow> 1 < admins us"
  shows "good_users U (remove_at i us)"
proof -
  have "1 \<le> admins (remove_at i us)"
    using length_filter_remove_at [OF i, of is_admin] g a
    by (cases "is_admin (us ! i)") (auto simp: admins_def good_users_def Suc_le_eq)
  then show ?thesis
    using g distinct_map_remove_at [of "name_key U" us i] set_remove_at_subset [of i us]
    by (auto simp: good_users_def wf_users_def)
qed

lemma wf_users_append:
  assumes "wf_users U us" "user_ok y" "\<not> list_ex (same_user U (Username y)) us"
  shows "wf_users U (us @ [y])"
  using assms by (auto simp: wf_users_def same_user_def list_ex_iff EqualFold_def)

lemma admins_append [simp]: "admins (us @ vs) = admins us + admins vs"
  by (simp add: admins_def)

lemma users_inv_save:
  assumes "good_users U us" "users_inv U s"
  shows "users_inv U (snd (save ok (s\<lparr>Users := us\<rparr>)))"
  using assms by (auto simp: save_def users_inv_def split: option.splits)

lemma user_ok_nth: "good_users U us \<Longrightarrow> i < length us \<Longrightarrow> user_ok (us ! i)"
  by (simp add: good_users_def wf_users_def)

lemma user_ok_new:
  "TrimSpace n \<noteq> [] \<Longrightarrow> r = roleAdmin \<or> r = roleViewer \<Longrightarrow> user_ok (new_user (TrimSpace n) h r)"
  by (auto simp: user_ok_def new_user_def TrimSpace_idem)

lemma users_inv_good: "users_inv U s \<Longrightarrow> good_users U (Users s)"
  by (simp add: users_inv_def)

subsection \<open>Every operation keeps the accounts well formed and an admin among them\<close>

lemma addUser_inv:
  assumes "users_inv U s"
  shows "users_inv U (snd (addUser U A rnd ok n p r s))"
proof -
  have "users_inv U (snd (save ok (s\<lparr>Users := Users s @ [new_user (TrimSpace n) h r]\<rparr>)))"
    if "TrimSpace n \<noteq> []" "r = roleAdmin \<or> r = roleViewer"
      "\<not> list_ex (same_user U (TrimSpace n)) (Users s)" for h
  proof (rule users_inv_save [OF _ assms])
    have "wf_users U (Users s @ [new_user (TrimSpace n) h r])"
      using assms that by (intro wf_users_append user_ok_new)
        (auto simp: users_inv_def good_users_def new_user_def)
    then show "good_users U (Users s @ [new_user (TrimSpace n) h r])"
      using users_inv_good [OF assms] by (simp add: good_users_def)
  qed
  then show ?thesis using assms by (auto simp: addUser_def Let_def split: sum.splits)
qed

lemma update_inv:
  assumes "users_inv U s" "find_index p (Users s) = Some i" "user_ok y"
    "Username y = Username (Users s ! i)"
    "is_admin (Users s ! i) \<Longrightarrow> \<not> is_admin y \<Longrightarrow> 1 < admins (Users s)"
  shows "users_inv U (snd (save ok (s\<lparr>Users := (Users s)[i := y]\<rparr>)))"
  using assms find_index_SomeD [OF assms(2)]
  by (intro users_inv_save good_users_update) (auto simp: users_inv_def)

lemma nth_user_ok:
  "users_inv U s \<Longrightarrow> find_index p (Users s) = Some i \<Longrightarrow> user_ok (Users s ! i)"
  by (meson find_index_SomeD(1) user_ok_nth users_inv_good)

lemma setPassword_inv:
  assumes "users_inv U s"
  shows "users_inv U (snd (setPassword U A rnd ok n p s))"
  using assms nth_user_ok [OF assms]
  by (auto simp: setPassword_def Let_def is_admin_def user_ok_def split: sum.splits option.splits
      intro!: update_inv)

lemma setRole_inv:
  assumes "users_inv U s"
  shows "users_inv U (snd (setRole U ok n r s))"
  using assms nth_user_ok [OF assms]
  by (auto simp: setRole_def Let_def is_admin_def user_ok_def clear_totp_def split: option.splits
      intro!: update_inv)

lemma deleteUser_inv:
  assumes "users_inv U s"
  shows "users_inv U (snd (deleteUser U ok n s))"
proof -
  have "users_inv U (snd (save ok (s\<lparr>Users := remove_at i (Users s)\<rparr>)))"
    if i: "find_index (same_user U (TrimSpace n)) (Users s) = Some i"
      and g: "\<not> (Role (Users s ! i) = roleAdmin \<and> admins (Users s) \<le> 1)" for i
    using g find_index_SomeD(1) [OF i] users_inv_good [OF assms] assms
    by (intro users_inv_save good_users_remove) (auto simp: is_admin_def)
  then show ?thesis using assms by (auto simp: deleteUser_def Let_def split: option.splits)
qed

lemma enableTOTP_inv:
  assumes "users_inv U s"
  shows "users_inv U (snd (enableTOTP U ok n sec hs s))"
  using assms nth_user_ok [OF assms]
  by (auto simp: enableTOTP_def is_admin_def user_ok_def split: option.splits intro!: update_inv)

lemma disableTOTP_inv:
  assumes "users_inv U s"
  shows "users_inv U (snd (disableTOTP U ok n s))"
  using assms nth_user_ok [OF assms]
  by (auto simp: disableTOTP_def is_admin_def user_ok_def clear_totp_def split: option.splits
      intro!: update_inv)

lemma consumeRecoveryCode_inv:
  assumes "users_inv U s"
  shows "users_inv U (snd (consumeRecoveryCode U ok n c s))"
proof -
  have "user_ok (u\<lparr>TOTPRecoveryHash := remove_at j (TOTPRecoveryHash u)\<rparr>)" if "user_ok u" for u j
    using that by (auto simp: user_ok_def remove_at_def)
  then show ?thesis using assms nth_user_ok [OF assms]
    by (auto simp: consumeRecoveryCode_def Let_def is_admin_def split: option.splits
        intro!: update_inv)
qed

subsection \<open>The store as a state machine\<close>

text \<open>
  The operations other goroutines can interleave, and a restart of the server, which reads
  \<open>users.json\<close> again.
\<close>

datatype user_op =
    OpAdd "string option" bool string string string
  | OpSetPassword "string option" bool string string
  | OpSetRole bool string string
  | OpDelete bool string
  | OpEnableTOTP bool string string "string list"
  | OpDisableTOTP bool string
  | OpConsume bool string string
  | OpRestart

fun run_user_op :: "unicode \<Rightarrow> argon2 \<Rightarrow> user_op \<Rightarrow> userStore \<Rightarrow> userStore" where
  "run_user_op U A (OpAdd rnd ok n p r) s = snd (addUser U A rnd ok n p r s)"
| "run_user_op U A (OpSetPassword rnd ok n p) s = snd (setPassword U A rnd ok n p s)"
| "run_user_op U A (OpSetRole ok n r) s = snd (setRole U ok n r s)"
| "run_user_op U A (OpDelete ok n) s = snd (deleteUser U ok n s)"
| "run_user_op U A (OpEnableTOTP ok n sec hs) s = snd (enableTOTP U ok n sec hs s)"
| "run_user_op U A (OpDisableTOTP ok n) s = snd (disableTOTP U ok n s)"
| "run_user_op U A (OpConsume ok n c) s = snd (consumeRecoveryCode U ok n c s)"
| "run_user_op U A OpRestart s = usersFrom (usersDisk s)"

definition user_step :: "unicode \<Rightarrow> argon2 \<Rightarrow> userStore \<Rightarrow> user_op \<Rightarrow> userStore \<Rightarrow> bool" where
  "user_step U A s a t \<longleftrightarrow> t = run_user_op U A a s"

lemma usersFrom_inv: "users_inv U s \<Longrightarrow> users_inv U (usersFrom (usersDisk s))"
  by (auto simp: users_inv_def usersFrom_def split: option.splits)

lemmas user_op_invs = addUser_inv setPassword_inv setRole_inv deleteUser_inv enableTOTP_inv
  disableTOTP_inv consumeRecoveryCode_inv usersFrom_inv

lemma run_user_op_inv: "users_inv U s \<Longrightarrow> users_inv U (run_user_op U A a s)"
  by (cases a) (auto intro: user_op_invs)

interpretation um: invariant_machine "user_step U A" "users_inv U" for U A
  by unfold_locales (simp add: user_step_def run_user_op_inv)

lemma addUser_ok:
  assumes "addUser U A rnd ok n p r s = (Inr (), t)"
  obtains h where "hashPassword A rnd p = Inr h" "ok"
    "t = \<lparr>Users = Users s @ [new_user (TrimSpace n) h r], usersDisk = Some (Users t)\<rparr>"
    "\<not> list_ex (same_user U (TrimSpace n)) (Users s)" "TrimSpace n \<noteq> []"
    "r = roleAdmin \<or> r = roleViewer"
  using assms by (auto simp: addUser_def Let_def save_def split: if_splits sum.splits)

lemma addUser_first_inv:
  assumes "addUser U A rnd ok n p roleAdmin s = (Inr (), t)" "Users s = []"
  shows "users_inv U t"
  using assms(1)
proof (rule addUser_ok)
  fix h assume h: "TrimSpace n \<noteq> []"
    "t = \<lparr>Users = Users s @ [new_user (TrimSpace n) h roleAdmin], usersDisk = Some (Users t)\<rparr>"
  have u: "good_users U [new_user (TrimSpace n) h roleAdmin]"
    using user_ok_new [OF h(1), of roleAdmin h]
    by (simp add: good_users_def wf_users_def admins_def is_admin_def new_user_def)
  have "Users t = [new_user (TrimSpace n) h roleAdmin]" "usersDisk t = Some (Users t)"
    using h(2) assms(2) by (metis append_Nil userStore.select_convs(1)) (metis h(2) userStore.select_convs(2))
  with u show ?thesis by (simp add: users_inv_def)
qed

lemma bootstrapUsers_inv:
  assumes "bootstrapUsers U A env rnd1 ok1 rnd2 ok2 s0 = (Inr (), s)" "Users s0 = []"
  shows "users_inv U s"
proof -
  obtain r1 s1 where first: "addUser U A rnd1 ok1 (env ''ADMIN_USER'') (env ''ADMIN_PASS'') roleAdmin
      s0 = (r1, s1)" by (meson surj_pair)
  have e: "empty_users s0" using assms(2) by (simp add: empty_users_def)
  from assms first e obtain n p where r1: "r1 = Inr ()" and
    s: "s = s1 \<or> addUser U A rnd2 ok2 n p roleViewer s1 = (Inr (), s)"
    by (auto simp: bootstrapUsers_def Let_def split: if_splits sum.splits)
  have i1: "users_inv U s1"
    using addUser_first_inv first r1 assms(2) by auto
  from s show ?thesis
    using i1 addUser_inv [OF i1, of A rnd2 ok2 n p roleViewer] by auto
qed

text \<open>
  C7: Whatever sequence of account operations, failed saves and restarts follows a successful
  first start, no two accounts are ever equal up to letter case, every account has a trimmed
  non-empty name and a known role, only admins have two-factor data, and at least one admin
  is left, in memory and in \<open>users.json\<close> alike.
\<close>

theorem users_always_good:
  assumes "bootstrapUsers U A env rnd1 ok1 rnd2 ok2 (usersFrom None) = (Inr (), s)"
    and "trace (user_step U A) s tr" and "(a, t) \<in> set tr"
  shows "good_users U (Users t) \<and> 1 \<le> adminCount t \<and>
    (\<exists>d. usersDisk t = Some d \<and> good_users U d)"
proof -
  have "users_inv U t"
    by (rule um.trace_inv_all [OF assms(2) bootstrapUsers_inv [OF assms(1)] assms(3)]) (simp add: usersFrom_def)
  then show ?thesis
    by (auto simp: users_inv_def good_users_def adminCount_def split: option.splits)
qed

lemma TrimSpace_root: "TrimSpace ''root'' = ''root''"
  by (rule TrimSpace_id) (simp_all add: graphic_def)

definition demo_getenv :: "string \<Rightarrow> string" where
  "demo_getenv k = (if k = ''ADMIN_USER'' then ''root'' else if k = ''ADMIN_PASS'' then ''longenough'' else [])"

definition demo_users :: userStore where
  "demo_users = snd (bootstrapUsers basic_unicode toy_argon demo_getenv (Some ''salt'') True None True
     (usersFrom None))"

lemma demo_bootstrap:
  "bootstrapUsers basic_unicode toy_argon demo_getenv (Some ''salt'') True None True (usersFrom None) =
   (Inr (), demo_users)"
proof -
  have "fst (bootstrapUsers basic_unicode toy_argon demo_getenv (Some ''salt'') True None True
     (usersFrom None)) = Inr ()"
    by (simp add: bootstrapUsers_def empty_users_def usersFrom_def demo_getenv_def addUser_def
        hashPassword_def save_def TrimSpace_root roleAdmin_def Let_def)
  then show ?thesis by (simp add: demo_users_def prod_eq_iff)
qed

theorem users_always_good_witness:
  "good_users basic_unicode (Users (snd (deleteUser basic_unicode True ''root'' demo_users)))"
proof -
  let ?t = "snd (deleteUser basic_unicode True ''root'' demo_users)"
  have "trace (user_step basic_unicode toy_argon) demo_users [(OpDelete True ''root'', ?t)]"
    by (simp add: user_step_def)
  from users_always_good [OF demo_bootstrap this, of _ ?t] show ?thesis by simp
qed

subsection \<open>Sign-in after an account is created\<close>

lemma find_append: "List.find p (xs @ ys) = (case List.find p xs of None \<Rightarrow> List.find p ys | Some x \<Rightarrow> Some x)"
  by (induction xs) auto

lemma same_user_cong: "EqualFold U n m \<Longrightarrow> same_user U n u = same_user U m u"
  by (simp add: same_user_def EqualFold_def)

text \<open>
  Once \<open>addUser\<close> has succeeded, the new account signs in under its name in any letter case
  with exactly the passwords whose Argon2id key is the stored one, in particular its own, and
  gets the requested role; any other name authenticates exactly as before.
\<close>

theorem addUser_authenticate:
  assumes "\<And>p s t m th k. length (A p s t m th k) = k"
    and "addUser U A (Some salt) ok n pw role s = (Inr (), s')"
  shows "(\<exists>u. Role u = role \<and> Username u = TrimSpace n \<and> \<not> totp_active u \<and>
      (\<forall>pw'. authenticate U A s' (TrimSpace n) pw' =
         (if A pw' salt argonTime argonMemory argonThreads argonKeyLen =
             A pw salt argonTime argonMemory argonThreads argonKeyLen
          then Inr u else Inl errInvalidCredentials))) \<and>
    authenticate U A s' m pw2 =
      (if EqualFold U (TrimSpace n) m then authenticate U A s' (TrimSpace n) pw2
       else authenticate U A s m pw2)"
proof -
  obtain h where h: "hashPassword A (Some salt) pw = Inr h"
    "s' = \<lparr>Users = Users s @ [new_user (TrimSpace n) h role], usersDisk = Some (Users s')\<rparr>"
    "\<not> list_ex (same_user U (TrimSpace n)) (Users s)"
    using assms(2) by (rule addUser_ok) blast
  have us: "Users s' = Users s @ [new_user (TrimSpace n) h role]"
    by (subst h(2)) simp
  have none: "List.find (same_user U (TrimSpace n)) (Users s) = None"
    using h(3) by (auto simp: find_None_iff list_ex_iff)
  have me: "same_user U (TrimSpace n) (new_user (TrimSpace n) h role)"
    by (simp add: same_user_def new_user_def)
  have "\<exists>u. Role u = role \<and> Username u = TrimSpace n \<and> \<not> totp_active u \<and>
      (\<forall>pw'. authenticate U A s' (TrimSpace n) pw' =
         (if A pw' salt argonTime argonMemory argonThreads argonKeyLen =
             A pw salt argonTime argonMemory argonThreads argonKeyLen
          then Inr u else Inl errInvalidCredentials))"
    by (rule exI [of _ "new_user (TrimSpace n) h role"])
      (simp add: authenticate_def us find_append none me, simp add: new_user_def totp_active_def
        verify_stored [OF assms(1) h(1)] split: bool.splits)
  moreover have "authenticate U A s' m pw2 = authenticate U A s' (TrimSpace n) pw2"
    if "EqualFold U (TrimSpace n) m"
  proof -
    have "same_user U m = same_user U (TrimSpace n)" using same_user_cong [OF that] by auto
    then show ?thesis by (simp add: authenticate_def)
  qed
  moreover have "authenticate U A s' m pw2 = authenticate U A s m pw2" if "\<not> EqualFold U (TrimSpace n) m"
    using that by (simp add: authenticate_def us find_append same_user_def new_user_def split: option.splits)
  ultimately show ?thesis by simp
qed

lemma demo_addUser:
  "\<exists>s'. addUser basic_unicode toy_argon (Some ''salt'') True ''root'' ''longenough'' roleAdmin
     (usersFrom None) = (Inr (), s')"
  by (simp add: addUser_def usersFrom_def hashPassword_def save_def TrimSpace_root Let_def)

theorem addUser_authenticate_witness:
  "\<exists>s' u. Role u = roleAdmin \<and> authenticate basic_unicode toy_argon s' ''root'' ''longenough'' = Inr u"
proof -
  obtain s' where s': "addUser basic_unicode toy_argon (Some ''salt'') True ''root'' ''longenough'' roleAdmin
     (usersFrom None) = (Inr (), s')" using demo_addUser by blast
  from addUser_authenticate [OF toy_argon_length s'] show ?thesis
    by (metis TrimSpace_root)
qed

subsection \<open>Recovery codes work once\<close>

definition recovery_hashes :: "unicode \<Rightarrow> string \<Rightarrow> userStore \<Rightarrow> string list" where
  "recovery_hashes U n s =
     (case byUsername U n s of None \<Rightarrow> [] | Some u \<Rightarrow> TOTPRecoveryHash u)"

lemma remove1_remove_at: "find_index ((=) x) xs = Some j \<Longrightarrow> remove_at j xs = remove1 x xs"
  by (induction xs arbitrary: j) (auto simp: remove_at_def split: if_splits)

lemma find_update:
  assumes "find_index p xs = Some i" "p y"
  shows "List.find p (xs[i := y]) = Some y"
  using assms by (induction xs arbitrary: i) (auto split: if_splits)

lemma find_update_other:
  assumes "\<not> q (xs ! i)" "\<not> q y" 
  shows "List.find q (xs[i := y]) = List.find q xs"
  using assms by (induction xs arbitrary: i) (auto split: nat.splits)

lemma consumeRecoveryCode_spends:
  "consumeRecoveryCode U ok n code s = (b, s') \<Longrightarrow>
     b = (hashRecoveryCode U code \<in> set (recovery_hashes U n s)) \<and>
     recovery_hashes U n s' = remove1 (hashRecoveryCode U code) (recovery_hashes U n s) \<and>
     (EqualFold U n m \<or> byUsername U m s' = byUsername U m s)"
proof -
  assume r: "consumeRecoveryCode U ok n code s = (b, s')"
  let ?h = "hashRecoveryCode U code"
  show ?thesis
  proof (cases "find_index (same_user U n) (Users s)")
    case None
    with r show ?thesis
      by (simp add: consumeRecoveryCode_def Let_def recovery_hashes_def byUsername_def find_as_find_index)
  next
    case (Some i)
    let ?u = "Users s ! i"
    have su: "same_user U n ?u" using Some by (rule find_index_SomeD(2))
    have rh: "recovery_hashes U n s = TOTPRecoveryHash ?u"
      by (simp add: recovery_hashes_def byUsername_def find_as_find_index Some)
    show ?thesis
    proof (cases "find_index ((=) ?h) (TOTPRecoveryHash ?u)")
      case None
      with r Some rh show ?thesis
        by (auto simp: consumeRecoveryCode_def Let_def find_index_None remove1_idem)
    next
      case (Some j)
      let ?y = "?u\<lparr>TOTPRecoveryHash := remove_at j (TOTPRecoveryHash ?u)\<rparr>"
      have in_set: "?h \<in> set (TOTPRecoveryHash ?u)"
        using find_index_SomeD(2,3) [OF Some] by simp
      have us: "Users s' = (Users s)[i := ?y]" and b: b
        using r \<open>find_index (same_user U n) (Users s) = Some i\<close> Some
        by (auto simp: consumeRecoveryCode_def Let_def save_def split: if_splits)
      have sy: "same_user U n ?y" using su by (simp add: same_user_def)
      have "recovery_hashes U n s' = TOTPRecoveryHash ?y"
        using find_update [OF \<open>find_index (same_user U n) (Users s) = Some i\<close> sy]
        by (simp add: recovery_hashes_def byUsername_def us)
      moreover have "byUsername U m s' = byUsername U m s" if "\<not> EqualFold U n m"
        using that su unfolding byUsername_def us
        by (intro find_update_other) (auto simp: same_user_def EqualFold_def)
      ultimately show ?thesis
        using b in_set rh remove1_remove_at [OF Some] by auto
    qed
  qed
qed

text \<open>
  \<open>consumeRecoveryCode\<close> accepts a code exactly when its hash is stored for the account, and
  an accepted code is spent: one occurrence of its hash is gone, the other hashes and every
  other account stay. This holds whether or not the save succeeds.
\<close>

theorem consumeRecoveryCode_once:
  "consumeRecoveryCode U ok n code s = (b, s') \<Longrightarrow>
     b = (hashRecoveryCode U code \<in> set (recovery_hashes U n s)) \<and>
     recovery_hashes U n s' = remove1 (hashRecoveryCode U code) (recovery_hashes U n s) \<and>
     (EqualFold U n m \<or> byUsername U m s' = byUsername U m s)"
  by (rule consumeRecoveryCode_spends)

definition demo_totp_users :: userStore where
  "demo_totp_users = \<lparr>Users = [(new_user ''root'' ''h'' roleAdmin)
      \<lparr>TOTPSecret := ''S'', TOTPEnabled := True, TOTPRecoveryHash := [hashRecoveryCode basic_unicode ''abcd'']\<rparr>],
     usersDisk = None\<rparr>"

theorem consumeRecoveryCode_once_witness:
  "let (b, s') = consumeRecoveryCode basic_unicode True ''root'' ''abcd'' demo_totp_users
   in b \<and> recovery_hashes basic_unicode ''root'' s' = []"
proof -
  obtain b s' where r: "consumeRecoveryCode basic_unicode True ''root'' ''abcd'' demo_totp_users = (b, s')"
    by (meson surj_pair)
  have "recovery_hashes basic_unicode ''root'' demo_totp_users = [hashRecoveryCode basic_unicode ''abcd'']"
    by (simp add: recovery_hashes_def byUsername_def demo_totp_users_def same_user_def new_user_def)
  with consumeRecoveryCode_once [OF r] r show ?thesis by simp
qed

subsection \<open>Equal Argon2 work for known and unknown names\<close>

text \<open>
  The parameters a verification runs Argon2 with: memory, time, threads, salt length and key
  length, as \<open>verifyPassword\<close> reads them from the encoding.
\<close>

definition argon_work :: "string \<Rightarrow> (nat \<times> nat \<times> nat) option \<times> nat option \<times> nat option" where
  "argon_work enc =
     (let parts = split_on (CHR ''$'') enc in
      (scan_params (parts ! 3), map_option length (b64_decode (parts ! 4)),
       map_option length (b64_decode (parts ! 5))))"

lemma argon_work_hashPassword:
  assumes "\<And>p s t m th k. length (A p s t m th k) = k"
    and "hashPassword A (Some salt) pw = Inr h"
  shows "argon_work h = (Some (65536, 3, 4), Some (length salt), Some 32)"
  using assms(1)
  by (simp add: argon_work_def hashPassword_parts [OF assms(2)] scan_params_default b64_roundtrip
      argonKeyLen_def Let_def)



end
