(* ===== verification/Paths.thy ===== *)
theory Paths
  imports GoStrings
begin

text \<open>
  The lexical part of \<open>path/filepath\<close> on Unix. An absolute, cleaned path is the list of its
  components (type \<open>apath\<close>, \<open>[]\<close> is \<open>/\<close>); relative paths stay strings. \<open>clean_step\<close>
  is one step of \<open>filepath.Clean\<close> over the components, on a stack with the last component
  on top; \<open>join_abs\<close> is \<open>filepath.Join\<close> with an absolute first argument.
\<close>

type_synonym apath = "string list"

definition ordinary :: "string \<Rightarrow> bool" where
  "ordinary c \<longleftrightarrow> c \<noteq> [] \<and> c \<noteq> ''.'' \<and> c \<noteq> ''..'' \<and> slash \<notin> set c"

definition ordinary_path :: "apath \<Rightarrow> bool" where
  "ordinary_path p \<longleftrightarrow> list_all ordinary p"

fun clean_step :: "bool \<Rightarrow> string list \<Rightarrow> string \<Rightarrow> string list" where
  "clean_step rooted st c =
     (if c = [] \<or> c = ''.'' then st
      else if c = ''..'' then
        (case st of
           [] \<Rightarrow> (if rooted then [] else [''..''])
         | t # ts \<Rightarrow> (if t = ''..'' then ''..'' # st else ts))
      else c # st)"

definition clean_comps :: "bool \<Rightarrow> string list \<Rightarrow> string list" where
  "clean_comps rooted parts = rev (foldl (clean_step rooted) [] parts)"

definition path_Clean :: "string \<Rightarrow> string" where
  "path_Clean s =
     (let rooted = HasPrefix s ''/''; cs = clean_comps rooted (split_on slash s)
      in if rooted then slash # join_with ''/'' cs
         else if cs = [] then ''.'' else join_with ''/'' cs)"

definition apath_of :: "string \<Rightarrow> apath" where
  "apath_of s = clean_comps True (split_on slash s)"

definition apath_str :: "apath \<Rightarrow> string" where
  "apath_str p = slash # join_with ''/'' p"

definition join_abs :: "apath \<Rightarrow> string \<Rightarrow> apath" where
  "join_abs p s = rev (foldl (clean_step True) (rev p) (split_on slash s))"

definition path_Base :: "string \<Rightarrow> string" where
  "path_Base s =
     (if s = [] then ''.''
      else let t = TrimRight s ''/''
           in if t = [] then ''/'' else last (split_on slash t))"

definition path_Ext :: "string \<Rightarrow> string" where
  "path_Ext s =
     (let b = last (split_on slash s)
      in if dot \<in> set b then dot # last (split_on dot b) else [])"

definition apath_Base :: "apath \<Rightarrow> string" where
  "apath_Base p = (if p = [] then ''/'' else last p)"

definition apath_Dir :: "apath \<Rightarrow> apath" where
  "apath_Dir p = butlast p"

fun rel_comps :: "apath \<Rightarrow> apath \<Rightarrow> string list" where
  "rel_comps (b # bs) (t # ts) =
     (if b = t then rel_comps bs ts else map (\<lambda>_. ''..'') (b # bs) @ t # ts)"
| "rel_comps bs ts = map (\<lambda>_. ''..'') bs @ ts"

definition path_Rel :: "apath \<Rightarrow> apath \<Rightarrow> string" where
  "path_Rel base targ = (let r = rel_comps base targ in if r = [] then ''.'' else join_with ''/'' r)"

text \<open>\<open>filepath.Abs\<close>, with the working directory (\<open>None\<close>: \<open>os.Getwd\<close> fails).\<close>

definition path_Abs :: "apath option \<Rightarrow> string \<Rightarrow> apath option" where
  "path_Abs cwd s =
     (if HasPrefix s ''/'' then Some (apath_of s) else map_option (\<lambda>c. join_abs c s) cwd)"

subsection \<open>Cleaning keeps components ordinary\<close>

lemma ordinary_path_simps [simp]:
  "ordinary_path []"
  "ordinary_path (c # p) \<longleftrightarrow> ordinary c \<and> ordinary_path p"
  "ordinary_path (p @ q) \<longleftrightarrow> ordinary_path p \<and> ordinary_path q"
  "ordinary_path (rev p) \<longleftrightarrow> ordinary_path p"
  by (auto simp: ordinary_path_def)

lemma ordinary_path_butlast: "ordinary_path p \<Longrightarrow> ordinary_path (butlast p)"
  by (auto simp: ordinary_path_def list_all_iff dest: in_set_butlastD)

lemma not_ordinary [simp]: "\<not> ordinary []" "\<not> ordinary ''.''" "\<not> ordinary ''..''"
  by (simp_all add: ordinary_def)

lemma clean_step_skip [simp]: "clean_step r st [] = st" "clean_step r st ''.'' = st"
  by simp_all

lemma clean_step_ordinary [simp]: "ordinary c \<Longrightarrow> clean_step r st c = c # st"
  by (auto simp: ordinary_def)

lemma clean_step_rooted_ordinary:
  "ordinary_path st \<Longrightarrow> slash \<notin> set c \<Longrightarrow> ordinary_path (clean_step True st c)"
  by (cases st) (auto simp: ordinary_def)

declare clean_step.simps [simp del]

lemma foldl_clean_ordinary:
  "ordinary_path st \<Longrightarrow> \<forall>c\<in>set cs. slash \<notin> set c \<Longrightarrow> ordinary_path (foldl (clean_step True) st cs)"
proof (induction cs arbitrary: st)
  case (Cons c cs)
  then have "ordinary_path (clean_step True st c)" by (intro clean_step_rooted_ordinary) auto
  with Cons show ?case by simp
qed simp

lemma apath_of_ordinary [path_simps]: "ordinary_path (apath_of s)"
proof -
  have "ordinary_path (foldl (clean_step True) [] (split_on slash s))"
    by (rule foldl_clean_ordinary) (auto dest: split_on_no_sep)
  then show ?thesis by (simp add: apath_of_def clean_comps_def)
qed

lemma join_abs_ordinary: "ordinary_path p \<Longrightarrow> ordinary_path (join_abs p s)"
  unfolding join_abs_def ordinary_path_simps(4)
  by (rule foldl_clean_ordinary) (auto dest: split_on_no_sep)

lemma foldl_clean_all_ordinary:
  "list_all ordinary cs \<Longrightarrow> foldl (clean_step r) st cs = rev cs @ st"
  by (induction cs arbitrary: st) auto

lemma join_abs_ordinary_name [path_simps]: "ordinary c \<Longrightarrow> join_abs p c = p @ [c]"
  by (simp add: join_abs_def split_on_fresh ordinary_def)

lemma join_abs_skip: "c = [] \<or> c = ''.'' \<Longrightarrow> join_abs p c = p"
  by (auto simp: join_abs_def)

lemma foldl_join_abs_ordinary:
  "\<forall>c\<in>set cs. c = [] \<or> c = ''.'' \<or> ordinary c \<Longrightarrow>
   foldl join_abs p cs = p @ filter ordinary cs"
proof (induction cs arbitrary: p)
  case (Cons c cs)
  then have "c = [] \<or> c = ''.'' \<or> ordinary c" by simp
  then consider "c = []" | "c = ''.''" | "ordinary c" by blast
  then show ?case using Cons by cases (simp_all add: join_abs_skip join_abs_ordinary_name)
qed simp

lemma apath_of_str [path_simps]: "ordinary_path p \<Longrightarrow> apath_of (apath_str p) = p"
proof (cases "p = []")
  case True
  then show ?thesis by (simp add: apath_of_def apath_str_def clean_comps_def)
next
  case False
  assume "ordinary_path p"
  then have no: "\<forall>c\<in>set p. slash \<notin> set c" and o: "list_all ordinary p"
    by (auto simp: ordinary_path_def list_all_iff ordinary_def)
  have "split_on slash (apath_str p) = [] # p"
    using False no by (simp add: apath_str_def split_join_with)
  then show ?thesis
    using o by (simp add: apath_of_def clean_comps_def foldl_clean_all_ordinary)
qed

lemma path_Clean_rooted: "path_Clean (slash # s) = apath_str (apath_of (slash # s))"
  by (simp add: path_Clean_def apath_str_def apath_of_def Let_def)

text \<open>Cleaning is idempotent on rooted paths.\<close>

lemma path_Clean_idem: "path_Clean (path_Clean (slash # s)) = path_Clean (slash # s)"
  by (metis apath_of_ordinary apath_of_str apath_str_def path_Clean_rooted)

subsection \<open>Relative paths\<close>

lemma rel_comps_append [path_simps]: "rel_comps p (p @ q) = q"
proof (induction p)
  case Nil
  then show ?case by (cases q) auto
qed simp

lemma rel_comps_Nil [simp]: "rel_comps [] q = q"
  by (cases q) auto

lemma rel_comps_not_prefix: "\<not> prefix p q \<Longrightarrow> \<exists>r. rel_comps p q = ''..'' # r"
proof (induction p arbitrary: q)
  case (Cons b p)
  then show ?case by (cases q) auto
qed simp

text \<open>
  The test dingbap makes on a relative path (\<open>rel == ".."\<close> or \<open>rel\<close> starts with \<open>../\<close>)
  tells exactly whether the target lies below the base.
\<close>

definition rel_escapes :: "string \<Rightarrow> bool" where
  "rel_escapes rel \<longleftrightarrow> rel = ''..'' \<or> HasPrefix rel ''../''"

lemma join_dotdot: "rel_escapes (join_with ''/'' (''..'' # r))"
  by (cases r) (auto simp: rel_escapes_def)

lemma join_not_dotdot:
  assumes "ordinary c"
  shows "\<not> rel_escapes (join_with ''/'' (c # r))" and "join_with ''/'' (c # r) \<noteq> ''.''"
proof -
  have s: "hd (split_on slash (join_with ''/'' (c # r))) = c"
    using assms by (cases r) (auto simp: split_on_fresh split_on_append_sep ordinary_def)
  have c: "c \<noteq> ''..''" "c \<noteq> ''.''" using assms by (auto simp: ordinary_def)
  show "\<not> rel_escapes (join_with ''/'' (c # r))"
    using s c by (auto simp: rel_escapes_def prefix_def)
  show "join_with ''/'' (c # r) \<noteq> ''.''"
    using s c by (auto simp: eval_nat_numeral)
qed

lemma path_Rel_escapes_iff:
  assumes "ordinary_path targ"
  shows "rel_escapes (path_Rel base targ) \<longleftrightarrow> \<not> prefix base targ"
proof (cases "prefix base targ")
  case True
  then obtain q where q: "targ = base @ q" by (auto simp: prefix_def)
  show ?thesis
  proof (cases q)
    case Nil
    with q True show ?thesis
      by (simp add: path_Rel_def rel_comps_append [of base "[]", simplified] rel_escapes_def)
  next
    case (Cons c r)
    with q assms have "ordinary c" by simp
    with q Cons True show ?thesis
      by (simp add: path_Rel_def rel_comps_append join_not_dotdot)
  qed
next
  case False
  then obtain r where "rel_comps base targ = ''..'' # r" using rel_comps_not_prefix by blast
  with False show ?thesis
    using join_dotdot [of r] by (simp add: path_Rel_def del: join_with.simps)
qed

lemma path_Rel_dot_iff:
  assumes "ordinary_path targ"
  shows "path_Rel base targ = ''.'' \<longleftrightarrow> base = targ"
proof (cases "prefix base targ")
  case True
  then obtain q where q: "targ = base @ q" by (auto simp: prefix_def)
  with assms show ?thesis
    by (cases q) (auto simp: path_Rel_def rel_comps_append join_not_dotdot
        rel_comps_append [of base "[]", simplified] simp del: join_with.simps)
next
  case False
  then have "rel_escapes (path_Rel base targ)" using assms by (simp add: path_Rel_escapes_iff)
  with False show ?thesis by (auto simp: rel_escapes_def)
qed

lemma path_Rel_split:
  assumes "ordinary_path q" and "q \<noteq> []"
  shows "split_on slash (path_Rel p (p @ q)) = q"
  using assms unfolding path_Rel_def Let_def rel_comps_append
  by (auto simp: split_join_with ordinary_path_def list_all_iff ordinary_def)

end
