(* ===== verification/FileSys.thy ===== *)
theory FileSys
  imports Paths
begin

text \<open>
  The Unix file system behind Go's \<open>os\<close> package, as far as dingbap uses it: a tree of
  directories, plain files and symbolic links, keyed by absolute path; path resolution with
  the kernel's limit of 40 links; \<open>filepath.EvalSymlinks\<close> with Go's limit of 255; and the
  calls that change the tree. Errors other than "does not exist" that depend on the machine
  (permissions, a failing disk) are a field of the state, so that every error branch of the
  callers can be taken.
\<close>

datatype fnode = FDir | FFile string | FLink string

datatype oserr = ENOENT | ENOTDIR | ELOOP | EEXIST | ENOTEMPTY | EINVAL | EISDIR | EIO

text \<open>The texts of the errors, as \<open>*PathError\<close> and \<open>*LinkError\<close> print them.\<close>

fun errno_text :: "oserr \<Rightarrow> string" where
  "errno_text ENOENT = ''no such file or directory''"
| "errno_text ENOTDIR = ''not a directory''"
| "errno_text ELOOP = ''too many levels of symbolic links''"
| "errno_text EEXIST = ''file exists''"
| "errno_text ENOTEMPTY = ''directory not empty''"
| "errno_text EINVAL = ''invalid argument''"
| "errno_text EISDIR = ''is a directory''"
| "errno_text EIO = ''input/output error''"

definition path_error :: "string \<Rightarrow> apath \<Rightarrow> oserr \<Rightarrow> error" where
  "path_error call p e = call @ '' '' @ apath_str p @ '': '' @ errno_text e"

definition link_error :: "string \<Rightarrow> apath \<Rightarrow> apath \<Rightarrow> oserr \<Rightarrow> error" where
  "link_error call p q e = call @ '' '' @ apath_str p @ '' '' @ apath_str q @ '': '' @ errno_text e"

record fs =
  nodes :: "(apath \<times> fnode) list"
  rfail :: "apath \<Rightarrow> bool" \<comment> \<open>reading this entry fails with an I/O or permission error\<close>
  wfail :: "apath \<Rightarrow> bool" \<comment> \<open>changing this entry fails with such an error\<close>

definition node_at :: "fs \<Rightarrow> apath \<Rightarrow> fnode option" where
  "node_at f p = (if p = [] then Some FDir else map_of (nodes f) p)"

definition lookup_entry :: "fs \<Rightarrow> apath \<Rightarrow> oserr + fnode" where
  "lookup_entry f p =
     (if rfail f p then Inl EIO
      else case node_at f p of None \<Rightarrow> Inl ENOENT | Some n \<Rightarrow> Inr n)"

subsection \<open>Path resolution\<close>

text \<open>
  \<open>walk f l dest cs\<close> follows the components \<open>cs\<close> from the link-free directory \<open>dest\<close>,
  with \<open>l\<close> links still allowed. A link's target replaces it in front of the components
  left. It terminates because a followed link uses up one of the \<open>l\<close>.
\<close>

function walk :: "fs \<Rightarrow> nat \<Rightarrow> apath \<Rightarrow> string list \<Rightarrow> oserr + apath" where
  "walk f l dest [] = Inr dest"
| "walk f l dest (c # cs) =
     (if c = [] \<or> c = ''.'' then walk f l dest cs
      else if c = ''..'' then walk f l (butlast dest) cs
      else case lookup_entry f (dest @ [c]) of
          Inl e \<Rightarrow> Inl e
        | Inr FDir \<Rightarrow> walk f l (dest @ [c]) cs
        | Inr (FFile _) \<Rightarrow> (if cs = [] then Inr (dest @ [c]) else Inl ENOTDIR)
        | Inr (FLink t) \<Rightarrow>
            (if l = 0 then Inl ELOOP
             else walk f (l - 1) (if HasPrefix t ''/'' then [] else dest) (split_on slash t @ cs)))"
  by pat_completeness auto
termination
  by (relation "measures [\<lambda>(f, l, d, cs). l, \<lambda>(f, l, d, cs). length cs]") auto

declare walk.simps [simp del]

definition kernel_links :: nat where "kernel_links = 40"
definition evalsymlinks_links :: nat where "evalsymlinks_links = 255"

definition EvalSymlinks :: "fs \<Rightarrow> apath \<Rightarrow> oserr + apath" where
  "EvalSymlinks f p = walk f evalsymlinks_links [] p"

text \<open>The physical place of an entry: its directory resolved, the entry itself not followed.\<close>

definition resolve_nofollow :: "fs \<Rightarrow> apath \<Rightarrow> oserr + apath" where
  "resolve_nofollow f p =
     (if p = [] then Inr []
      else case walk f kernel_links [] (butlast p) of
          Inl e \<Rightarrow> Inl e
        | Inr d \<Rightarrow> (if node_at f d = Some FDir then Inr (d @ [last p]) else Inl ENOTDIR))"

definition os_Lstat :: "fs \<Rightarrow> apath \<Rightarrow> oserr + fnode" where
  "os_Lstat f p =
     (case resolve_nofollow f p of Inl e \<Rightarrow> Inl e | Inr q \<Rightarrow> lookup_entry f q)"

definition os_Stat :: "fs \<Rightarrow> apath \<Rightarrow> oserr + fnode" where
  "os_Stat f p =
     (case walk f kernel_links [] p of Inl e \<Rightarrow> Inl e | Inr q \<Rightarrow> lookup_entry f q)"

definition is_dir :: "fnode \<Rightarrow> bool" where "is_dir n \<longleftrightarrow> n = FDir"

fun node_size :: "fnode \<Rightarrow> int" where
  "node_size (FFile s) = int (length s)"
| "node_size FDir = 4096"
| "node_size (FLink t) = int (length t)"

subsection \<open>Link-free paths\<close>

text \<open>
  A path is \<^emph>\<open>real\<close> when walking it with no link allowed gives the path itself: every
  component is an existing entry, none of them a link.
\<close>

definition real_path :: "fs \<Rightarrow> apath \<Rightarrow> bool" where
  "real_path f p \<longleftrightarrow> walk f 0 [] p = Inr p"

definition real_dir :: "fs \<Rightarrow> apath \<Rightarrow> bool" where
  "real_dir f p \<longleftrightarrow> ordinary_path p \<and>
     list_all (\<lambda>q. q = [] \<or> lookup_entry f q = Inr FDir) (prefixes p)"

lemma real_dir_Nil [simp]: "real_dir f []"
  by (simp add: real_dir_def)

lemma real_dir_snoc:
  "real_dir f (p @ [c]) \<longleftrightarrow>
     real_dir f p \<and> ordinary c \<and> lookup_entry f (p @ [c]) = Inr FDir"
  by (auto simp: real_dir_def list_all_iff)

lemma real_dir_prefix: "real_dir f (p @ q) \<Longrightarrow> real_dir f p"
  by (auto simp: real_dir_def list_all_iff)

lemma real_dir_butlast: "real_dir f p \<Longrightarrow> real_dir f (butlast p)"
  by (cases p rule: rev_cases) (auto simp: real_dir_snoc)

lemma real_dir_node: "real_dir f p \<Longrightarrow> node_at f p = Some FDir"
  by (cases p rule: rev_cases)
    (auto simp: real_dir_snoc lookup_entry_def node_at_def split: if_splits option.splits)

lemma real_dir_not_fail: "real_dir f p \<Longrightarrow> p \<noteq> [] \<Longrightarrow> \<not> rfail f p"
  by (cases p rule: rev_cases) (auto simp: real_dir_snoc lookup_entry_def split: if_splits)

lemma real_dir_ordinary: "real_dir f p \<Longrightarrow> ordinary_path p"
  by (simp add: real_dir_def)

lemma walk_ordinary:
  "ordinary c \<Longrightarrow> walk f l d (c # cs) =
     (case lookup_entry f (d @ [c]) of
          Inl e \<Rightarrow> Inl e
        | Inr FDir \<Rightarrow> walk f l (d @ [c]) cs
        | Inr (FFile _) \<Rightarrow> (if cs = [] then Inr (d @ [c]) else Inl ENOTDIR)
        | Inr (FLink t) \<Rightarrow>
            (if l = 0 then Inl ELOOP
             else walk f (l - 1) (if HasPrefix t ''/'' then [] else d) (split_on slash t @ cs)))"
  by (subst walk.simps) (auto simp: ordinary_def)

text \<open>Walking a real directory's components is walking nothing, whatever the link budget.\<close>

lemma walk_real_dir_from:
  "real_dir f (d @ p) \<Longrightarrow> walk f l d (p @ cs) = walk f l (d @ p) cs"
proof (induction p arbitrary: d)
  case (Cons c p)
  have rd: "real_dir f ((d @ [c]) @ p)" using Cons.prems by simp
  then have "real_dir f (d @ [c])" by (rule real_dir_prefix)
  then have "ordinary c" "lookup_entry f (d @ [c]) = Inr FDir" by (auto simp: real_dir_snoc)
  then have "walk f l d ((c # p) @ cs) = walk f l (d @ [c]) (p @ cs)"
    by (simp add: walk_ordinary)
  with Cons.IH [OF rd] show ?case by simp
qed simp

lemma walk_real_dir [path_simps]:
  "real_dir f p \<Longrightarrow> walk f l [] (p @ cs) = walk f l p cs"
  using walk_real_dir_from [of f "[]" p] by simp

lemma walk_real_dir_id [path_simps]: "real_dir f p \<Longrightarrow> walk f l [] p = Inr p"
  using walk_real_dir [of f p l "[]"] by (simp add: walk.simps)

lemma resolve_nofollow_real [path_simps]:
  "real_dir f p \<Longrightarrow> resolve_nofollow f (p @ [c]) = Inr (p @ [c])"
  by (simp add: resolve_nofollow_def walk_real_dir_id real_dir_node)

lemma os_Lstat_real [path_simps]:
  "real_dir f p \<Longrightarrow> os_Lstat f (p @ [c]) = lookup_entry f (p @ [c])"
  by (simp add: os_Lstat_def resolve_nofollow_real)

text \<open>
  A path is \<^emph>\<open>settled\<close> when its directory is real and the entry itself is a directory, a
  file or a free name: opening it, creating it or taking its status touches exactly that
  entry and follows no link.
\<close>

definition settled :: "fs \<Rightarrow> apath \<Rightarrow> bool" where
  "settled f p \<longleftrightarrow> (\<forall>l. walk f l [] p = Inr p \<or> isl (walk f l [] p)) \<and> ordinary_path p"

text \<open>A real entry: a real directory, or a plain file in one.\<close>

definition real_entry :: "fs \<Rightarrow> apath \<Rightarrow> bool" where
  "real_entry f q \<longleftrightarrow> real_dir f q \<or>
     (\<exists>d c s. q = d @ [c] \<and> real_dir f d \<and> ordinary c \<and> lookup_entry f q = Inr (FFile s))"

lemma real_entry_dirI: "real_dir f q \<Longrightarrow> real_entry f q"
  by (simp add: real_entry_def)

lemma real_entry_ordinary: "real_entry f q \<Longrightarrow> ordinary_path q"
  by (auto simp: real_entry_def real_dir_ordinary)

text \<open>Below a real entry: either it is a real directory, or the kernel answers ENOTDIR.\<close>

lemma real_entry_Lstat_below:
  assumes "real_entry f q"
  shows "real_dir f q \<or> os_Lstat f (q @ [c]) = Inl ENOTDIR"
  using assms
  by (auto simp: real_entry_def os_Lstat_def resolve_nofollow_def walk_real_dir walk_ordinary
      walk.simps(1) node_at_def lookup_entry_def split: option.splits if_splits)

lemma walk_result_real:
  "real_dir f dest \<Longrightarrow> \<forall>c\<in>set cs. slash \<notin> set c \<Longrightarrow> walk f l dest cs = Inr q \<Longrightarrow> real_entry f q"
  unfolding real_entry_def
proof (induction f l dest cs rule: walk.induct)
  case (1 f l dest)
  then show ?case by (simp add: walk.simps)
next
  case (2 f l dest c cs)
  have cs: "\<forall>c\<in>set cs. slash \<notin> set c" using "2.prems" by simp
  consider (skip) "c = [] \<or> c = ''.''" | (up) "c = ''..''" | (ord) "ordinary c"
    using "2.prems"(2) by (auto simp: ordinary_def)
  then show ?case
  proof cases
    case skip
    with "2.IH"(1) "2.prems" cs show ?thesis by (auto simp: walk.simps(2))
  next
    case up
    with "2.prems"(3) have "walk f l (butlast dest) cs = Inr q"
      by (simp add: walk.simps(2))
    with "2.IH"(2) up "2.prems"(1) cs real_dir_butlast show ?thesis by auto
  next
    case ord
    then have nc: "\<not> (c = [] \<or> c = ''.'')" "c \<noteq> ''..''" by (auto simp: ordinary_def)
    from "2.prems"(3) ord obtain n where n: "lookup_entry f (dest @ [c]) = Inr n"
      by (auto simp: walk_ordinary split: sum.splits)
    show ?thesis
    proof (cases n)
      case FDir
      with n ord "2.prems" have "walk f l (dest @ [c]) cs = Inr q" "real_dir f (dest @ [c])"
        by (auto simp: walk_ordinary real_dir_snoc)
      with "2.IH"(3) nc n FDir cs show ?thesis by auto
    next
      case (FFile s)
      with n ord "2.prems" have "q = dest @ [c]"
        by (auto simp: walk_ordinary split: if_splits)
      with n FFile "2.prems"(1) ord show ?thesis by auto
    next
      case (FLink t)
      with n ord "2.prems"(3) have l: "l \<noteq> 0" and
        w: "walk f (l - 1) (if HasPrefix t ''/'' then [] else dest) (split_on slash t @ cs) = Inr q"
        by (auto simp: walk_ordinary split: if_splits)
      have "\<forall>c\<in>set (split_on slash t @ cs). slash \<notin> set c"
        using cs by (auto dest: split_on_no_sep)
      with "2.IH"(4) nc n FLink l w "2.prems"(1) show ?thesis by simp
    qed
  qed
qed

lemma settled_real_dir [intro]: "real_dir f p \<Longrightarrow> settled f p"
  by (simp add: settled_def walk_real_dir_id real_dir_ordinary)

lemma settled_entry:
  assumes "real_dir f d" "ordinary c" "\<And>t. lookup_entry f (d @ [c]) \<noteq> Inr (FLink t)"
  shows "settled f (d @ [c])"
  using assms unfolding settled_def
  by (auto simp: walk_real_dir walk_ordinary real_dir_ordinary walk.simps
      split: sum.splits fnode.splits)

lemma settled_below_missing:
  assumes "real_dir f d" "ordinary c" "lookup_entry f (d @ [c]) = Inl e" "ordinary_path r"
  shows "settled f (d @ c # r)"
  using assms unfolding settled_def
  by (auto simp: walk_real_dir walk_ordinary real_dir_ordinary)

lemma real_entry_settled: "real_entry f q \<Longrightarrow> settled f q"
  by (auto simp: real_entry_def intro!: settled_entry)

lemma EvalSymlinks_real:
  assumes "ordinary_path p" and "EvalSymlinks f p = Inr q"
  shows "real_entry f q"
proof -
  have "\<forall>c\<in>set p. slash \<notin> set c"
    using assms(1) by (auto simp: ordinary_path_def list_all_iff ordinary_def)
  with walk_result_real [of f "[]" p] assms(2) show ?thesis by (auto simp: EvalSymlinks_def)
qed

lemma real_entry_Stat:
  assumes "real_entry f q" and "\<not> rfail f []"
  shows "\<exists>n. os_Stat f q = Inr n \<and> lookup_entry f q = Inr n"
  using assms
  by (auto simp: real_entry_def os_Stat_def walk_real_dir walk_ordinary walk.simps(1)
      walk_real_dir_id real_dir_node lookup_entry_def dest: real_dir_not_fail)

subsection \<open>Calls that change the tree\<close>

definition set_node :: "apath \<Rightarrow> fnode \<Rightarrow> fs \<Rightarrow> fs" where
  "set_node p n f = f\<lparr>nodes := (p, n) # filter (\<lambda>e. fst e \<noteq> p) (nodes f)\<rparr>"

definition del_tree :: "apath \<Rightarrow> fs \<Rightarrow> fs" where
  "del_tree p f = f\<lparr>nodes := filter (\<lambda>e. \<not> prefix p (fst e)) (nodes f)\<rparr>"

definition move_key :: "apath \<Rightarrow> apath \<Rightarrow> apath \<Rightarrow> apath" where
  "move_key src dst k = (if prefix src k then dst @ drop (length src) k else k)"

definition move_tree :: "apath \<Rightarrow> apath \<Rightarrow> fs \<Rightarrow> fs" where
  "move_tree src dst f =
     f\<lparr>nodes := map (\<lambda>e. (move_key src dst (fst e), snd e))
                 (filter (\<lambda>e. prefix src (fst e) \<or> \<not> prefix dst (fst e)) (nodes f))\<rparr>"

definition children :: "fs \<Rightarrow> apath \<Rightarrow> string list" where
  "children f p = map (last \<circ> fst) (filter (\<lambda>e. fst e \<noteq> [] \<and> butlast (fst e) = p) (nodes f))"

text \<open>\<open>os.Mkdir\<close>.\<close>

definition os_Mkdir :: "fs \<Rightarrow> apath \<Rightarrow> oserr + fs" where
  "os_Mkdir f p =
     (case resolve_nofollow f p of
        Inl e \<Rightarrow> Inl e
      | Inr q \<Rightarrow>
          (case node_at f q of
             Some _ \<Rightarrow> Inl EEXIST
           | None \<Rightarrow> (if wfail f q then Inl EIO else Inr (set_node q FDir f))))"

text \<open>
  \<open>os.MkdirAll\<close>: nothing to do when the path is a directory (links followed); otherwise the
  parents first, then the entry; an entry that has meanwhile become a directory is fine.
  The list is given in reverse, so that the recursion is structural.
\<close>

fun mkdir_all_rev :: "fs \<Rightarrow> string list \<Rightarrow> oserr option \<times> fs" where
  "mkdir_all_rev f [] = (None, f)"
| "mkdir_all_rev f (c # r) =
     (let p = rev (c # r) in
      case os_Stat f p of
        Inr n \<Rightarrow> (if is_dir n then (None, f) else (Some ENOTDIR, f))
      | Inl _ \<Rightarrow>
          (case mkdir_all_rev f r of
             (Some e, f') \<Rightarrow> (Some e, f')
           | (None, f') \<Rightarrow>
               (case os_Mkdir f' p of
                  Inr f'' \<Rightarrow> (None, f'')
                | Inl e \<Rightarrow>
                    (case os_Lstat f' p of
                       Inr n \<Rightarrow> (if is_dir n then (None, f') else (Some e, f'))
                     | Inl _ \<Rightarrow> (Some e, f')))))"

definition os_MkdirAll :: "fs \<Rightarrow> apath \<Rightarrow> oserr option \<times> fs" where
  "os_MkdirAll f p = mkdir_all_rev f (rev p)"

text \<open>\<open>os.Rename\<close>: \<open>rename(2)\<close> on the two entries, neither followed.\<close>

definition os_Rename :: "fs \<Rightarrow> apath \<Rightarrow> apath \<Rightarrow> oserr + fs" where
  "os_Rename f src dst =
     (case resolve_nofollow f src of Inl e \<Rightarrow> Inl e
      | Inr s \<Rightarrow> (case resolve_nofollow f dst of Inl e \<Rightarrow> Inl e
        | Inr d \<Rightarrow>
            (case node_at f s of None \<Rightarrow> Inl ENOENT
             | Some n \<Rightarrow>
                 if s = d then Inr f
                 else if prefix s d then Inl EINVAL
                 else if wfail f s \<or> wfail f d then Inl EIO
                 else (case node_at f d of
                         None \<Rightarrow> Inr (move_tree s d f)
                       | Some FDir \<Rightarrow>
                           (if n \<noteq> FDir then Inl EEXIST
                            else if children f d \<noteq> [] \<or> prefix d s then Inl ENOTEMPTY
                            else Inr (move_tree s d f))
                       | Some _ \<Rightarrow>
                           (if n = FDir then Inl ENOTDIR else Inr (move_tree s d f))))))"

text \<open>\<open>os.RemoveAll\<close>: a missing entry is no error.\<close>

definition os_RemoveAll :: "fs \<Rightarrow> apath \<Rightarrow> oserr option \<times> fs" where
  "os_RemoveAll f p =
     (case resolve_nofollow f p of
        Inl e \<Rightarrow> (if e = ENOENT then (None, f) else (Some e, f))
      | Inr q \<Rightarrow>
          (if node_at f q = None then (None, f)
           else if wfail f q then (Some EIO, f) else (None, del_tree q f)))"

text \<open>\<open>os.OpenFile\<close> with \<open>O_CREATE|O_EXCL\<close>, then the bytes written and the file closed.\<close>

definition os_CreateExcl :: "fs \<Rightarrow> apath \<Rightarrow> string \<Rightarrow> oserr + fs" where
  "os_CreateExcl f p bytes =
     (case resolve_nofollow f p of
        Inl e \<Rightarrow> Inl e
      | Inr q \<Rightarrow>
          (case node_at f q of
             Some _ \<Rightarrow> Inl EEXIST
           | None \<Rightarrow> (if wfail f q then Inl EIO else Inr (set_node q (FFile bytes) f))))"

text \<open>
  \<open>os.WriteFile\<close>: the file is made or cut off, then written. A link is followed, one that leads to nothing
  as well: then the file is made where it leads, unless that place ends in no proper name.
\<close>

primrec place_to_write :: "fs \<Rightarrow> nat \<Rightarrow> apath \<Rightarrow> oserr + apath" where
  "place_to_write f 0 p = Inl ELOOP"
| "place_to_write f (Suc l) p =
     (case walk f kernel_links [] p of
        Inr q \<Rightarrow> Inr q
      | Inl e \<Rightarrow>
          (if e \<noteq> ENOENT then Inl e
           else if p = [] \<or> last p \<in> {[], ''.'', ''..''} then Inl EISDIR
           else case resolve_nofollow f p of
             Inl e' \<Rightarrow> Inl e'
           | Inr q \<Rightarrow>
               (case node_at f q of
                  Some (FLink t) \<Rightarrow>
                    place_to_write f l ((if HasPrefix t ''/'' then [] else butlast q) @ split_on slash t)
                | _ \<Rightarrow> Inr q)))"

definition os_WriteFile :: "fs \<Rightarrow> apath \<Rightarrow> string \<Rightarrow> oserr + fs" where
  "os_WriteFile f p bytes =
     (case place_to_write f kernel_links p of
        Inl e \<Rightarrow> Inl e
      | Inr q \<Rightarrow>
          (if node_at f q = Some FDir then Inl EISDIR
           else if wfail f q then Inl EIO
           else Inr (set_node q (FFile bytes) f)))"

subsection \<open>What the calls do to the entries\<close>

lemma map_of_filter_key:
  "map_of (filter (\<lambda>e. P (fst e)) xs) k = (if P k then map_of xs k else None)"
  by (induction xs) auto

lemma node_at_set_node [path_simps]:
  "p \<noteq> [] \<Longrightarrow> node_at (set_node p n f) q = (if q = p then Some n else node_at f q)"
  by (auto simp: node_at_def set_node_def map_of_filter_key [of "\<lambda>k. k \<noteq> p"])

lemma node_at_del_tree [path_simps]:
  "p \<noteq> [] \<Longrightarrow> node_at (del_tree p f) q = (if prefix p q then None else node_at f q)"
  by (auto simp: node_at_def del_tree_def map_of_filter_key [of "\<lambda>k. \<not> prefix p k"])

lemma rfail_simps [simp]:
  "rfail (set_node p n f) = rfail f" "rfail (del_tree p f) = rfail f"
  "rfail (move_tree s d f) = rfail f"
  "wfail (set_node p n f) = wfail f" "wfail (del_tree p f) = wfail f"
  "wfail (move_tree s d f) = wfail f"
  by (simp_all add: set_node_def del_tree_def move_tree_def)

lemma map_of_rekey:
  assumes "\<And>k. P k \<Longrightarrow> h k = q \<longleftrightarrow> k = q0" and "P q0"
  shows "map_of (map (\<lambda>e. (h (fst e), snd e)) (filter (\<lambda>e. P (fst e)) xs)) q = map_of xs q0"
  using assms by (induction xs) auto

lemma map_of_rekey_None:
  assumes "\<And>k. P k \<Longrightarrow> h k \<noteq> q"
  shows "map_of (map (\<lambda>e. (h (fst e), snd e)) (filter (\<lambda>e. P (fst e)) xs)) q = None"
  using assms by (induction xs) auto

lemma move_tree_nodes:
  "map_of (nodes (move_tree s d f)) =
   map_of (map (\<lambda>e. (move_key s d (fst e), snd e))
     (filter (\<lambda>e. (\<lambda>k. prefix s k \<or> \<not> prefix d k) (fst e)) (nodes f)))"
  by (simp add: move_tree_def)

lemma node_at_move_tree_elsewhere [path_simps]:
  assumes "\<not> prefix d q" and "\<not> prefix s q"
  shows "node_at (move_tree s d f) q = node_at f q"
proof -
  have "map_of (nodes (move_tree s d f)) q = map_of (nodes f) q"
    unfolding move_tree_nodes
    by (rule map_of_rekey) (use assms in \<open>auto simp: move_key_def\<close>)
  then show ?thesis by (simp add: node_at_def)
qed

lemma node_at_move_tree_src:
  assumes "s \<noteq> []" and "prefix s q" and "\<not> prefix s d" and "\<not> prefix d s"
  shows "node_at (move_tree s d f) q = None"
proof -
  have "d @ r \<noteq> q" for r
    using assms(2-4) by (metis prefixI prefix_same_cases)
  then have "map_of (nodes (move_tree s d f)) q = None"
    unfolding move_tree_nodes
    by (intro map_of_rekey_None) (use assms in \<open>auto simp: move_key_def\<close>)
  moreover have "q \<noteq> []" using assms by auto
  ultimately show ?thesis by (simp add: node_at_def)
qed

lemma node_at_move_tree_dst:
  assumes "d \<noteq> []" "s \<noteq> []"
  shows "node_at (move_tree s d f) (d @ r) = node_at f (s @ r)"
proof -
  have "map_of (nodes (move_tree s d f)) (d @ r) = map_of (nodes f) (s @ r)"
    unfolding move_tree_nodes
    by (rule map_of_rekey) (auto simp: move_key_def prefix_def)
  then show ?thesis using assms by (simp add: node_at_def)
qed

subsection \<open>Calls on link-free paths\<close>

lemma os_Stat_real_dir: "real_dir f p \<Longrightarrow> \<not> rfail f [] \<Longrightarrow> os_Stat f p = Inr FDir"
  by (cases "p = []")
    (auto simp: os_Stat_def walk_real_dir_id lookup_entry_def real_dir_node dest: real_dir_not_fail)

lemma os_Stat_missing:
  "real_dir f d \<Longrightarrow> ordinary c \<Longrightarrow> lookup_entry f (d @ [c]) = Inl e \<Longrightarrow> os_Stat f (d @ [c]) = Inl e"
  by (simp add: os_Stat_def walk_real_dir walk_ordinary)

lemma os_Stat_entry:
  assumes "real_dir f d" "ordinary c" "lookup_entry f (d @ [c]) = Inr n" "\<And>t. n \<noteq> FLink t"
  shows "os_Stat f (d @ [c]) = Inr n"
  using assms by (cases n) (auto simp: os_Stat_def walk_real_dir walk_ordinary walk.simps(1))

lemma os_MkdirAll_real_dir: "real_dir f p \<Longrightarrow> \<not> rfail f [] \<Longrightarrow> os_MkdirAll f p = (None, f)"
  by (cases p rule: rev_cases) (simp_all add: os_MkdirAll_def os_Stat_real_dir is_dir_def)

lemma os_Rename_free:
  assumes "real_dir f d1" "real_dir f d2" "node_at f (d1 @ [c1]) = Some n"
    and "node_at f (d2 @ [c2]) = None" "\<not> prefix (d1 @ [c1]) (d2 @ [c2])"
    and "\<not> wfail f (d1 @ [c1])" "\<not> wfail f (d2 @ [c2])"
  shows "os_Rename f (d1 @ [c1]) (d2 @ [c2]) = Inr (move_tree (d1 @ [c1]) (d2 @ [c2]) f)"
  using assms by (auto simp: os_Rename_def resolve_nofollow_real)

lemma lookup_move_elsewhere:
  "\<not> prefix d q \<Longrightarrow> \<not> prefix s q \<Longrightarrow> lookup_entry (move_tree s d f) q = lookup_entry f q"
  by (simp add: lookup_entry_def node_at_move_tree_elsewhere)

lemma real_dir_move:
  assumes "real_dir f p" "\<not> prefix s p" "\<not> prefix d p"
  shows "real_dir (move_tree s d f) p"
proof -
  have "lookup_entry (move_tree s d f) q = lookup_entry f q" if "prefix q p" for q
    using that assms(2,3) by (intro lookup_move_elsewhere) (auto dest: prefix_order.trans)
  then show ?thesis using assms(1) by (auto simp: real_dir_def list_all_iff)
qed

text \<open>Moving an entry to a free name and back restores every entry.\<close>

lemma move_tree_back:
  assumes "s \<noteq> []" "d \<noteq> []" "\<not> prefix s d" "\<not> prefix d s" "\<And>r. node_at f (d @ r) = None"
  shows "node_at (move_tree d s (move_tree s d f)) q = node_at f q"
proof -
  consider (s) r where "q = s @ r" | (d) r where "q = d @ r" | (n) "\<not> prefix s q" "\<not> prefix d q"
    by (auto simp: prefix_def)
  then show ?thesis
  proof cases
    case s
    then show ?thesis using assms by (simp add: node_at_move_tree_dst)
  next
    case d
    have "node_at (move_tree d s (move_tree s d f)) (d @ r) = None"
      by (rule node_at_move_tree_src) (use assms in auto)
    then show ?thesis using d assms(5) by simp
  next
    case n
    then show ?thesis by (simp add: node_at_move_tree_elsewhere)
  qed
qed

end
