(* ===== verification/SafePath.thy ===== *)
theory SafePath
  imports FileSys
begin

text \<open>
  \<open>path.go\<close>: how a path sent by a client is turned into a path of the storage root
  (\<open>resolveUnderRoot\<close>, \<open>safePath\<close>), with the cached real root, the lexical containment test
  \<open>withinRoot\<close> and the hidden-segment test \<open>rejectHiddenUnderRoot\<close>. The main results: a
  path it returns lies below the root, has no segment starting with a dot, and is settled
  (no later call follows a link at it); and every visible, link-free path is accepted as it is.
\<close>

text \<open>
  The package variables the functions read: the working directory, \<open>rootDir\<close>, and the pair
  \<open>pathRootAbs\<close>, \<open>pathRootReal\<close> (\<open>None\<close> before \<open>configureStorageRoot\<close> has run).
\<close>

record path_env =
  pe_cwd :: "apath option"
  rootDir :: string
  pathRoot :: "(apath \<times> apath) option"

definition configureStorageRoot :: "fs \<Rightarrow> path_env \<Rightarrow> string \<Rightarrow> path_env result" where
  "configureStorageRoot f env dir =
     (case path_Abs (pe_cwd env) dir of
        None \<Rightarrow> Inl ''resolve storage root''
      | Some absp \<Rightarrow>
          (case EvalSymlinks f absp of
             Inl _ \<Rightarrow> Inl ''resolve storage root''
           | Inr realp \<Rightarrow> Inr (env\<lparr>pathRoot := Some (absp, realp)\<rparr>)))"

definition cachedRealRoot :: "path_env \<Rightarrow> string \<Rightarrow> apath option" where
  "cachedRealRoot env storageDir =
     (case path_Abs (pe_cwd env) storageDir of
        None \<Rightarrow> None
      | Some absp \<Rightarrow>
          (case pathRoot env of
             None \<Rightarrow> None
           | Some (rabs, rreal) \<Rightarrow> (if absp = rabs then Some rreal else None)))"

definition withinRoot :: "apath \<Rightarrow> apath \<Rightarrow> bool" where
  "withinRoot root target =
     (let rel = path_Rel root target in
      if rel = ''.'' then True
      else if rel = ''..'' \<or> HasPrefix rel ''../'' then False
      else True)"

text \<open>The loop over the segments that both checks share; \<open>None\<close>: nothing to object to.\<close>

fun scan_segments :: "string list \<Rightarrow> error option" where
  "scan_segments [] = None"
| "scan_segments (part # ps) =
     (if part = [] \<or> part = ''.'' then scan_segments ps
      else if part = ''..'' then Some ''path traversal detected''
      else if HasPrefix part ''.'' then Some ''hidden path denied''
      else scan_segments ps)"

definition rejectHiddenUnderRoot :: "apath \<Rightarrow> apath \<Rightarrow> error option" where
  "rejectHiddenUnderRoot root absp =
     (let rel = path_Rel root absp in
      if rel = ''.'' then None
      else if rel = ''..'' \<or> HasPrefix rel ''../'' then Some ''path traversal detected''
      else scan_segments (split_on slash rel))"

text \<open>The loop of \<open>resolveUnderRoot\<close> that follows the segments on disk.\<close>

fun resolve_parts :: "fs \<Rightarrow> apath \<Rightarrow> apath \<Rightarrow> string list \<Rightarrow> apath result" where
  "resolve_parts f realRoot current [] =
     (case rejectHiddenUnderRoot realRoot current of
        Some e \<Rightarrow> Inl e
      | None \<Rightarrow> Inr current)"
| "resolve_parts f realRoot current (part # parts) =
     (if part = [] \<or> part = ''.'' then resolve_parts f realRoot current parts
      else
        let absNext = join_abs current part in
        if \<not> withinRoot realRoot absNext then Inl ''path traversal detected''
        else
          case os_Lstat f absNext of
            Inl err \<Rightarrow>
              (if err \<noteq> ENOENT then Inl ''invalid path''
               else
                 let absCandidate = foldl join_abs current (part # parts) in
                 if \<not> withinRoot realRoot absCandidate then Inl ''path traversal detected''
                 else (case rejectHiddenUnderRoot realRoot absCandidate of
                         Some e \<Rightarrow> Inl e
                       | None \<Rightarrow> Inr absCandidate))
          | Inr (FLink t) \<Rightarrow>
              (case EvalSymlinks f absNext of
                 Inl _ \<Rightarrow> Inl ''invalid path''
               | Inr resolved \<Rightarrow>
                   (if \<not> withinRoot realRoot resolved then Inl ''path traversal detected''
                    else (case rejectHiddenUnderRoot realRoot resolved of
                            Some e \<Rightarrow> Inl e
                          | None \<Rightarrow> resolve_parts f realRoot resolved parts)))
          | Inr _ \<Rightarrow> resolve_parts f realRoot absNext parts)"

definition resolveUnderRoot :: "fs \<Rightarrow> path_env \<Rightarrow> string \<Rightarrow> string \<Rightarrow> apath result" where
  "resolveUnderRoot f env storageDir requestedPath =
     (if nul \<in> set requestedPath then Inl ''invalid path''
      else case path_Abs (pe_cwd env) storageDir of
        None \<Rightarrow> Inl ''invalid path''
      | Some absRoot \<Rightarrow>
          (case (case cachedRealRoot env storageDir of
                   Some r \<Rightarrow> Inr r
                 | None \<Rightarrow> EvalSymlinks f absRoot) of
             Inl _ \<Rightarrow> Inl ''invalid path''
           | Inr realRoot \<Rightarrow>
               (let cleaned0 = path_Clean (slash # ReplaceByte requestedPath backslash ''/'');
                    cleaned1 = TrimPrefix cleaned0 ''/'';
                    cleaned = (if cleaned1 = ''.'' then [] else cleaned1)
                in if cleaned = [] then Inr realRoot
                   else let parts = split_on slash cleaned in
                     case scan_segments parts of
                       Some e \<Rightarrow> Inl e
                     | None \<Rightarrow> resolve_parts f realRoot realRoot parts)))"

definition safePath :: "fs \<Rightarrow> path_env \<Rightarrow> string \<Rightarrow> apath result" where
  "safePath f env rel = resolveUnderRoot f env (rootDir env) rel"

definition assertUserContentPath :: "fs \<Rightarrow> path_env \<Rightarrow> string \<Rightarrow> apath result" where
  "assertUserContentPath f env rel = safePath f env rel"

subsection \<open>The checks, on components\<close>

definition visible :: "string \<Rightarrow> bool" where
  "visible c \<longleftrightarrow> ordinary c \<and> \<not> HasPrefix c ''.''"

definition visible_path :: "apath \<Rightarrow> bool" where
  "visible_path p \<longleftrightarrow> list_all visible p"

text \<open>The components a request names once it is cleaned as an absolute path.\<close>

definition request_comps :: "string \<Rightarrow> apath" where
  "request_comps rel = apath_of (slash # ReplaceByte rel backslash ''/'')"

lemma visible_ordinary: "visible c \<Longrightarrow> ordinary c"
  by (simp add: visible_def)

lemma visible_path_ordinary: "visible_path p \<Longrightarrow> ordinary_path p"
  by (auto simp: visible_path_def ordinary_path_def list_all_iff visible_def)

lemma visible_path_simps [simp]:
  "visible_path []"
  "visible_path (c # p) \<longleftrightarrow> visible c \<and> visible_path p"
  "visible_path (p @ q) \<longleftrightarrow> visible_path p \<and> visible_path q"
  by (auto simp: visible_path_def)

lemma withinRoot_iff [path_simps]:
  "ordinary_path target \<Longrightarrow> withinRoot root target \<longleftrightarrow> prefix root target"
  using path_Rel_escapes_iff [of target root] path_Rel_dot_iff [of target root]
  by (auto simp: withinRoot_def rel_escapes_def Let_def)

lemma scan_segments_ordinary:
  "ordinary_path ps \<Longrightarrow> scan_segments ps = None \<longleftrightarrow> visible_path ps"
  by (induction ps) (auto simp: visible_def ordinary_def)

lemma rejectHidden_iff [path_simps]:
  assumes "ordinary_path absp"
  shows "rejectHiddenUnderRoot root absp = None \<longleftrightarrow> (\<exists>q. absp = root @ q \<and> visible_path q)"
proof (cases "prefix root absp")
  case True
  then obtain q where q: "absp = root @ q" by (auto simp: prefix_def)
  with assms have o: "ordinary_path q" by simp
  show ?thesis
  proof (cases "q = []")
    case True
    with q assms show ?thesis using path_Rel_dot_iff [OF assms, of root]
      by (simp add: rejectHiddenUnderRoot_def)
  next
    case False
    have "path_Rel root absp \<noteq> ''.''" "\<not> rel_escapes (path_Rel root absp)"
      using False q assms path_Rel_dot_iff path_Rel_escapes_iff by auto
    moreover have "split_on slash (path_Rel root absp) = q"
      using path_Rel_split [OF o False] q by simp
    ultimately have "rejectHiddenUnderRoot root absp = scan_segments q"
      by (simp add: rejectHiddenUnderRoot_def rel_escapes_def Let_def)
    with scan_segments_ordinary [OF o] q show ?thesis by simp
  qed
next
  case False
  then have "rel_escapes (path_Rel root absp)" "path_Rel root absp \<noteq> ''.''"
    using path_Rel_escapes_iff [OF assms] path_Rel_dot_iff [OF assms] by auto
  with False show ?thesis
    by (auto simp: rejectHiddenUnderRoot_def rel_escapes_def Let_def)
qed

text \<open>
  What \<open>resolveUnderRoot\<close> does after its first checks, over the cleaned components.
\<close>

lemma resolveUnderRoot_eq:
  assumes "nul \<notin> set rel" and "path_Abs (pe_cwd env) dir = Some absRoot"
    and "(case cachedRealRoot env dir of Some r \<Rightarrow> Inr r | None \<Rightarrow> EvalSymlinks f absRoot) = Inr root"
  shows "resolveUnderRoot f env dir rel =
    (let cs = request_comps rel in
     if cs = [] then Inr root
     else case scan_segments cs of Some e \<Rightarrow> Inl e | None \<Rightarrow> resolve_parts f root root cs)"
proof -
  let ?cs = "request_comps rel"
  have o: "ordinary_path ?cs" by (simp add: request_comps_def apath_of_ordinary)
  have t: "TrimPrefix (path_Clean (slash # ReplaceByte rel backslash ''/'')) ''/'' = join_with ''/'' ?cs"
    by (simp add: path_Clean_rooted request_comps_def apath_str_def TrimPrefix_def)
  show ?thesis
  proof (cases ?cs)
    case Nil
    with t assms show ?thesis by (simp add: resolveUnderRoot_def Let_def)
  next
    case (Cons c cs)
    with o have c: "ordinary c" by simp
    have ne: "?cs \<noteq> []" using Cons by simp
    have "\<forall>p\<in>set ?cs. slash \<notin> set p"
      using o by (auto simp: ordinary_path_def list_all_iff ordinary_def)
    with ne have sp: "split_on slash (join_with ''/'' ?cs) = ?cs" by (rule split_join_with)
    moreover have "join_with ''/'' ?cs \<noteq> ''.''" using c Cons join_not_dotdot by simp
    moreover have "join_with ''/'' ?cs \<noteq> []" using sp c Cons by (auto simp: ordinary_def)
    moreover have "?cs \<noteq> []" using Cons by simp
    ultimately show ?thesis
      by (simp only: resolveUnderRoot_def Let_def t assms option.case sum.case if_False not_False_eq_True)
  qed
qed

text \<open>\<open>storageRealRoot\<close> of \<open>bulk.go\<close>: the same root, for the ZIP walk.\<close>

definition storageRealRoot :: "fs \<Rightarrow> path_env \<Rightarrow> apath result" where
  "storageRealRoot f env =
     (case cachedRealRoot env (rootDir env) of
        Some r \<Rightarrow> Inr r
      | None \<Rightarrow>
          (case path_Abs (pe_cwd env) (rootDir env) of
             None \<Rightarrow> Inl ''abs''
           | Some absRoot \<Rightarrow>
               (case EvalSymlinks f absRoot of Inl _ \<Rightarrow> Inl ''evalsymlinks'' | Inr r \<Rightarrow> Inr r)))"

lemma safePath_eq:
  assumes "storageRealRoot f env = Inr root" and "nul \<notin> set rel"
  shows "safePath f env rel =
    (let cs = request_comps rel in
     if cs = [] then Inr root
     else case scan_segments cs of Some e \<Rightarrow> Inl e | None \<Rightarrow> resolve_parts f root root cs)"
proof -
  obtain absRoot where a: "path_Abs (pe_cwd env) (rootDir env) = Some absRoot"
    using assms(1) by (auto simp: storageRealRoot_def cachedRealRoot_def split: option.splits)
  moreover have "(case cachedRealRoot env (rootDir env) of Some r \<Rightarrow> Inr r
                  | None \<Rightarrow> EvalSymlinks f absRoot) = Inr root"
    using assms(1) a by (auto simp: storageRealRoot_def split: option.splits sum.splits)
  ultimately show ?thesis using assms(2) unfolding safePath_def by (rule resolveUnderRoot_eq [rotated])
qed

lemma request_comps_ordinary: "ordinary_path (request_comps rel)"
  by (simp add: request_comps_def apath_of_ordinary)

lemma storageRealRoot_real:
  assumes "storageRealRoot f env = Inr root" and "pathRoot env = None"
    and "\<forall>c. pe_cwd env = Some c \<longrightarrow> ordinary_path c"
  shows "real_entry f root"
proof -
  obtain absRoot where "path_Abs (pe_cwd env) (rootDir env) = Some absRoot"
    "EvalSymlinks f absRoot = Inr root"
    using assms by (auto simp: storageRealRoot_def cachedRealRoot_def split: option.splits sum.splits)
  moreover from this(1) assms(3) have "ordinary_path absRoot"
    by (auto simp: path_Abs_def apath_of_ordinary join_abs_ordinary split: if_splits)
  ultimately show ?thesis by (metis EvalSymlinks_real)
qed

subsection \<open>Soundness of the walk over the segments\<close>

text \<open>
  Where a result lies: an existing real entry, or a free place below a real directory. Either way no
  link is on it.
\<close>

definition placed :: "fs \<Rightarrow> apath \<Rightarrow> bool" where
  "placed f p \<longleftrightarrow> real_entry f p \<or>
     (\<exists>d c r. p = d @ c # r \<and> real_dir f d \<and> ordinary_path (c # r) \<and> lookup_entry f (d @ [c]) = Inl ENOENT)"

lemma placed_ordinary: "placed f p \<Longrightarrow> ordinary_path p"
  by (auto simp: placed_def dest: real_entry_ordinary real_dir_ordinary)

lemma placed_settled: "placed f p \<Longrightarrow> settled f p"
  by (auto simp: placed_def real_entry_settled intro!: settled_below_missing)

lemma resolve_parts_sound:
  assumes "real_entry f cur" and "visible_path parts" and "resolve_parts f root cur parts = Inr p"
  shows "\<exists>q. p = root @ q \<and> visible_path q \<and> placed f p"
  using assms
proof (induction parts arbitrary: cur)
  case Nil
  then show ?case
    by (auto simp: rejectHidden_iff real_entry_ordinary placed_def split: option.splits)
next
  case (Cons part parts)
  have v: "visible part" "ordinary part" and vs: "visible_path parts"
    using Cons.prems(2) by (auto simp: visible_def)
  have skip: "\<not> (part = [] \<or> part = ''.'')" using v by (auto simp: ordinary_def)
  let ?next = "cur @ [part]"
  have j: "join_abs cur part = ?next" using v by (simp add: join_abs_ordinary_name)
  have oc: "ordinary_path ?next" using Cons.prems(1) v by (simp add: real_entry_ordinary)
  have dir: "real_dir f cur \<or> os_Lstat f ?next = Inl ENOTDIR"
    using Cons.prems(1) by (rule real_entry_Lstat_below)
  show ?case
  proof (cases "os_Lstat f ?next")
    case (Inl err)
    have ps: "filter ordinary (part # parts) = part # parts"
      using v vs by (auto simp: visible_path_def list_all_iff visible_def intro!: filter_True)
    have "\<forall>c\<in>set (part # parts). c = [] \<or> c = ''.'' \<or> ordinary c"
      using v vs by (auto simp: visible_path_def list_all_iff visible_def)
    then have cand: "foldl join_abs cur (part # parts) = cur @ part # parts"
      using foldl_join_abs_ordinary [of "part # parts" cur] ps by simp
    have op: "ordinary_path (cur @ part # parts)"
      using oc vs by (simp add: visible_path_ordinary)
    from Cons.prems(3) Inl skip j cand have "err = ENOENT" and p: "p = cur @ part # parts"
      and "rejectHiddenUnderRoot root p = None"
      by (auto simp: Let_def split: if_splits option.splits simp del: foldl.simps)
    with dir Inl have rd: "real_dir f cur" by auto
    with Inl have "lookup_entry f ?next = Inl err" by (simp add: os_Lstat_real)
    with rd v vs p \<open>err = ENOENT\<close> have "placed f p"
      unfolding placed_def by (metis ordinary_path_simps(2) visible_path_ordinary)
    with \<open>rejectHiddenUnderRoot root p = None\<close> op p show ?thesis by (simp add: rejectHidden_iff)
  next
    case (Inr n)
    with dir have rd: "real_dir f cur" by auto
    with Inr have look: "lookup_entry f ?next = Inr n" by (simp add: os_Lstat_real)
    show ?thesis
    proof (cases n)
      case (FLink t)
      with Cons.prems(3) Inr skip j obtain r where r: "EvalSymlinks f ?next = Inr r"
        "resolve_parts f root r parts = Inr p"
        by (auto simp: Let_def split: if_splits sum.splits option.splits)
      with Cons.IH vs EvalSymlinks_real [OF oc] show ?thesis by blast
    next
      case FDir
      with rd v look have "real_entry f ?next" by (simp add: real_dir_snoc real_entry_dirI)
      moreover have "resolve_parts f root ?next parts = Inr p"
        using Cons.prems(3) Inr skip j FDir by (auto simp: Let_def split: if_splits)
      ultimately show ?thesis using Cons.IH vs by blast
    next
      case (FFile s)
      with rd v look have "real_entry f ?next" by (auto simp: real_entry_def)
      moreover have "resolve_parts f root ?next parts = Inr p"
        using Cons.prems(3) Inr skip j FFile by (auto simp: Let_def split: if_splits)
      ultimately show ?thesis using Cons.IH vs by blast
    qed
  qed
qed

subsection \<open>Completeness on link-free paths\<close>

lemma rejectHidden_visible: "ordinary_path root \<Longrightarrow> visible_path q \<Longrightarrow> rejectHiddenUnderRoot root (root @ q) = None"
  by (subst rejectHidden_iff) (auto simp: visible_path_ordinary)

lemma resolve_parts_complete:
  assumes "ordinary_path root" and "visible_path pre" and "visible_path parts"
    and "real_dir f (root @ pre)"
    and "real_entry f (root @ pre @ parts) \<or>
         (\<exists>ds c r. parts = ds @ c # r \<and> real_dir f (root @ pre @ ds) \<and>
                   lookup_entry f (root @ pre @ ds @ [c]) = Inl ENOENT)"
  shows "resolve_parts f root (root @ pre) parts = Inr (root @ pre @ parts)"
  using assms
proof (induction parts arbitrary: pre)
  case Nil
  then show ?case by (simp add: rejectHidden_visible)
next
  case (Cons part parts)
  have v: "visible part" "ordinary part" and vs: "visible_path parts"
    using Cons.prems(3) by (auto simp: visible_def)
  have skip: "\<not> (part = [] \<or> part = ''.'')" using v by (auto simp: ordinary_def)
  let ?cur = "root @ pre" and ?next = "root @ pre @ [part]"
  have j: "join_abs ?cur part = ?next" using v by (simp add: join_abs_ordinary_name)
  have w: "withinRoot root ?next"
    using Cons.prems v by (simp add: withinRoot_iff visible_path_ordinary)
  have ls: "os_Lstat f ?next = lookup_entry f ?next"
    using os_Lstat_real [OF Cons.prems(4), of part] by simp
  have all: "visible_path (pre @ part # parts)" using Cons.prems by simp
  show ?case
  proof (cases "lookup_entry f ?next = Inl ENOENT")
    case True
    have "foldl join_abs ?cur (part # parts) = ?cur @ part # parts"
    proof -
      have "filter ordinary (part # parts) = part # parts"
        using v vs by (auto simp: visible_path_def list_all_iff visible_def intro!: filter_True)
      moreover have "\<forall>c\<in>set (part # parts). c = [] \<or> c = ''.'' \<or> ordinary c"
        using v vs by (auto simp: visible_path_def list_all_iff visible_def)
      ultimately show ?thesis by (metis foldl_join_abs_ordinary)
    qed
    moreover have "rejectHiddenUnderRoot root (root @ pre @ part # parts) = None"
      using rejectHidden_visible [OF Cons.prems(1) all] by simp
    moreover have "withinRoot root (root @ pre @ part # parts)"
      using Cons.prems(1) visible_path_ordinary [OF all] by (simp add: withinRoot_iff)
    ultimately show ?thesis using True skip j w ls by (simp add: Let_def del: foldl.simps)
  next
    case False
    have entry: "(parts = [] \<and> real_entry f ?next) \<or> real_dir f ?next"
    proof -
      consider (ex) "real_entry f (root @ pre @ part # parts)"
        | (new) ds c r where "part # parts = ds @ c # r" "real_dir f (root @ pre @ ds)"
            "lookup_entry f (root @ pre @ ds @ [c]) = Inl ENOENT"
        using Cons.prems(5) by blast
      then show ?thesis
      proof cases
        case ex
        then show ?thesis
        proof (cases parts rule: rev_cases)
          case (snoc ys y)
          with ex have "real_dir f (?next @ ys) \<or> real_dir f ((?next @ ys) @ [y])"
            by (auto simp: real_entry_def)
          then show ?thesis by (metis append.assoc real_dir_prefix)
        qed auto
      next
        case new
        then show ?thesis
        proof (cases ds)
          case Nil
          with new False show ?thesis by simp
        next
          case (Cons d ds')
          with new have "real_dir f (?next @ ds')" by simp
          then show ?thesis by (metis real_dir_prefix)
        qed
      qed
    qed
    have not_link: "(\<exists>s. lookup_entry f ?next = Inr (FFile s)) \<or> lookup_entry f ?next = Inr FDir"
    proof -
      have "real_entry f ((root @ pre) @ [part])"
        using entry real_entry_dirI by auto
      then show ?thesis using real_dir_snoc [of f "root @ pre" part] by (auto simp: real_entry_def)
    qed
    have step: "resolve_parts f root ?cur (part # parts) = resolve_parts f root ?next parts"
      using not_link skip j w ls by (auto simp: Let_def)
    show ?thesis
    proof (cases "real_dir f ?next")
      case True
      have more: "real_entry f (root @ (pre @ [part]) @ parts) \<or>
         (\<exists>ds c r. parts = ds @ c # r \<and> real_dir f (root @ (pre @ [part]) @ ds) \<and>
                   lookup_entry f (root @ (pre @ [part]) @ ds @ [c]) = Inl ENOENT)"
        using Cons.prems(5)
      proof (elim disjE exE conjE)
        fix ds c r
        assume new: "part # parts = ds @ c # r" "real_dir f (root @ pre @ ds)"
          "lookup_entry f (root @ pre @ ds @ [c]) = Inl ENOENT"
        with False obtain ds' where "ds = part # ds'" by (cases ds) auto
        with new have "parts = ds' @ c # r \<and> real_dir f (root @ (pre @ [part]) @ ds') \<and>
          lookup_entry f (root @ (pre @ [part]) @ ds' @ [c]) = Inl ENOENT" by simp
        then show ?thesis by blast
      qed simp
      have "resolve_parts f root (root @ (pre @ [part])) parts = Inr (root @ (pre @ [part]) @ parts)"
        by (rule Cons.IH) (use Cons.prems True v more in auto)
      with step show ?thesis by simp
    next
      case False
      with entry have "parts = []" by simp
      moreover have "rejectHiddenUnderRoot root ?next = None"
        using rejectHidden_visible [OF Cons.prems(1), of "pre @ [part]"] Cons.prems(2) v by simp
      ultimately show ?thesis using step by simp
    qed
  qed
qed


subsection \<open>The guarantees of safePath\<close>

text \<open>
  A small storage for the witnesses: root \<open>/s\<close> with \<open>docs/a.txt\<close>, the metadata directory,
  and three links: \<open>evil\<close> to the metadata, \<open>out\<close> to a directory outside, \<open>ok\<close> to \<open>docs\<close>.
\<close>

definition demo_fs :: fs where
  "demo_fs = \<lparr>nodes =
     [([''s''], FDir), ([''etc''], FDir), ([''s'', ''docs''], FDir),
      ([''s'', ''docs'', ''a.txt''], FFile ''hello''),
      ([''s'', ''.dingbap''], FDir), ([''s'', ''.dingbap'', ''users.json''], FFile ''secret''),
      ([''s'', ''evil''], FLink ''.dingbap''), ([''s'', ''out''], FLink ''/etc''),
      ([''s'', ''ok''], FLink ''docs'')],
     rfail = (\<lambda>_. False), wfail = (\<lambda>_. False)\<rparr>"

definition demo_env :: path_env where
  "demo_env = \<lparr>pe_cwd = Some [], rootDir = ''/s'', pathRoot = Some ([''s''], [''s''])\<rparr>"

lemma demo_root: "storageRealRoot demo_fs demo_env = Inr [''s'']"
  by code_simp

lemma demo_root_real: "real_dir demo_fs [''s'']"
  by code_simp

lemma safePath_inside:
  assumes "storageRealRoot f env = Inr root" and "real_dir f root"
    and "safePath f env rel = Inr p"
  shows "\<exists>q. p = root @ q \<and> visible_path q \<and> placed f p"
proof -
  have "nul \<notin> set rel"
    using assms(3) by (auto simp: safePath_def resolveUnderRoot_def)
  note eq = safePath_eq [OF assms(1) this]
  show ?thesis
  proof (cases "request_comps rel = []")
    case True
    with eq assms show ?thesis by (auto simp: placed_def real_entry_dirI)
  next
    case False
    with eq assms(3) have "scan_segments (request_comps rel) = None"
      and "resolve_parts f root root (request_comps rel) = Inr p"
      by (auto simp: Let_def split: option.splits)
    with resolve_parts_sound [OF real_entry_dirI [OF assms(2)]] request_comps_ordinary
    show ?thesis by (auto simp: scan_segments_ordinary)
  qed
qed

lemma safePath_ordinary:
  assumes "storageRealRoot f env = Inr root" "real_dir f root" "safePath f env rel = Inr p"
  shows "ordinary_path p"
  using safePath_inside [OF assms] assms(2) visible_path_ordinary real_dir_ordinary by auto

text \<open>
  C4: Whatever path a client sends, when \<open>safePath\<close> accepts it the result lies under the
  storage root, no segment below the root is hidden (starts with a dot), and the path is
  settled: resolving it again, with any number of links allowed, yields the path itself or an
  error, so no later system call on it can be led elsewhere by a symbolic link.
\<close>

theorem safePath_confined:
  assumes "storageRealRoot f env = Inr root" and "real_dir f root"
    and "safePath f env rel = Inr p"
  shows "\<exists>q. p = root @ q \<and> visible_path q \<and> settled f p"
  using safePath_inside [OF assms] placed_settled by blast

theorem safePath_confined_witness:
  "\<exists>q. [''s'', ''docs'', ''a.txt''] = [''s''] @ q \<and> visible_path q \<and>
       settled demo_fs [''s'', ''docs'', ''a.txt'']"
proof (rule safePath_confined [OF demo_root demo_root_real])
  show "safePath demo_fs demo_env ''ok//a.txt'' = Inr [''s'', ''docs'', ''a.txt'']" by code_simp
qed

text \<open>
  \<open>safePath\<close> refuses every request that, once cleaned, names a segment starting with a
  dot, with the error the code gives for it; the lexical check needs no look at the disk.
\<close>

theorem safePath_hidden_denied:
  assumes "storageRealRoot f env = Inr root" and "nul \<notin> set rel"
    and "c \<in> set (request_comps rel)" and "HasPrefix c ''.''"
  shows "safePath f env rel = Inl ''hidden path denied''"
proof -
  have o: "ordinary_path (request_comps rel)" by (rule request_comps_ordinary)
  have "scan_segments cs = Some ''hidden path denied''"
    if "c \<in> set cs" "ordinary_path cs" for cs
    using that assms(4) by (induction cs) (auto simp: ordinary_def)
  with assms(3) o have "scan_segments (request_comps rel) = Some ''hidden path denied''" by blast
  with safePath_eq [OF assms(1,2)] assms(3) show ?thesis by (auto simp: Let_def)
qed

theorem safePath_hidden_denied_witness:
  "safePath demo_fs demo_env ''docs/../.dingbap/users.json'' = Inl ''hidden path denied''"
  by (rule safePath_hidden_denied [OF demo_root, where c = "''.dingbap''"]; code_simp)

lemma safePath_exact:
  assumes "storageRealRoot f env = Inr root" and "real_dir f root" and "nul \<notin> set rel"
    and "visible_path (request_comps rel)"
    and "real_entry f (root @ request_comps rel) \<or>
         (\<exists>ds c r. request_comps rel = ds @ c # r \<and> real_dir f (root @ ds) \<and>
                   lookup_entry f (root @ ds @ [c]) = Inl ENOENT)"
  shows "safePath f env rel = Inr (root @ request_comps rel)"
proof (cases "request_comps rel = []")
  case True
  with safePath_eq [OF assms(1,3)] show ?thesis by simp
next
  case False
  have "scan_segments (request_comps rel) = None"
    using assms(4) request_comps_ordinary by (simp add: scan_segments_ordinary)
  moreover have "resolve_parts f root (root @ []) (request_comps rel) = Inr (root @ [] @ request_comps rel)"
    by (rule resolve_parts_complete) (use assms real_dir_ordinary in auto)
  ultimately show ?thesis using False safePath_eq [OF assms(1,3)] by simp
qed

text \<open>
  \<open>safePath\<close> accepts every request whose cleaned segments are visible and reach, without
  a symbolic link, an existing file or directory or a free name in an existing directory, and
  returns exactly that path (so hardening does not refuse ordinary requests).
\<close>

theorem safePath_accepts:
  assumes "storageRealRoot f env = Inr root" and "real_dir f root" and "nul \<notin> set rel"
    and "visible_path (request_comps rel)"
    and "real_entry f (root @ request_comps rel) \<or>
         (\<exists>ds c r. request_comps rel = ds @ c # r \<and> real_dir f (root @ ds) \<and>
                   lookup_entry f (root @ ds @ [c]) = Inl ENOENT)"
  shows "safePath f env rel = Inr (root @ request_comps rel)"
  using assms by (rule safePath_exact)

theorem safePath_accepts_witness:
  "safePath demo_fs demo_env ''/docs/./new/x'' = Inr ([''s''] @ request_comps ''/docs/./new/x'')"
proof (rule safePath_accepts [OF demo_root demo_root_real])
  have r: "request_comps ''/docs/./new/x'' = [''docs''] @ ''new'' # [''x'']" by code_simp
  have "real_dir demo_fs ([''s''] @ [''docs''])" by code_simp
  moreover have "lookup_entry demo_fs ([''s''] @ [''docs''] @ [''new'']) = Inl ENOENT" by code_simp
  ultimately show "real_entry demo_fs ([''s''] @ request_comps ''/docs/./new/x'') \<or>
     (\<exists>ds c r. request_comps ''/docs/./new/x'' = ds @ c # r \<and> real_dir demo_fs ([''s''] @ ds) \<and>
               lookup_entry demo_fs ([''s''] @ ds @ [c]) = Inl ENOENT)"
    unfolding r by blast
qed code_simp+

end
