(* ===== verification/Names.thy ===== *)
theory Names
  imports SafePath
begin

text \<open>
  The small functions on relative paths and file names that the handlers share: \<open>pathJoin\<close>,
  \<open>pathDir\<close> and \<open>sanitizeName\<close> (\<open>handlers.go\<close>), \<open>isTrashPath\<close> (\<open>trash.go\<close>),
  \<open>copyNameCandidate\<close> and \<open>uniqueCopyName\<close> (\<open>copy.go\<close>), \<open>uniqueNonEmptyPaths\<close>
  (\<open>bulk.go\<close>). The main results: a sanitized name is one visible segment; the copy names
  tried are pairwise different, so a free one is found in any directory of fewer than 10000
  entries.
\<close>

definition pathJoin :: "string list \<Rightarrow> string" where
  "pathJoin parts =
     join_with ''/'' (filter (\<lambda>p. p \<noteq> [] \<and> p \<noteq> ''.'') (map (\<lambda>p. Trim p ''/'') parts))"

definition pathDir :: "string \<Rightarrow> string" where
  "pathDir p0 =
     (let p = Trim p0 ''/'' in
      if p = [] then []
      else case last_index slash p of None \<Rightarrow> [] | Some i \<Rightarrow> take i p)"

definition sanitizeName :: "string \<Rightarrow> string" where
  "sanitizeName name0 =
     (let name1 = path_Base name0;
          name2 = ReplaceByte name1 backslash [];
          name3 = ReplaceByte name2 slash [];
          name = TrimLeft name3 ''.''
      in if name = [] \<or> name = ''.'' \<or> name = ''..'' then [] else name)"

definition trashDirName :: string where "trashDirName = ''.trash''"

definition isTrashPath :: "string \<Rightarrow> bool" where
  "isTrashPath rel0 =
     (let rel = Trim rel0 ''/'' in rel = trashDirName \<or> HasPrefix rel (trashDirName @ ''/''))"

definition copyNameCandidate :: "string \<Rightarrow> nat \<Rightarrow> string" where
  "copyNameCandidate name n =
     (if n = 0 then name
      else let ext = path_Ext name; base = TrimSuffix name ext
           in if n = 1 then base @ '' copy'' @ ext
              else base @ '' copy '' @ itoa n @ ext)"

text \<open>
  The loop \<open>for n := 0; n < 10000; n++\<close> of \<open>uniqueCopyName\<close>, from \<open>n\<close> with \<open>k\<close> rounds
  left; the last resort puts the clock in the name.
\<close>

fun copy_name_loop :: "fs \<Rightarrow> apath \<Rightarrow> string \<Rightarrow> nat \<Rightarrow> nat \<Rightarrow> string option" where
  "copy_name_loop f dir name n 0 = None"
| "copy_name_loop f dir name n (Suc k) =
     (let cand = copyNameCandidate name n in
      if os_Stat f (join_abs dir cand) = Inl ENOENT then Some cand
      else copy_name_loop f dir name (Suc n) k)"

definition uniqueCopyName :: "fs \<Rightarrow> gotime \<Rightarrow> apath \<Rightarrow> string \<Rightarrow> string" where
  "uniqueCopyName f now dir name =
     (case copy_name_loop f dir name 0 10000 of
        Some cand \<Rightarrow> cand
      | None \<Rightarrow> name @ '' copy '' @ itoa_int now)"

text \<open>The loop of \<open>uniqueNonEmptyPaths\<close>, with the set of paths seen and the result so far.\<close>

fun unique_paths_loop :: "string list \<Rightarrow> string set \<Rightarrow> string list" where
  "unique_paths_loop [] seen = []"
| "unique_paths_loop (p0 # ps) seen =
     (let p = Trim (ReplaceByte p0 backslash ''/'') ''/'' in
      if p = [] then unique_paths_loop ps seen
      else if p \<in> seen then unique_paths_loop ps seen
      else p # unique_paths_loop ps (insert p seen))"

definition uniqueNonEmptyPaths :: "string list \<Rightarrow> string list" where
  "uniqueNonEmptyPaths ps = unique_paths_loop ps {}"

subsection \<open>Sanitized names\<close>

lemma sanitizeName_visible:
  assumes "sanitizeName name \<noteq> []"
  shows "visible (sanitizeName name)"
proof -
  let ?n3 = "ReplaceByte (ReplaceByte (path_Base name) backslash []) slash []"
  let ?n = "TrimLeft ?n3 ''.''"
  have n: "sanitizeName name = ?n" "?n \<noteq> []" "?n \<noteq> ''.''" "?n \<noteq> ''..''"
    using assms by (auto simp: sanitizeName_def Let_def split: if_splits)
  have "slash \<notin> set ?n"
    using ReplaceByte_no [of slash "[]"] by (auto simp: TrimLeft_def dest: set_dropWhileD)
  moreover have "hd ?n \<noteq> dot"
    using n(2) hd_dropWhile [of "\<lambda>c. c \<in> set ''.''" ?n3] by (simp add: TrimLeft_def)
  ultimately show ?thesis using n by (cases ?n) (auto simp: visible_def ordinary_def)
qed

lemma sanitizeName_no_backslash: "backslash \<notin> set (sanitizeName name)"
proof -
  have "backslash \<notin> set (ReplaceByte (ReplaceByte (path_Base name) backslash []) slash [])"
    using ReplaceByte_no [of backslash "[]" "path_Base name"]
    by (auto simp: ReplaceByte_def split: if_splits)
  then show ?thesis by (auto simp: sanitizeName_def Let_def TrimLeft_def dest: set_dropWhileD)
qed

lemma path_Base_ordinary: "c \<noteq> [] \<Longrightarrow> slash \<notin> set c \<Longrightarrow> path_Base c = c"
proof -
  assume c: "c \<noteq> []" "slash \<notin> set c"
  then have "last c \<noteq> slash" using last_in_set [of c] by metis
  then have "hd (rev c) \<noteq> slash" by (simp add: hd_rev)
  with c have "TrimRight c ''/'' = c" by (cases "rev c") (auto simp: TrimRight_def)
  with c show ?thesis by (simp add: path_Base_def split_on_fresh)
qed

lemma sanitizeName_id:
  assumes "visible c" "backslash \<notin> set c"
  shows "sanitizeName c = c"
proof -
  have c: "c \<noteq> []" "slash \<notin> set c" "hd c \<noteq> dot"
    using assms by (auto simp: visible_def ordinary_def neq_Nil_conv)
  then have "path_Base c = c" by (simp add: path_Base_ordinary)
  moreover have "TrimLeft c ''.'' = c" using c by (cases c) (auto simp: TrimLeft_def)
  ultimately show ?thesis
    using c assms by (auto simp: sanitizeName_def ReplaceByte_id visible_def ordinary_def)
qed

lemma sanitizeName_idem: "sanitizeName (sanitizeName name) = sanitizeName name"
proof (cases "sanitizeName name = []")
  case True
  then show ?thesis by (simp add: sanitizeName_def path_Base_def ReplaceByte_def TrimLeft_def)
next
  case False
  then show ?thesis by (metis sanitizeName_id sanitizeName_no_backslash sanitizeName_visible)
qed

lemma join_abs_sanitized: "sanitizeName name \<noteq> [] \<Longrightarrow> join_abs p (sanitizeName name) = p @ [sanitizeName name]"
  by (simp add: join_abs_ordinary_name sanitizeName_visible visible_ordinary)

subsection \<open>Copy names\<close>

lemma path_Ext_suffix: "suffix (path_Ext name) name"
proof -
  have s: "suffix (last (split_on c s)) s \<and> (c \<in> set s \<longrightarrow> suffix (c # last (split_on c s)) s)" for c s
  proof (induction s)
    case (Cons x s)
    obtain a l where a: "split_on c s = a # l" by (cases "split_on c s") auto
    show ?case
    proof (cases "l = []")
      case True
      then have "c \<notin> set s" using a by (metis append_self_conv join_split_on join_with.simps(2)
          list.set_intros(1) split_on_no_sep)
      moreover have "a = s" using a True join_split_on [of c s] by simp
      ultimately show ?thesis using a True by (auto simp: suffix_Cons)
    next
      case False
      then have "c \<in> set s" using a by (metis list.inject split_on_fresh)
      with Cons a False show ?thesis by (auto simp: suffix_Cons)
    qed
  qed simp
  show ?thesis
    using s [of slash name] s [of dot "last (split_on slash name)"]
    by (auto simp: path_Ext_def Let_def intro: suffix_order.trans)
qed

lemma TrimSuffix_append: "suffix e s \<Longrightarrow> TrimSuffix s e @ e = s"
  by (auto simp: TrimSuffix_def suffix_def)

lemma TrimSuffix_Ext: "TrimSuffix name (path_Ext name) @ path_Ext name = name"
  by (rule TrimSuffix_append [OF path_Ext_suffix])

lemma copyNameCandidate_inject:
  "copyNameCandidate name m = copyNameCandidate name n \<longleftrightarrow> m = n"
proof
  let ?b = "TrimSuffix name (path_Ext name)" and ?e = "path_Ext name"
  define mid where "mid n = (if n = 0 then [] else if n = 1 then '' copy'' else '' copy '' @ itoa n)" for n :: nat
  have form: "copyNameCandidate name n = ?b @ mid n @ ?e" for n
    using TrimSuffix_Ext [of name] by (simp add: copyNameCandidate_def mid_def Let_def)
  assume "copyNameCandidate name m = copyNameCandidate name n"
  then have "mid m = mid n" by (simp add: form)
  then show "m = n" by (auto simp: mid_def itoa_inject split: if_splits)
qed simp

lemma copyNameCandidate_ordinary:
  assumes "ordinary name"
  shows "ordinary (copyNameCandidate name n)"
proof (cases "n = 0")
  case False
  have "slash \<notin> set (itoa n)" using itoa_digits [of slash n] by (auto simp: is_digit_def)
  moreover have "set name = set (TrimSuffix name (path_Ext name)) \<union> set (path_Ext name)"
    using TrimSuffix_Ext [of name] by (metis set_append)
  moreover have "'' copy'' = [CHR '' '', CHR ''c'', CHR ''o'', CHR ''p'', CHR ''y'']" by simp
  ultimately have sl: "slash \<notin> set (copyNameCandidate name n)"
    using assms by (auto simp: copyNameCandidate_def Let_def ordinary_def)
  have "length (copyNameCandidate name n) \<ge> 5"
    using False by (simp add: copyNameCandidate_def Let_def)
  with sl show ?thesis by (auto simp: ordinary_def)
qed (simp add: copyNameCandidate_def assms)

lemma copy_name_loop_Some:
  "copy_name_loop f dir name n k = Some c \<Longrightarrow>
   \<exists>i. n \<le> i \<and> i < n + k \<and> c = copyNameCandidate name i \<and> os_Stat f (join_abs dir c) = Inl ENOENT"
proof (induction k arbitrary: n)
  case (Suc k)
  show ?case
  proof (cases "os_Stat f (join_abs dir (copyNameCandidate name n)) = Inl ENOENT")
    case True
    with Suc.prems show ?thesis by (auto simp: Let_def intro: exI [of _ n])
  next
    case False
    with Suc.prems have "copy_name_loop f dir name (Suc n) k = Some c" by (simp add: Let_def)
    from Suc.IH [OF this] obtain i where "Suc n \<le> i" "i < Suc n + k" "c = copyNameCandidate name i"
      "os_Stat f (join_abs dir c) = Inl ENOENT" by blast
    then show ?thesis by (intro exI [of _ i]) simp
  qed
qed simp

lemma copy_name_loop_None:
  "copy_name_loop f dir name n k = None \<Longrightarrow> n \<le> i \<Longrightarrow> i < n + k \<Longrightarrow>
   os_Stat f (join_abs dir (copyNameCandidate name i)) \<noteq> Inl ENOENT"
proof (induction k arbitrary: n)
  case (Suc k)
  then show ?case by (cases "n = i") (auto simp: Let_def split: if_splits)
qed simp

lemma entry_in_children:
  assumes "real_dir f dir" "ordinary c" "\<not> rfail f (dir @ [c])"
    and "os_Stat f (dir @ [c]) \<noteq> Inl ENOENT"
  shows "c \<in> set (children f dir)"
proof -
  have "lookup_entry f (dir @ [c]) \<noteq> Inl ENOENT"
    using assms(1,2,4) by (auto simp: os_Stat_def walk_real_dir walk_ordinary)
  with assms(3) have "map_of (nodes f) (dir @ [c]) \<noteq> None"
    by (auto simp: lookup_entry_def node_at_def split: option.splits)
  then obtain n where "(dir @ [c], n) \<in> set (nodes f)" by (auto dest: map_of_SomeD)
  then show ?thesis by (force simp: children_def image_iff)
qed

text \<open>
  In a real directory with fewer than 10000 entries and no unreadable entry, the name
  \<open>uniqueCopyName\<close> picks is one of the numbered candidates and no entry of that name is
  found there: the search always succeeds and never falls back to the clock.
\<close>

theorem uniqueCopyName_free:
  assumes "real_dir f dir" and "ordinary name" and "\<forall>c. \<not> rfail f (dir @ [c])"
    and "length (children f dir) < 10000"
  shows "(\<exists>n<10000. uniqueCopyName f now dir name = copyNameCandidate name n) \<and>
         os_Stat f (dir @ [uniqueCopyName f now dir name]) = Inl ENOENT"
proof (cases "copy_name_loop f dir name 0 10000")
  case (Some c)
  from copy_name_loop_Some [OF Some] obtain i where i: "i < 10000" "c = copyNameCandidate name i"
    "os_Stat f (join_abs dir c) = Inl ENOENT" by auto
  then have "join_abs dir c = dir @ [c]"
    using assms(2) by (simp add: join_abs_ordinary_name copyNameCandidate_ordinary)
  with Some i show ?thesis by (auto simp: uniqueCopyName_def)
next
  case None
  have "copyNameCandidate name i \<in> set (children f dir)" if "i < 10000" for i
  proof (rule entry_in_children [OF assms(1) copyNameCandidate_ordinary [OF assms(2)]])
    show "\<not> rfail f (dir @ [copyNameCandidate name i])" using assms(3) by blast
    show "os_Stat f (dir @ [copyNameCandidate name i]) \<noteq> Inl ENOENT"
      using copy_name_loop_None [OF None, of i] that assms(2)
      by (simp add: join_abs_ordinary_name copyNameCandidate_ordinary)
  qed
  then have "copyNameCandidate name ` {..<10000} \<subseteq> set (children f dir)" by auto
  then have "card (copyNameCandidate name ` {..<10000}) \<le> length (children f dir)"
    by (meson List.finite_set card_length card_mono order_trans)
  moreover have "card (copyNameCandidate name ` {..<10000}) = 10000"
    by (subst card_image) (auto simp: inj_on_def copyNameCandidate_inject)
  ultimately show ?thesis using assms(4) by simp
qed

theorem uniqueCopyName_free_witness:
  "(\<exists>n<10000. uniqueCopyName demo_fs 0 [''s'', ''docs''] ''a.txt'' = copyNameCandidate ''a.txt'' n) \<and>
   os_Stat demo_fs ([''s'', ''docs''] @ [uniqueCopyName demo_fs 0 [''s'', ''docs''] ''a.txt'']) = Inl ENOENT"
proof (rule uniqueCopyName_free)
  show "real_dir demo_fs [''s'', ''docs'']" "ordinary ''a.txt''" by code_simp+
  show "\<forall>c. \<not> rfail demo_fs ([''s'', ''docs''] @ [c])" by (simp add: demo_fs_def)
  show "length (children demo_fs [''s'', ''docs'']) < 10000" by code_simp
qed

subsection \<open>Selections\<close>

lemma unique_paths_loop_props:
  "distinct (unique_paths_loop ps seen) \<and>
   set (unique_paths_loop ps seen) =
     {p. p \<noteq> [] \<and> p \<in> (\<lambda>p. Trim (ReplaceByte p backslash ''/'') ''/'') ` set ps} - seen"
  by (induction ps arbitrary: seen) (auto simp: Let_def)

text \<open>
  \<open>uniqueNonEmptyPaths\<close> returns each non-empty normalised path of the selection exactly
  once and nothing else, and applying it twice changes nothing.
\<close>

theorem uniqueNonEmptyPaths_correct:
  "distinct (uniqueNonEmptyPaths ps) \<and>
   set (uniqueNonEmptyPaths ps) =
     {p. p \<noteq> [] \<and> p \<in> (\<lambda>p. Trim (ReplaceByte p backslash ''/'') ''/'') ` set ps} \<and>
   uniqueNonEmptyPaths (uniqueNonEmptyPaths ps) = uniqueNonEmptyPaths ps"
proof -
  let ?norm = "\<lambda>p. Trim (ReplaceByte p backslash ''/'') ''/''"
  have norm: "?norm (?norm p) = ?norm p" for p
  proof -
    have "backslash \<notin> set (?norm p)"
      using ReplaceByte_no [of backslash "''/''"] set_Trim by fastforce
    then show ?thesis by (simp add: ReplaceByte_id Trim_idem)
  qed
  have fix_loop: "unique_paths_loop qs seen = qs"
    if "distinct qs" "\<forall>q\<in>set qs. q \<noteq> [] \<and> ?norm q = q" "set qs \<inter> seen = {}" for qs seen
    using that by (induction qs arbitrary: seen) (auto simp: Let_def)
  define us where "us = uniqueNonEmptyPaths ps"
  have us: "distinct us" "set us = {p. p \<noteq> [] \<and> p \<in> ?norm ` set ps}"
    using unique_paths_loop_props [of ps "{}"] by (simp_all only: us_def uniqueNonEmptyPaths_def Diff_empty)
  have "\<forall>q\<in>set us. q \<noteq> [] \<and> ?norm q = q"
  proof
    fix q assume "q \<in> set us"
    then obtain p where "q = ?norm p" "q \<noteq> []" using us(2) by blast
    then show "q \<noteq> [] \<and> ?norm q = q" using norm [of p] by metis
  qed
  then have "unique_paths_loop us {} = us" by (intro fix_loop [OF us(1)]) simp_all
  then have "uniqueNonEmptyPaths (uniqueNonEmptyPaths ps) = uniqueNonEmptyPaths ps"
    by (simp only: us_def uniqueNonEmptyPaths_def)
  moreover have "distinct (uniqueNonEmptyPaths ps) \<and>
      set (uniqueNonEmptyPaths ps) = {p. p \<noteq> [] \<and> p \<in> ?norm ` set ps}"
    using us by (simp only: us_def)
  ultimately show ?thesis by blast
qed

end
