(* ===== verification/Http.thy ===== *)
theory Http
  imports Paths
begin

text \<open>
  Requests, responses and the request-level helpers of \<open>handlers.go\<close>, \<open>session.go\<close> and
  \<open>middleware.go\<close>. A request is what \<open>net/http\<close> hands a handler: the parsed parts, and the
  outcome of decoding its body (\<open>encoding/json\<close> against the handler's struct, or the multipart
  form). A handler maps a request and a state to a response and a state; what it reads from
  the clock, the random source and the outcomes of its saves comes from a record \<open>ext\<close>.
\<close>

subsection \<open>Requests and responses\<close>

text \<open>\<open>Session\<close> of \<open>session.go\<close>; a request that passed \<open>withSession\<close> carries one.\<close>

record session =
  sUsername :: string
  sRole :: string
  sExpiresAt :: gotime

text \<open>The decoded fields of a JSON body by their JSON names; a missing field is its zero value.\<close>

record fields =
  fStr :: "string \<Rightarrow> string"
  fBool :: "string \<Rightarrow> bool"
  fInt :: "string \<Rightarrow> int"
  fStrs :: "string \<Rightarrow> string list"

datatype json_body = BodyTooLarge | BodyInvalid | BodyOK fields

text \<open>An uploaded file: its name, and its bytes, or \<open>None\<close> when reading it fails midway.\<close>

datatype form_body =
    FormTooLarge
  | FormBad
  | FormOK "string \<Rightarrow> string" "string \<Rightarrow> (string \<times> string option) option"

record request =
  rMethod :: string
  rPath :: string
  rRequestURI :: string
  rQuery :: "string \<Rightarrow> string"
  rHeader :: "string \<Rightarrow> string"
  rCookies :: "(string \<times> string) list"
  rRemoteAddr :: string
  rHost :: string
  rTLS :: bool
  rBody :: json_body
  rForm :: form_body
  rRaw :: "string option"
  rSession :: "session option"
  rAuthVia :: string

datatype json =
    JNull
  | JBool bool
  | JNum int
  | JStr string
  | JArr "json list"
  | JObj "(string \<times> json) list"

datatype body =
    BEmpty
  | BText string
  | BJson json
  | BTemplate string "(string \<times> json) list"
  | BFile "string list"
  | BZip "(string \<times> string) list" \<comment> \<open>entries of the archive: name and contents\<close>
  | BDav "string list" \<comment> \<open>what the WebDAV package serves for this entry\<close>

record cookie =
  cName :: string
  cValue :: string
  cPath :: string
  cHttpOnly :: bool
  cSameSite :: string
  cSecure :: bool
  cMaxAge :: int

record response =
  respStatus :: nat
  respHeaders :: "(string \<times> string) list"
  respCookies :: "cookie list"
  respBody :: body

type_synonym 's handler = "request \<Rightarrow> 's \<Rightarrow> response \<times> 's"

text \<open>What a handler reads from outside, in the order it reads it.\<close>

record ext =
  x_now :: "nat \<Rightarrow> gotime"
  x_rand :: "nat \<Rightarrow> string option"
  x_save :: "nat \<Rightarrow> bool"

subsection \<open>Writing a response\<close>

definition set_header :: "string \<Rightarrow> string \<Rightarrow> (string \<times> string) list \<Rightarrow> (string \<times> string) list" where
  "set_header k v hs = filter (\<lambda>h. fst h \<noteq> k) hs @ [(k, v)]"

definition get_header :: "(string \<times> string) list \<Rightarrow> string \<Rightarrow> string" where
  "get_header hs k = (case map_of hs k of None \<Rightarrow> [] | Some v \<Rightarrow> v)"

lemma map_of_append_filter:
  "map_of (filter (\<lambda>h. fst h \<noteq> k) hs @ ts) j = (if j = k then map_of ts k else case map_of hs j of
     None \<Rightarrow> map_of ts j | Some v \<Rightarrow> Some v)"
  by (induction hs) auto

lemma get_set_header [simp]:
  "get_header (set_header k v hs) j = (if j = k then v else get_header hs j)"
  unfolding get_header_def set_header_def map_of_append_filter by (simp split: option.splits)

definition mk_response :: "nat \<Rightarrow> (string \<times> string) list \<Rightarrow> body \<Rightarrow> response" where
  "mk_response st hs b = \<lparr>respStatus = st, respHeaders = hs, respCookies = [], respBody = b\<rparr>"

definition writeJSON :: "nat \<Rightarrow> json \<Rightarrow> response" where
  "writeJSON code v = mk_response code [(''Content-Type'', ''application/json'')] (BJson v)"

definition jsonResponse :: "bool \<Rightarrow> string \<Rightarrow> string \<Rightarrow> json" where
  "jsonResponse ok err msg =
     JObj ([(''ok'', JBool ok)] @ (if err = [] then [] else [(''error'', JStr err)]) @
           (if msg = [] then [] else [(''message'', JStr msg)]))"

definition jsonOK :: "string \<Rightarrow> response" where
  "jsonOK msg = writeJSON 200 (jsonResponse True [] msg)"

definition jsonErr :: "nat \<Rightarrow> string \<Rightarrow> response" where
  "jsonErr code msg = writeJSON code (jsonResponse False msg [])"

definition http_Error :: "string \<Rightarrow> nat \<Rightarrow> response" where
  "http_Error msg code = mk_response code [(''Content-Type'', ''text/plain; charset=utf-8''),
     (''X-Content-Type-Options'', ''nosniff'')] (BText (msg @ [CHR 0x0A]))"

definition http_NotFound :: response where
  "http_NotFound = http_Error ''404 page not found'' 404"

definition is_hex :: "char \<Rightarrow> bool" where
  "is_hex c \<longleftrightarrow> is_digit c \<or> (65 \<le> byte_val c \<and> byte_val c \<le> 70) \<or> (97 \<le> byte_val c \<and> byte_val c \<le> 102)"

text \<open>
  \<open>http.Redirect\<close> to a rooted URL: when \<open>url.Parse\<close> accepts it, the part before the query is cleaned
  (a trailing slash stays); bytes outside ASCII are escaped.
\<close>

fun percent_ok :: "string \<Rightarrow> bool" where
  "percent_ok [] = True"
| "percent_ok (c # s) =
     (if c = CHR 0x25 then length s \<ge> 2 \<and> is_hex (s ! 0) \<and> is_hex (s ! 1) \<and> percent_ok s else percent_ok s)"

definition url_parses :: "string \<Rightarrow> bool" where
  "url_parses url \<longleftrightarrow>
     (let u = takeWhile ((\<noteq>) (CHR ''#'')) url; frag = drop (length u + 1) url in
      list_all (\<lambda>c. 32 \<le> byte_val c \<and> byte_val c \<noteq> 127) u \<and>
      percent_ok (takeWhile ((\<noteq>) (CHR ''?'')) u) \<and> percent_ok frag)"

definition clean_url :: "string \<Rightarrow> string" where
  "clean_url url =
     (let p = takeWhile ((\<noteq>) (CHR ''?'')) url; q = drop (length p) url; c = path_Clean p in
      (if HasSuffix p ''/'' \<and> \<not> HasSuffix c ''/'' then c @ ''/'' else c) @ q)"

definition hex_escape_non_ascii :: "string \<Rightarrow> string" where
  "hex_escape_non_ascii s = concat (map (\<lambda>c. if byte_val c \<ge> 128
     then [CHR 0x25, hex_digit (byte_val c div 16), hex_digit (byte_val c mod 16)] else [c]) s)"

definition redirect_location :: "string \<Rightarrow> string" where
  "redirect_location url = hex_escape_non_ascii (if url_parses url then clean_url url else url)"

definition redirect :: "string \<Rightarrow> nat \<Rightarrow> response" where
  "redirect url code = mk_response code [(''Location'', redirect_location url)] BEmpty"

definition execTemplate :: "string \<Rightarrow> (string \<times> json) list \<Rightarrow> response" where
  "execTemplate tpl data =
     mk_response 200 [(''Content-Type'', ''text/html; charset=utf-8'')] (BTemplate tpl data)"

definition add_cookie :: "cookie \<Rightarrow> response \<Rightarrow> response" where
  "add_cookie c r = r\<lparr>respCookies := respCookies r @ [c]\<rparr>"

lemma response_simps [simp]:
  "respStatus (mk_response st hs b) = st" "respHeaders (mk_response st hs b) = hs"
  "respCookies (mk_response st hs b) = []" "respBody (mk_response st hs b) = b"
  "respStatus (writeJSON st j) = st" "respBody (writeJSON st j) = BJson j"
  "respCookies (writeJSON st j) = []"
  "respStatus (jsonErr st m) = st" "respCookies (jsonErr st m) = []"
  "respStatus (jsonOK m) = 200" "respCookies (jsonOK m) = []"
  "respStatus (http_Error m st) = st" "respCookies (http_Error m st) = []"
  "respStatus (redirect u st) = st" "respCookies (redirect u st) = []"
  "respStatus (add_cookie c r) = respStatus r" "respBody (add_cookie c r) = respBody r"
  "respCookies (add_cookie c r) = respCookies r @ [c]"
  by (simp_all add: mk_response_def writeJSON_def jsonErr_def jsonOK_def http_Error_def redirect_def
      add_cookie_def)

text \<open>
  \<open>decodeJSONBody\<close>: hand the decoded fields to the rest of the handler, or answer the error;
  \<open>post_json\<close> adds the method check every JSON handler begins with.
\<close>

definition decodeJSONBody :: "request \<Rightarrow> (fields \<Rightarrow> response \<times> 's) \<Rightarrow> 's \<Rightarrow> response \<times> 's" where
  "decodeJSONBody r k s =
     (case rBody r of
        BodyTooLarge \<Rightarrow> (jsonErr 413 ''Request body too large'', s)
      | BodyInvalid \<Rightarrow> (jsonErr 400 ''Invalid JSON'', s)
      | BodyOK b \<Rightarrow> k b)"

definition requirePOST :: "request \<Rightarrow> (response \<times> 's) \<Rightarrow> 's \<Rightarrow> response \<times> 's" where
  "requirePOST r k s = (if rMethod r \<noteq> ''POST'' then (jsonErr 405 ''POST required'', s) else k)"

definition post_json :: "request \<Rightarrow> (fields \<Rightarrow> response \<times> 's) \<Rightarrow> 's \<Rightarrow> response \<times> 's" where
  "post_json r k s = requirePOST r (decodeJSONBody r k s) s"

lemma post_json_cases:
  obtains (refused) resp where "post_json r k s = (resp, s)" "respStatus resp \<in> {400, 405, 413}"
    "rMethod r \<noteq> ''POST'' \<or> (\<forall>b. rBody r \<noteq> BodyOK b)"
  | (run) b where "rMethod r = ''POST''" "rBody r = BodyOK b" "post_json r k s = k b"
  by (cases "rBody r"; cases "rMethod r = ''POST''")
    (auto simp: post_json_def requirePOST_def decodeJSONBody_def)

subsection \<open>URL escaping\<close>

definition is_alnum :: "char \<Rightarrow> bool" where
  "is_alnum c \<longleftrightarrow> is_digit c \<or> (65 \<le> byte_val c \<and> byte_val c \<le> 90) \<or> (97 \<le> byte_val c \<and> byte_val c \<le> 122)"

definition upper_hex :: "nat \<Rightarrow> char" where
  "upper_hex d = (if d < 10 then char_of (48 + d) else char_of (55 + d))"

definition percent :: "char \<Rightarrow> string" where
  "percent c = [CHR 0x25, upper_hex (byte_val c div 16), upper_hex (byte_val c mod 16)]"

definition QueryEscape :: "string \<Rightarrow> string" where
  "QueryEscape s = concat (map (\<lambda>c. if is_alnum c \<or> c \<in> set ''-_.~'' then [c]
     else if c = CHR '' '' then ''+'' else percent c) s)"

definition PathEscape :: "string \<Rightarrow> string" where
  "PathEscape s = concat (map (\<lambda>c. if is_alnum c \<or> c \<in> set ''-_.~$&+:=@'' then [c] else percent c) s)"

subsection \<open>Addresses\<close>

text \<open>\<open>net.SplitHostPort\<close>: the host, or \<open>None\<close> for an error.\<close>

definition SplitHostPort :: "string \<Rightarrow> string option" where
  "SplitHostPort hp =
     (case last_index (CHR '':'') hp of
        None \<Rightarrow> None
      | Some i \<Rightarrow>
          (if HasPrefix hp ''['' then
             (case index_of (CHR '']'') hp of
                None \<Rightarrow> None
              | Some e \<Rightarrow>
                  (if e + 1 = i \<and> CHR ''['' \<notin> set (drop 1 hp) \<and> CHR '']'' \<notin> set (drop (e + 1) hp)
                   then Some (drop 1 (take e hp)) else None))
           else if CHR '':'' \<in> set (take i hp) \<or> CHR ''['' \<in> set hp \<or> CHR '']'' \<in> set hp then None
           else Some (take i hp)))"

text \<open>\<open>net.ParseIP\<close>, as to whether it accepts (an address with a zone is refused).\<close>

definition ipv4_octet :: "string \<Rightarrow> bool" where
  "ipv4_octet f \<longleftrightarrow> f \<noteq> [] \<and> list_all is_digit f \<and> (length f = 1 \<or> hd f \<noteq> CHR ''0'') \<and>
     length f \<le> 3 \<and> dec_val f \<le> 255"

definition parseIPv4 :: "string \<Rightarrow> bool" where
  "parseIPv4 s \<longleftrightarrow> (let fs = split_on dot s in length fs = 4 \<and> list_all ipv4_octet fs)"

text \<open>
  The loop of \<open>parseIPv6\<close>: \<open>i\<close> bytes filled, whether an ellipsis was seen, the input left. The
  first argument counts down the at most eight groups.
\<close>

definition ipv6_end :: "nat \<Rightarrow> bool \<Rightarrow> bool" where
  "ipv6_end i ell \<longleftrightarrow> (if i < 16 then ell else \<not> ell)"

fun ipv6_groups :: "nat \<Rightarrow> nat \<Rightarrow> bool \<Rightarrow> string \<Rightarrow> bool" where
  "ipv6_groups 0 i ell s = (s = [] \<and> ipv6_end i ell)"
| "ipv6_groups (Suc k) i ell s =
     (let ds = takeWhile is_hex s; t = dropWhile is_hex s in
      if ds = [] \<or> length ds > 4 then False
      else if HasPrefix t ''.'' then
        (ell \<or> i = 12) \<and> i + 4 \<le> 16 \<and> parseIPv4 s \<and> ipv6_end (i + 4) ell
      else if t = [] then ipv6_end (i + 2) ell
      else if \<not> HasPrefix t '':'' \<or> length t = 1 then False
      else if HasPrefix t ''::'' then
        (if ell then False
         else if length t = 2 then ipv6_end (i + 2) True
         else ipv6_groups k (i + 2) True (drop 2 t))
      else ipv6_groups k (i + 2) ell (drop 1 t))"

definition parseIPv6 :: "string \<Rightarrow> bool" where
  "parseIPv6 s \<longleftrightarrow>
     (if HasPrefix s ''::'' then s = ''::'' \<or> ipv6_groups 8 0 True (drop 2 s)
      else ipv6_groups 8 0 False s)"

definition ParseIP :: "string \<Rightarrow> bool" where
  "ParseIP s \<longleftrightarrow> CHR 0x25 \<notin> set s \<and>
     (case List.find (\<lambda>c. c = dot \<or> c = CHR '':'') s of
        None \<Rightarrow> False
      | Some c \<Rightarrow> if c = dot then parseIPv4 s else parseIPv6 s)"

definition parseIPHost :: "string \<Rightarrow> string" where
  "parseIPHost s0 =
     (let s = TrimSpace s0 in
      if s = [] then []
      else let h = (case SplitHostPort s of None \<Rightarrow> s | Some h \<Rightarrow> h)
           in if ParseIP h then h else [])"

definition clientIP :: "bool \<Rightarrow> request \<Rightarrow> string" where
  "clientIP trustProxy r =
     (let xri = TrimSpace (rHeader r ''X-Real-Ip'');
          xff = rHeader r ''X-Forwarded-For'';
          first = TrimSpace (hd (split_on (CHR '','') xff));
          remote = (case SplitHostPort (rRemoteAddr r) of None \<Rightarrow> rRemoteAddr r | Some h \<Rightarrow> h)
      in if trustProxy \<and> xri \<noteq> [] \<and> parseIPHost xri \<noteq> [] then parseIPHost xri
         else if trustProxy \<and> xff \<noteq> [] \<and> parseIPHost first \<noteq> [] then parseIPHost first
         else remote)"

subsection \<open>Same origin\<close>

definition expectedOrigin :: "unicode \<Rightarrow> request \<Rightarrow> string" where
  "expectedOrigin U r =
     (if rTLS r \<or> EqualFold U (rHeader r ''X-Forwarded-Proto'') ''https'' then ''https'' else ''http'')
     @ ''://'' @ rHost r"

definition sameOrigin :: "unicode \<Rightarrow> request \<Rightarrow> bool" where
  "sameOrigin U r \<longleftrightarrow>
     (if rMethod r = ''GET'' \<or> rMethod r = ''HEAD'' \<or> rMethod r = ''OPTIONS'' then True
      else let origin = rHeader r ''Origin''; ref = rHeader r ''Referer''; e = expectedOrigin U r in
        if origin = [] then
          (if ref = [] then True else HasPrefix ref (e @ ''/'') \<or> ref = e @ ''/'' \<or> ref = e)
        else origin = e)"

lemma clientIP_untrusted:
  "rRemoteAddr r = rRemoteAddr r' \<Longrightarrow> clientIP False r = clientIP False r'"
  by (simp add: clientIP_def Let_def split: option.splits)

end
