(* ===== verification/Sessions.thy ===== *)
theory Sessions
  imports Http Machine
begin

text \<open>
  Sessions and the login rate limit (\<open>session.go\<close>). The manager holds the sessions by sid, the
  failure records by address, and the contents of \<open>sessions.json\<close>. Every reading of the clock
  is an argument, and so is whether a write of the file succeeds; random tokens come in as
  the bytes the random source gave.
\<close>

subsection \<open>State\<close>

definition sessionCookieName :: string where "sessionCookieName = ''dingbap_session''"
definition sessionTTL :: duration where "sessionTTL = 7 * 24 * hour_ns"
definition loginMaxFailures :: nat where "loginMaxFailures = 5"
definition loginLockDuration :: duration where "loginLockDuration = minute_ns"

record loginAttempt =
  la_count :: nat
  lockedUntil :: gotime
  lastFail :: gotime

definition zeroAttempt :: loginAttempt where
  "zeroAttempt = \<lparr>la_count = 0, lockedUntil = 0, lastFail = 0\<rparr>"

type_synonym sessionMap = "(string \<times> session) list"

record sessionManager =
  smSessions :: sessionMap
  smPersistent :: bool
  smDisk :: "sessionMap option"
  secureCookie :: bool
  failures :: "(string \<times> loginAttempt) list"

definition expired :: "gotime \<Rightarrow> session \<Rightarrow> bool" where
  "expired now s \<longleftrightarrow> sExpiresAt s < now"

definition randomToken :: "string option \<Rightarrow> string result" where
  "randomToken r = (case r of None \<Rightarrow> Inl ''rand: read failed'' | Some b \<Rightarrow> Inr (hex_encode (map byte_val b)))"

subsection \<open>Loading and writing the file\<close>

definition loadable :: "gotime \<Rightarrow> string \<times> session \<Rightarrow> bool" where
  "loadable now e \<longleftrightarrow>
     fst e \<noteq> [] \<and> sUsername (snd e) \<noteq> [] \<and> sRole (snd e) \<noteq> [] \<and> \<not> expired now (snd e)"

definition sm_load :: "gotime \<Rightarrow> sessionManager \<Rightarrow> sessionManager" where
  "sm_load now sm =
     (if \<not> smPersistent sm then sm
      else case smDisk sm of
        None \<Rightarrow> sm
      | Some d \<Rightarrow>
          sm\<lparr>smSessions := fold (\<lambda>e m. aput (fst e) (snd e) m) (filter (loadable now) d) (smSessions sm)\<rparr>)"

definition newSessionManager :: "gotime \<Rightarrow> bool \<Rightarrow> sessionMap option \<Rightarrow> bool \<Rightarrow> sessionManager" where
  "newSessionManager now persistent disk secure =
     sm_load now \<lparr>smSessions = [], smPersistent = persistent, smDisk = disk,
       secureCookie = secure, failures = []\<rparr>"

definition persist :: "gotime \<Rightarrow> bool \<Rightarrow> sessionManager \<Rightarrow> sessionManager" where
  "persist now ok sm =
     (if smPersistent sm \<and> ok
      then sm\<lparr>smDisk := Some (filter (\<lambda>e. \<not> expired now (snd e)) (smSessions sm))\<rparr> else sm)"

subsection \<open>Operations on sessions\<close>

definition reap :: "gotime \<Rightarrow> gotime \<Rightarrow> bool \<Rightarrow> sessionManager \<Rightarrow> sessionManager" where
  "reap now now2 ok sm =
     (let changed = list_ex (\<lambda>e. expired now (snd e)) (smSessions sm);
          gone = (\<lambda>a. let expiry0 = lastFail a + loginLockDuration;
                          expiry = (if lockedUntil a > expiry0 then lockedUntil a else expiry0)
                      in if lastFail a = 0 \<and> lockedUntil a = 0 then True else now > expiry);
          sm' = sm\<lparr>smSessions := filter (\<lambda>e. \<not> expired now (snd e)) (smSessions sm),
                   failures := filter (\<lambda>e. \<not> gone (snd e)) (failures sm)\<rparr>
      in if changed then persist now2 ok sm' else sm')"

definition sm_create ::
  "gotime \<Rightarrow> gotime \<Rightarrow> string option \<Rightarrow> bool \<Rightarrow> string \<Rightarrow> string \<Rightarrow> sessionManager \<Rightarrow> string result \<times> sessionManager"
where
  "sm_create now now2 rnd ok username role sm =
     (case randomToken rnd of
        Inl e \<Rightarrow> (Inl e, sm)
      | Inr sid \<Rightarrow>
          (Inr sid, persist now2 ok (sm\<lparr>smSessions := aput sid
             \<lparr>sUsername = username, sRole = role, sExpiresAt = now + sessionTTL\<rparr> (smSessions sm)\<rparr>)))"

definition sm_destroy :: "gotime \<Rightarrow> bool \<Rightarrow> string \<Rightarrow> sessionManager \<Rightarrow> sessionManager" where
  "sm_destroy now ok sid sm =
     (case map_of (smSessions sm) sid of
        None \<Rightarrow> sm
      | Some _ \<Rightarrow> persist now ok (sm\<lparr>smSessions := adel sid (smSessions sm)\<rparr>))"

definition sm_get ::
  "gotime \<Rightarrow> gotime \<Rightarrow> bool \<Rightarrow> string \<Rightarrow> sessionManager \<Rightarrow> session option \<times> sessionManager"
where
  "sm_get now now2 ok sid sm =
     (if sid = [] then (None, sm)
      else case map_of (smSessions sm) sid of
        None \<Rightarrow> (None, sm)
      | Some s \<Rightarrow> (if expired now s then (None, sm_destroy now2 ok sid sm) else (Some s, sm)))"

definition owned_by :: "unicode \<Rightarrow> string \<Rightarrow> string \<times> session \<Rightarrow> bool" where
  "owned_by U username e = EqualFold U (sUsername (snd e)) username"

definition destroyByUsername ::
  "unicode \<Rightarrow> gotime \<Rightarrow> bool \<Rightarrow> string \<Rightarrow> sessionManager \<Rightarrow> sessionManager"
where
  "destroyByUsername U now ok username0 sm =
     (let username = TrimSpace username0 in
      if username = [] then sm
      else if list_ex (owned_by U username) (smSessions sm)
      then persist now ok (sm\<lparr>smSessions := filter (\<lambda>e. \<not> owned_by U username e) (smSessions sm)\<rparr>)
      else sm)"

definition session_cookie :: "string \<Rightarrow> int \<Rightarrow> sessionManager \<Rightarrow> cookie" where
  "session_cookie v age sm =
     \<lparr>cName = sessionCookieName, cValue = v, cPath = ''/'', cHttpOnly = True,
      cSameSite = ''Strict'', cSecure = secureCookie sm, cMaxAge = age\<rparr>"

definition setCookie :: "string \<Rightarrow> sessionManager \<Rightarrow> response \<Rightarrow> response" where
  "setCookie sid sm = add_cookie (session_cookie sid (sessionTTL div second_ns) sm)"

definition clearCookie :: "sessionManager \<Rightarrow> response \<Rightarrow> response" where
  "clearCookie sm = add_cookie (session_cookie [] (-1) sm)"

definition request_cookie :: "request \<Rightarrow> string \<Rightarrow> string option" where
  "request_cookie r name = map_of (rCookies r) name"

definition fromRequest ::
  "gotime \<Rightarrow> gotime \<Rightarrow> bool \<Rightarrow> request \<Rightarrow> sessionManager \<Rightarrow> session option \<times> sessionManager"
where
  "fromRequest now now2 ok r sm =
     (case request_cookie r sessionCookieName of
        None \<Rightarrow> (None, sm)
      | Some sid \<Rightarrow> sm_get now now2 ok sid sm)"

subsection \<open>The login rate limit\<close>

definition attempt :: "string \<Rightarrow> sessionManager \<Rightarrow> loginAttempt" where
  "attempt ip sm = (case map_of (failures sm) ip of None \<Rightarrow> zeroAttempt | Some a \<Rightarrow> a)"

definition allowLogin :: "gotime \<Rightarrow> gotime \<Rightarrow> string \<Rightarrow> sessionManager \<Rightarrow> bool \<times> sessionManager" where
  "allowLogin now now2 ip sm =
     (let a = attempt ip sm in
      if now < lockedUntil a then (False, sm)
      else if lockedUntil a \<noteq> 0 \<and> now2 > lockedUntil a
      then (True, sm\<lparr>failures := aput ip zeroAttempt (failures sm)\<rparr>)
      else (True, sm))"

definition recordFailure :: "gotime \<Rightarrow> gotime \<Rightarrow> string \<Rightarrow> sessionManager \<Rightarrow> sessionManager" where
  "recordFailure now now2 ip sm =
     (let a = attempt ip sm;
          b = a\<lparr>la_count := la_count a + 1, lastFail := now\<rparr>;
          c = (if la_count b \<ge> loginMaxFailures
               then b\<lparr>lockedUntil := now2 + loginLockDuration, la_count := 0\<rparr> else b)
      in sm\<lparr>failures := aput ip c (failures sm)\<rparr>)"

definition clearFailures :: "string \<Rightarrow> sessionManager \<Rightarrow> sessionManager" where
  "clearFailures ip sm = sm\<lparr>failures := adel ip (failures sm)\<rparr>"

subsection \<open>Executions\<close>

datatype sess_op =
    SoCreate gotime gotime "string option" bool string string
  | SoGet gotime gotime bool string
  | SoDestroy gotime bool string
  | SoDestroyUser gotime bool string
  | SoReap gotime gotime bool
  | SoRestart gotime bool
  | SoAllow gotime gotime string
  | SoFail gotime gotime string
  | SoClear string

fun run_sess_op :: "unicode \<Rightarrow> sess_op \<Rightarrow> sessionManager \<Rightarrow> sessionManager" where
  "run_sess_op U (SoCreate now now2 rnd ok u r) sm = snd (sm_create now now2 rnd ok u r sm)"
| "run_sess_op U (SoGet now now2 ok i) sm = snd (sm_get now now2 ok i sm)"
| "run_sess_op U (SoDestroy now ok i) sm = sm_destroy now ok i sm"
| "run_sess_op U (SoDestroyUser now ok u) sm = destroyByUsername U now ok u sm"
| "run_sess_op U (SoReap now now2 ok) sm = reap now now2 ok sm"
| "run_sess_op U (SoRestart now sec) sm = newSessionManager now (smPersistent sm) (smDisk sm) sec"
| "run_sess_op U (SoAllow now now2 ip) sm = snd (allowLogin now now2 ip sm)"
| "run_sess_op U (SoFail now now2 ip) sm = recordFailure now now2 ip sm"
| "run_sess_op U (SoClear ip) sm = clearFailures ip sm"

text \<open>The entry an operation adds, if it is a successful \<open>create\<close>.\<close>

fun created :: "sess_op \<Rightarrow> (string \<times> session) option" where
  "created (SoCreate now now2 rnd ok u r) =
     (case randomToken rnd of Inl _ \<Rightarrow> None
      | Inr i \<Rightarrow> Some (i, \<lparr>sUsername = u, sRole = r, sExpiresAt = now + sessionTTL\<rparr>))"
| "created _ = None"

text \<open>Every entry, in memory and in the file, satisfies \<open>P\<close>.\<close>

definition all_entries :: "(string \<times> session \<Rightarrow> bool) \<Rightarrow> sessionManager \<Rightarrow> bool" where
  "all_entries P sm \<longleftrightarrow> (\<forall>e\<in>set (smSessions sm). P e) \<and>
     (case smDisk sm of None \<Rightarrow> True | Some d \<Rightarrow> \<forall>e\<in>set d. P e)"

definition sess_step ::
  "unicode \<Rightarrow> (string \<times> session \<Rightarrow> bool) \<Rightarrow> sessionManager \<Rightarrow> sess_op \<Rightarrow> sessionManager \<Rightarrow> bool"
where
  "sess_step U P sm a sm' \<longleftrightarrow> sm' = run_sess_op U a sm \<and>
     (case created a of None \<Rightarrow> True | Some e \<Rightarrow> P e)"

lemma all_entries_persist [simp]: "all_entries P sm \<Longrightarrow> all_entries P (persist now ok sm)"
  by (auto simp: all_entries_def persist_def)

lemma all_entries_sub:
  "all_entries P sm \<Longrightarrow> \<forall>e\<in>set m. P e \<Longrightarrow> all_entries P (sm\<lparr>smSessions := m\<rparr>)"
  by (simp add: all_entries_def)

lemma all_entries_failures [simp]: "all_entries P (sm\<lparr>failures := m\<rparr>) = all_entries P sm"
  by (simp add: all_entries_def)

lemma all_entriesD: "all_entries P sm \<Longrightarrow> e \<in> set (smSessions sm) \<Longrightarrow> P e"
  by (simp add: all_entries_def)

lemma all_entries_load:
  assumes "\<forall>e\<in>set d. P e" "\<forall>e\<in>set m. P e"
  shows "\<forall>e\<in>set (fold (\<lambda>e m. aput (fst e) (snd e) m) d m). P e"
  using assms
proof (induction d arbitrary: m)
  case (Cons x d)
  then show ?case using set_aput [of "fst x" "snd x" m] by (auto intro!: Cons.IH)
qed simp

lemma all_entries_new:
  "(case d of None \<Rightarrow> True | Some d \<Rightarrow> \<forall>e\<in>set d. P e) \<Longrightarrow> all_entries P (newSessionManager now pers d sec)"
  using all_entries_load [of "filter (loadable now) (the d)" P "[]"]
  by (auto simp: newSessionManager_def sm_load_def all_entries_def split: option.splits)

lemma all_entries_destroy: "all_entries P sm \<Longrightarrow> all_entries P (sm_destroy now ok i sm)"
  using set_adel [of i "smSessions sm"]
  by (auto simp: sm_destroy_def all_entriesD split: option.splits intro!: all_entries_persist all_entries_sub)

lemma all_entries_create:
  assumes "all_entries P sm" "case created (SoCreate now now2 rnd ok u r) of None \<Rightarrow> True | Some e \<Rightarrow> P e"
  shows "all_entries P (snd (sm_create now now2 rnd ok u r sm))"
  using assms set_aput [of _ _ "smSessions sm"]
  by (fastforce simp: sm_create_def all_entriesD split: sum.splits intro!: all_entries_persist all_entries_sub)

lemma run_sess_op_entries:
  assumes "all_entries P sm" "case created a of None \<Rightarrow> True | Some e \<Rightarrow> P e"
  shows "all_entries P (run_sess_op U a sm)"
proof (cases a)
  case (SoCreate x1 x2 x3 x4 x5 x6)
  then show ?thesis using all_entries_create assms by simp
next
  case (SoDestroyUser x1 x2 x3)
  then show ?thesis using assms
    by (auto simp: destroyByUsername_def Let_def all_entriesD intro!: all_entries_persist all_entries_sub)
next
  case (SoReap x1 x2 x3)
  then show ?thesis using assms
    by (auto simp: reap_def Let_def all_entries_def persist_def split: option.splits)
next
  case (SoRestart x1 x2)
  have "case smDisk sm of None \<Rightarrow> True | Some d \<Rightarrow> \<forall>e\<in>set d. P e"
    using assms(1) by (simp add: all_entries_def)
  with SoRestart show ?thesis by (simp add: all_entries_new)
next
  case (SoFail x1 x2 x3)
  then show ?thesis using assms by (simp add: recordFailure_def Let_def)
qed (use assms all_entries_destroy in \<open>auto simp: sm_get_def allowLogin_def clearFailures_def Let_def
    split: option.splits\<close>)

interpretation sessm: invariant_machine "sess_step U P" "all_entries P" for U P
  by unfold_locales (auto simp: sess_step_def run_sess_op_entries)

lemma sm_get_Some:
  "sm_get now now2 ok i sm = (Some s, sm') \<Longrightarrow>
     sm' = sm \<and> i \<noteq> [] \<and> (i, s) \<in> set (smSessions sm) \<and> now \<le> sExpiresAt s"
  by (auto simp: sm_get_def expired_def dest: map_of_SomeD split: if_splits option.splits)

text \<open>A run of the manager: each state is the outcome of the operation on the one before.\<close>

definition sess_run :: "unicode \<Rightarrow> sessionManager \<Rightarrow> (sess_op \<times> sessionManager) list \<Rightarrow> bool" where
  "sess_run U sm tr \<longleftrightarrow> trace (\<lambda>s a t. t = run_sess_op U a s) sm tr"

lemma sess_run_step:
  assumes "sess_run U sm tr" "\<And>a t e. (a, t) \<in> set tr \<Longrightarrow> created a = Some e \<Longrightarrow> P e"
  shows "trace (sess_step U P) sm tr"
  using assms unfolding sess_run_def
proof (induction tr arbitrary: sm)
  case (Cons x tr)
  obtain a t where x: "x = (a, t)" by (cases x)
  have "case created a of None \<Rightarrow> True | Some e \<Rightarrow> P e"
    using Cons.prems(2) [of a t] x by (auto split: option.splits)
  moreover have "trace (sess_step U P) t tr"
    using Cons.prems x by (intro Cons.IH) auto
  moreover have "t = run_sess_op U a sm" using Cons.prems(1) x by simp
  ultimately have "sess_step U P sm a t" "trace (sess_step U P) t tr"
    unfolding sess_step_def [of U P sm a] by simp_all
  then show ?case by (simp only: x trace.simps)
qed simp

text \<open>
  C9: A session the manager accepts was created: starting from a manager with no session file,
  after any run of operations, reaps, failed writes and restarts, \<open>get\<close> answers a session only
  for an id that a \<open>create\<close> of that run returned, with the user name and role it was created
  with, and not later than seven days after it.
\<close>

theorem session_provenance:
  assumes "sess_run U (newSessionManager now0 pers None sec) tr"
    and "sm_get now now2 ok sid (final_state (newSessionManager now0 pers None sec) tr) = (Some s, sm')"
  shows "(\<exists>a t. (a, t) \<in> set tr \<and> created a = Some (sid, s)) \<and> now \<le> sExpiresAt s"
proof -
  let ?P = "\<lambda>e. \<exists>a t. (a, t) \<in> set tr \<and> created a = Some e"
  have "trace (sess_step U ?P) (newSessionManager now0 pers None sec) tr"
    by (rule sess_run_step [OF assms(1)]) blast
  moreover have "all_entries ?P (newSessionManager now0 pers None sec)"
    by (rule all_entries_new) simp
  ultimately have "all_entries ?P (final_state (newSessionManager now0 pers None sec) tr)"
    by (rule sessm.trace_inv)
  with sm_get_Some [OF assms(2)] show ?thesis by (auto dest: all_entriesD)
qed

definition demo_session_op :: sess_op where
  "demo_session_op = SoCreate 0 0 (Some ''ab'') True ''root'' ''admin''"

theorem session_provenance_witness:
  "\<exists>sm. sm_get 5 5 True ''6162'' sm =
      (Some \<lparr>sUsername = ''root'', sRole = ''admin'', sExpiresAt = sessionTTL\<rparr>, sm) \<and>
      created demo_session_op = Some (''6162'', \<lparr>sUsername = ''root'', sRole = ''admin'', sExpiresAt = sessionTTL\<rparr>)"
proof -
  let ?start = "newSessionManager 0 True None True"
  let ?sm = "run_sess_op basic_unicode demo_session_op ?start"
  let ?ses = "\<lparr>sUsername = ''root'', sRole = ''admin'', sExpiresAt = sessionTTL\<rparr>"
  have hex: "hex_encode [97, 98] = ''6162''" by code_simp
  have run: "sess_run basic_unicode ?start [(demo_session_op, ?sm)]"
    by (simp add: sess_run_def)
  have get: "sm_get 5 5 True ''6162'' (final_state ?start [(demo_session_op, ?sm)]) = (Some ?ses, ?sm)"
    by (simp add: demo_session_op_def sm_create_def randomToken_def hex newSessionManager_def
        sm_load_def persist_def sm_get_def expired_def sessionTTL_def del: map_of_Cons_code)
  from session_provenance [OF run get] get show ?thesis by auto
qed



subsection \<open>At most five wrong guesses a minute\<close>

text \<open>
  A failing login as \<open>handleLoginAPI\<close> runs it: refused while the address is locked, otherwise the
  wrong guess is recorded. Between the guesses of one address come guesses from other addresses
  and the hourly reap. \<open>guess_step ip t0\<close> are the steps of the minute that starts at \<open>t0\<close>.
\<close>

definition failing_login :: "gotime \<Rightarrow> string \<Rightarrow> sessionManager \<Rightarrow> bool \<times> sessionManager" where
  "failing_login now ip sm =
     (let r = allowLogin now now ip sm in
      if fst r then (True, recordFailure now now ip (snd r)) else (False, snd r))"

datatype guess_event =
    Guess gotime bool
  | OtherGuess gotime string
  | ReapAt gotime bool

fun guess_step :: "string \<Rightarrow> gotime \<Rightarrow> sessionManager \<Rightarrow> guess_event \<Rightarrow> sessionManager \<Rightarrow> bool" where
  "guess_step ip t0 sm (Guess now b) sm' \<longleftrightarrow>
     t0 \<le> now \<and> now < t0 + loginLockDuration \<and> now \<noteq> lockedUntil (attempt ip sm) \<and>
     failing_login now ip sm = (b, sm')"
| "guess_step ip t0 sm (OtherGuess now ip') sm' \<longleftrightarrow>
     ip' \<noteq> ip \<and> sm' = snd (failing_login now ip' sm)"
| "guess_step ip t0 sm (ReapAt now ok) sm' \<longleftrightarrow>
     t0 \<le> now \<and> now < t0 + loginLockDuration \<and> sm' = reap now now ok sm"

fun guesses :: "guess_event \<Rightarrow> nat" where
  "guesses (Guess now b) = (if b then 1 else 0)"
| "guesses _ = 0"

definition guess_inv :: "string \<Rightarrow> gotime \<Rightarrow> sessionManager \<Rightarrow> bool" where
  "guess_inv ip t0 sm \<longleftrightarrow> 0 < t0 \<and> distinct (map fst (failures sm)) \<and>
     la_count (attempt ip sm) < loginMaxFailures \<and>
     (lockedUntil (attempt ip sm) = 0 \<or> la_count (attempt ip sm) = 0)"

definition guess_budget :: "string \<Rightarrow> gotime \<Rightarrow> sessionManager \<Rightarrow> nat" where
  "guess_budget ip t0 sm =
     (let a = attempt ip sm in
      if lockedUntil a \<ge> t0 + loginLockDuration then 0
      else if lastFail a \<ge> t0 then loginMaxFailures - la_count a else loginMaxFailures)"

lemma attempt_aput [simp]:
  "attempt ip (sm\<lparr>failures := aput ip' a m\<rparr>) = (if ip = ip' then a else attempt ip (sm\<lparr>failures := m\<rparr>))"
  "attempt ip (sm\<lparr>failures := failures sm\<rparr>) = attempt ip sm"
  by (simp_all add: attempt_def)

lemma attempt_persist [simp]: "attempt ip (persist now ok sm) = attempt ip sm"
  "failures (persist now ok sm) = failures sm"
  by (simp_all add: attempt_def persist_def)

lemma failing_login_other:
  "ip' \<noteq> ip \<Longrightarrow> attempt ip (snd (failing_login now ip' sm)) = attempt ip sm"
  by (auto simp: failing_login_def allowLogin_def recordFailure_def Let_def)

lemma failing_login_distinct:
  "distinct (map fst (failures sm)) \<Longrightarrow> distinct (map fst (failures (snd (failing_login now ip sm))))"
  by (auto simp: failing_login_def allowLogin_def recordFailure_def Let_def intro!: distinct_aput)

lemma failing_login_self:
  assumes "guess_inv ip t0 sm" "now \<noteq> lockedUntil (attempt ip sm)" "0 < now"
    and "failing_login now ip sm = (b, sm')"
  shows "if now < lockedUntil (attempt ip sm) then \<not> b \<and> attempt ip sm' = attempt ip sm
    else b \<and> lastFail (attempt ip sm') = now \<and>
      (if la_count (attempt ip sm) = 4
       then lockedUntil (attempt ip sm') = now + loginLockDuration \<and> la_count (attempt ip sm') = 0
       else lockedUntil (attempt ip sm') = 0 \<and> la_count (attempt ip sm') = la_count (attempt ip sm) + 1)"
  using assms
  by (auto simp: failing_login_def allowLogin_def recordFailure_def Let_def guess_inv_def zeroAttempt_def
      loginMaxFailures_def split: if_splits)

lemma reap_attempt:
  assumes "distinct (map fst (failures sm))" "t0 \<le> now" "now < t0 + loginLockDuration" "0 < t0"
  shows "attempt ip (reap now now ok sm) = attempt ip sm \<or>
    attempt ip (reap now now ok sm) = zeroAttempt \<and>
      lastFail (attempt ip sm) < t0 \<and> lockedUntil (attempt ip sm) < t0 + loginLockDuration"
  using assms
  by (auto simp: reap_def Let_def attempt_def map_of_filter_distinct zeroAttempt_def split: option.splits if_splits)

lemma reap_distinct:
  "distinct (map fst (failures sm)) \<Longrightarrow> distinct (map fst (failures (reap now now ok sm)))"
  by (auto simp: reap_def Let_def distinct_map_filter)

lemma guess_step_ok:
  assumes "guess_step ip t0 sm e sm'" "guess_inv ip t0 sm"
  shows "guess_inv ip t0 sm'" and "guesses e + guess_budget ip t0 sm' \<le> guess_budget ip t0 sm"
proof (atomize (full), cases e)
  case (Guess now b)
  with assms have w: "t0 \<le> now" "now < t0 + loginLockDuration" "now \<noteq> lockedUntil (attempt ip sm)" "0 < now"
    and r: "failing_login now ip sm = (b, sm')" by (auto simp: guess_inv_def)
  have d: "distinct (map fst (failures sm'))"
    using failing_login_distinct [of sm now ip] assms(2) r by (simp add: guess_inv_def)
  show "guess_inv ip t0 sm' \<and> guesses e + guess_budget ip t0 sm' \<le> guess_budget ip t0 sm"
    using failing_login_self [OF assms(2) w(3,4) r] assms(2) w d Guess
    by (auto simp: guess_inv_def guess_budget_def Let_def loginMaxFailures_def loginLockDuration_def
        split: if_splits)
next
  case (OtherGuess now ip')
  with assms show "guess_inv ip t0 sm' \<and> guesses e + guess_budget ip t0 sm' \<le> guess_budget ip t0 sm"
    using failing_login_distinct [of sm now ip'] failing_login_other [of ip' ip now sm]
    by (auto simp: guess_inv_def guess_budget_def)
next
  case (ReapAt now ok)
  with assms show "guess_inv ip t0 sm' \<and> guesses e + guess_budget ip t0 sm' \<le> guess_budget ip t0 sm"
    using reap_attempt [of sm t0 now ip ok] reap_distinct [of sm now ok]
    by (auto simp: guess_inv_def guess_budget_def Let_def zeroAttempt_def loginMaxFailures_def)
qed

interpretation limiter: quota_machine "guess_step ip t0" "guess_inv ip t0" guesses "\<lambda>_. 0"
    "guess_budget ip t0" for ip t0
  by unfold_locales (auto dest: guess_step_ok)

text \<open>
  C11: In any minute, one address gets at most five wrong guesses through, whatever guesses from
  other addresses and reaps come between, when each guess is checked and recorded before the
  next one is checked. (A guess in the very nanosecond a lock ends is left out; the count
  survives it, so it would make six.)
\<close>

theorem five_guesses_a_minute:
  assumes "guess_inv ip t0 sm" and "trace (guess_step ip t0) sm tr"
  shows "sum_list (map (guesses \<circ> fst) tr) \<le> 5"
proof -
  have "sum_list (map (guesses \<circ> fst) tr) + guess_budget ip t0 (final_state sm tr) \<le> guess_budget ip t0 sm"
    using limiter.trace_budget [OF assms(2,1)] by (simp add: o_def)
  also have "guess_budget ip t0 sm \<le> 5" by (simp add: guess_budget_def Let_def loginMaxFailures_def)
  finally show ?thesis by simp
qed

definition fresh_manager :: sessionManager where
  "fresh_manager = newSessionManager 0 False None True"

fun guess_trace :: "string \<Rightarrow> gotime list \<Rightarrow> sessionManager \<Rightarrow> (guess_event \<times> sessionManager) list" where
  "guess_trace ip [] sm = []"
| "guess_trace ip (t # ts) sm =
     (let r = failing_login t ip sm in (Guess t (fst r), snd r) # guess_trace ip ts (snd r))"

theorem five_guesses_a_minute_witness:
  "map fst (guess_trace ''1.2.3.4'' [10, 11, 12, 13, 14, 15] fresh_manager) =
     [Guess 10 True, Guess 11 True, Guess 12 True, Guess 13 True, Guess 14 True, Guess 15 False] \<and>
   sum_list (map (guesses \<circ> fst) (guess_trace ''1.2.3.4'' [10, 11, 12, 13, 14, 15] fresh_manager)) \<le> 5"
proof -
  let ?tr = "guess_trace ''1.2.3.4'' [10, 11, 12, 13, 14, 15] fresh_manager"
  have "guess_inv ''1.2.3.4'' 10 fresh_manager" by code_simp
  moreover have "trace (guess_step ''1.2.3.4'' 10) fresh_manager ?tr" by code_simp
  ultimately have "sum_list (map (guesses \<circ> fst) ?tr) \<le> 5" by (rule five_guesses_a_minute)
  moreover have "map fst ?tr =
     [Guess 10 True, Guess 11 True, Guess 12 True, Guess 13 True, Guess 14 True, Guess 15 False]"
    by code_simp
  ultimately show ?thesis by simp
qed

end
