(* ===== verification/Shares.thy ===== *)
theory Shares
  imports Names Password Sha256 Sessions
begin

text \<open>
  The share store (\<open>shares.go\<close>, lines 19 to 515): links to a file or folder with an expiry, a
  download limit or an upload quota, and an optional password. The store is the in-memory
  slice and the contents of \<open>shares.json\<close>; every operation holds the mutex. An operation that
  saves twice takes two outcomes. Main results: the download limit and the upload quota bound
  what any execution grants (failed writes and restarts included), and a revoked link stays dead.
\<close>

subsection \<open>Data\<close>

definition shareKindLink :: string where "shareKindLink = ''link''"
definition shareKindDrop :: string where "shareKindDrop = ''drop''"
definition shareTokenBytes :: nat where "shareTokenBytes = 32"
definition dropDefaultMaxUploads :: int where "dropDefaultMaxUploads = 50"

record Share =
  Token :: string
  sharePath :: string
  shareName :: string
  IsDir :: bool
  Kind :: string
  CreatedAt :: gotime
  ExpiresAt :: "gotime option"
  MaxDownloads :: int
  DownloadCount :: int
  MaxUploads :: int
  UploadCount :: int
  CreatedBy :: string
  sharePasswordHash :: string

record shareStore =
  Shares :: "Share list"
  sharesDisk :: "Share list option"

definition sharesFrom :: "Share list option \<Rightarrow> shareStore" where
  "sharesFrom disk = \<lparr>Shares = (case disk of None \<Rightarrow> [] | Some d \<Rightarrow> d), sharesDisk = disk\<rparr>"

definition openShareStore :: "Share list diskFile \<Rightarrow> shareStore result" where
  "openShareStore file =
     (case file of
        NoFile \<Rightarrow> Inr (sharesFrom None)
      | ReadFails e \<Rightarrow> Inl e
      | EmptyFile \<Rightarrow> Inr (sharesFrom None)
      | ParseFails e \<Rightarrow> Inl (''parse shares file: '' @ e)
      | Holds d \<Rightarrow> Inr (sharesFrom (Some d)))"

definition saveLocked :: "bool \<Rightarrow> shareStore \<Rightarrow> shareStore" where
  "saveLocked ok s = (if ok then s\<lparr>sharesDisk := Some (Shares s)\<rparr> else s)"

definition save_error :: error where "save_error = ''write shares.json failed''"

subsection \<open>Expiry, tokens, cookies\<close>

definition shareKindOrLink :: "Share \<Rightarrow> string" where
  "shareKindOrLink sh = (if Kind sh = shareKindDrop then shareKindDrop else shareKindLink)"

definition shareIsDrop :: "Share \<Rightarrow> bool" where
  "shareIsDrop sh \<longleftrightarrow> shareKindOrLink sh = shareKindDrop"

definition shareExpired :: "gotime \<Rightarrow> Share \<Rightarrow> bool" where
  "shareExpired now sh \<longleftrightarrow>
     (case ExpiresAt sh of None \<Rightarrow> False | Some e \<Rightarrow> e \<noteq> 0 \<and> e < now) \<or>
     (MaxDownloads sh > 0 \<and> DownloadCount sh \<ge> MaxDownloads sh) \<or>
     (shareIsDrop sh \<and> MaxUploads sh > 0 \<and> UploadCount sh \<ge> MaxUploads sh)"

definition validShareToken :: "string \<Rightarrow> bool" where
  "validShareToken token \<longleftrightarrow> length token = shareTokenBytes * 2 \<and>
     list_all (\<lambda>c. (48 \<le> c \<and> c \<le> 57) \<or> (97 \<le> c \<and> c \<le> 102)) (runes token)"

definition shareNeedsPassword :: "Share \<Rightarrow> bool" where
  "shareNeedsPassword sh \<longleftrightarrow> sharePasswordHash sh \<noteq> []"

definition shareUnlockCookieName :: "string \<Rightarrow> string" where
  "shareUnlockCookieName token = ''dingbap_su_'' @ (if length token > 16 then take 16 token else token)"

definition shareUnlockValue :: "Share \<Rightarrow> string" where
  "shareUnlockValue sh = hex_encode (sha256_Sum256 (sharePasswordHash sh @ ''|'' @ Token sh @ ''|ok''))"

definition shareUnlocked :: "request \<Rightarrow> Share \<Rightarrow> bool" where
  "shareUnlocked r sh =
     (if \<not> shareNeedsPassword sh then True
      else case request_cookie r (shareUnlockCookieName (Token sh)) of
        None \<Rightarrow> False
      | Some v \<Rightarrow> v = shareUnlockValue sh)"

definition setShareUnlockCookie :: "unicode \<Rightarrow> sessionManager \<Rightarrow> request \<Rightarrow> Share \<Rightarrow> response \<Rightarrow> response" where
  "setShareUnlockCookie U sm r sh =
     add_cookie \<lparr>cName = shareUnlockCookieName (Token sh), cValue = shareUnlockValue sh,
       cPath = ''/s/'' @ Token sh, cHttpOnly = True, cSameSite = ''Lax'',
       cSecure = secureCookie sm \<or> rTLS r \<or> EqualFold U (rHeader r ''X-Forwarded-Proto'') ''https'',
       cMaxAge = 12 * 3600\<rparr>"

subsection \<open>Operations\<close>

definition pruneLocked :: "gotime \<Rightarrow> shareStore \<Rightarrow> shareStore" where
  "pruneLocked now s = s\<lparr>Shares := filter (\<lambda>sh. \<not> shareExpired now sh) (Shares s)\<rparr>"

definition removeIndexLocked :: "nat \<Rightarrow> shareStore \<Rightarrow> shareStore" where
  "removeIndexLocked i s = s\<lparr>Shares := remove_at i (Shares s)\<rparr>"

definition expiry_of :: "gotime \<Rightarrow> string \<Rightarrow> gotime option" where
  "expiry_of now mode = map_option (\<lambda>h. now + h * hour_ns)
     (map_of [(''24h'', 24), (''7d'', 7 * 24), (''30d'', 30 * 24)] mode)"

definition with_expiry :: "gotime \<Rightarrow> string \<Rightarrow> string \<Rightarrow> Share \<Rightarrow> Share result" where
  "with_expiry now kind mode sh =
     (if kind = shareKindDrop then
        (case expiry_of now mode of
           None \<Rightarrow> Inl ''drop shares require expiry (24h, 7d, or 30d)''
         | Some e \<Rightarrow> Inr (sh\<lparr>ExpiresAt := Some e, MaxUploads := dropDefaultMaxUploads\<rparr>))
      else
        (case expiry_of now mode of
           Some e \<Rightarrow> Inr (sh\<lparr>ExpiresAt := Some e\<rparr>)
         | None \<Rightarrow>
             (if mode = ''never'' then Inr sh
              else if mode = ''1download'' then Inr (sh\<lparr>MaxDownloads := 1\<rparr>)
              else Inl ''invalid expiry option'')))"

text \<open>The checks and the new entry, before the mutex is taken; \<open>share_create\<close> adds and saves it.\<close>

definition new_share ::
  "unicode \<Rightarrow> argon2 \<Rightarrow> fs \<Rightarrow> path_env \<Rightarrow> gotime \<Rightarrow> string option \<Rightarrow> string option \<Rightarrow>
   string \<Rightarrow> string \<Rightarrow> string \<Rightarrow> string \<Rightarrow> string \<Rightarrow> Share result"
where
  "new_share U A f env now rnd salt relPath0 createdBy mode password0 kind0 =
     (let relPath = Trim relPath0 ''/'' in
      if relPath = [] then Inl ''cannot share the storage root''
      else let kind1 = TrimSpace (ToLower U kind0);
               kind = (if kind1 = [] then shareKindLink else kind1) in
      if kind \<noteq> shareKindLink \<and> kind \<noteq> shareKindDrop then Inl ''invalid share kind''
      else case safePath f env relPath of
        Inl _ \<Rightarrow> Inl ''invalid path''
      | Inr absp \<Rightarrow>
      (case os_Stat f absp of
        Inl _ \<Rightarrow> Inl ''path not found''
      | Inr info \<Rightarrow>
      (if kind = shareKindDrop \<and> \<not> is_dir info then Inl ''drop shares require a folder''
       else case randomToken rnd of
        Inl e \<Rightarrow> Inl e
      | Inr token \<Rightarrow>
      (let sh = \<lparr>Token = token, sharePath = relPath, shareName = path_Base relPath,
                 IsDir = is_dir info, Kind = kind, CreatedAt = now, ExpiresAt = None,
                 MaxDownloads = 0, DownloadCount = 0, MaxUploads = 0, UploadCount = 0,
                 CreatedBy = createdBy, sharePasswordHash = []\<rparr>;
           password = TrimSpace password0 in
       if password = [] then with_expiry now kind mode sh
       else if length password < 4 then Inl ''share password must be at least 4 characters''
       else case hashPassword A salt password of
         Inl e \<Rightarrow> Inl e
       | Inr h \<Rightarrow> with_expiry now kind mode (sh\<lparr>sharePasswordHash := h\<rparr>)))))"

definition share_create :: "gotime \<Rightarrow> bool \<Rightarrow> Share result \<Rightarrow> shareStore \<Rightarrow> Share result \<times> shareStore" where
  "share_create now ok new s =
     (case new of
        Inl e \<Rightarrow> (Inl e, s)
      | Inr sh \<Rightarrow>
          (let s1 = pruneLocked now s; s2 = s1\<lparr>Shares := Shares s1 @ [sh]\<rparr>
           in if ok then (Inr (sh\<lparr>sharePasswordHash := []\<rparr>), saveLocked True s2)
              else (Inl save_error, s2)))"

definition share_listPublic :: "gotime \<Rightarrow> shareStore \<Rightarrow> json list \<times> shareStore" where
  "share_listPublic now s =
     (let s1 = pruneLocked now s in
      (map (\<lambda>sh. JObj [(''token'', JStr (Token sh)), (''path'', JStr (sharePath sh)),
          (''name'', JStr (shareName sh)), (''is_dir'', JBool (IsDir sh)),
          (''kind'', JStr (shareKindOrLink sh)), (''created_at'', JNum (CreatedAt sh)),
          (''expires_at'', (case ExpiresAt sh of None \<Rightarrow> JNull | Some e \<Rightarrow> JNum e)),
          (''max_downloads'', JNum (MaxDownloads sh)), (''download_count'', JNum (DownloadCount sh)),
          (''max_uploads'', JNum (MaxUploads sh)), (''upload_count'', JNum (UploadCount sh)),
          (''created_by'', JStr (CreatedBy sh)), (''has_password'', JBool (shareNeedsPassword sh))])
        (Shares s1), s1))"

definition getValid :: "gotime \<Rightarrow> gotime \<Rightarrow> bool \<Rightarrow> string \<Rightarrow> shareStore \<Rightarrow> Share result \<times> shareStore" where
  "getValid now now2 ok token s =
     (if \<not> validShareToken token then (Inl ''not found'', s)
      else let s1 = pruneLocked now s in
        case find_index (\<lambda>sh. Token sh = token) (Shares s1) of
          None \<Rightarrow> (Inl ''not found'', s1)
        | Some i \<Rightarrow>
            (if shareExpired now2 (Shares s1 ! i)
             then (Inl ''expired'', saveLocked ok (removeIndexLocked i s1))
             else (Inr (Shares s1 ! i), s1)))"

definition beginDownload ::
  "gotime \<Rightarrow> gotime \<Rightarrow> bool \<Rightarrow> bool \<Rightarrow> string \<Rightarrow> shareStore \<Rightarrow> unit result \<times> shareStore"
where
  "beginDownload now now2 ok ok2 token s =
     (if \<not> validShareToken token then (Inl ''not found'', s)
      else let s1 = pruneLocked now s in
        case find_index (\<lambda>sh. Token sh = token) (Shares s1) of
          None \<Rightarrow> (Inl ''not found'', s1)
        | Some i \<Rightarrow>
            (let sh = Shares s1 ! i in
             if shareIsDrop sh then (Inl ''not a download share'', s1)
             else if shareExpired now2 sh then (Inl ''expired'', saveLocked ok (removeIndexLocked i s1))
             else if MaxDownloads sh > 0 \<and> DownloadCount sh \<ge> MaxDownloads sh
             then (Inl ''expired'', saveLocked ok (removeIndexLocked i s1))
             else let sh' = sh\<lparr>DownloadCount := DownloadCount sh + 1\<rparr>;
                      hitLimit = (MaxDownloads sh' > 0 \<and> DownloadCount sh' \<ge> MaxDownloads sh');
                      s2 = s1\<lparr>Shares := (Shares s1)[i := sh']\<rparr>
                  in if \<not> ok then (Inl save_error, s1)
                     else if hitLimit
                     then (Inr (), saveLocked ok2 (removeIndexLocked i (saveLocked True s2)))
                     else (Inr (), saveLocked True s2)))"

definition revoke :: "bool \<Rightarrow> string \<Rightarrow> shareStore \<Rightarrow> bool \<times> shareStore" where
  "revoke ok token s =
     (case find_index (\<lambda>sh. Token sh = token) (Shares s) of
        None \<Rightarrow> (False, s)
      | Some i \<Rightarrow> (True, saveLocked ok (removeIndexLocked i s)))"

definition under_prefix :: "string \<Rightarrow> string \<Rightarrow> bool" where
  "under_prefix rel p \<longleftrightarrow> p = rel \<or> HasPrefix p (rel @ ''/'')"

definition removeByPathPrefix :: "bool \<Rightarrow> string \<Rightarrow> shareStore \<Rightarrow> shareStore" where
  "removeByPathPrefix ok rel0 s =
     (let rel = Trim rel0 ''/'';
          filtered = filter (\<lambda>sh. \<not> under_prefix rel (sharePath sh)) (Shares s)
      in if length filtered \<noteq> length (Shares s) then saveLocked ok (s\<lparr>Shares := filtered\<rparr>) else s)"

definition rewrite_share :: "string \<Rightarrow> string \<Rightarrow> Share \<Rightarrow> Share" where
  "rewrite_share oldRel newRel sh =
     (if sharePath sh = oldRel then sh\<lparr>sharePath := newRel, shareName := path_Base newRel\<rparr>
      else if HasPrefix (sharePath sh) (oldRel @ ''/'')
      then (let p = newRel @ drop (length oldRel) (sharePath sh)
            in sh\<lparr>sharePath := p, shareName := path_Base p\<rparr>)
      else sh)"

definition rewritePathPrefix :: "bool \<Rightarrow> string \<Rightarrow> string \<Rightarrow> shareStore \<Rightarrow> shareStore" where
  "rewritePathPrefix ok oldRel0 newRel0 s =
     (let oldRel = Trim oldRel0 ''/''; newRel = Trim newRel0 ''/'';
          s' = s\<lparr>Shares := map (rewrite_share oldRel newRel) (Shares s)\<rparr>
      in if list_ex (\<lambda>sh. under_prefix oldRel (sharePath sh)) (Shares s) then saveLocked ok s' else s)"

definition beginUpload :: "gotime \<Rightarrow> gotime \<Rightarrow> bool \<Rightarrow> string \<Rightarrow> shareStore \<Rightarrow> unit result \<times> shareStore" where
  "beginUpload now now2 ok token s =
     (if \<not> validShareToken token then (Inl ''not found'', s)
      else let s1 = pruneLocked now s in
        case find_index (\<lambda>sh. Token sh = token) (Shares s1) of
          None \<Rightarrow> (Inl ''not found'', s1)
        | Some i \<Rightarrow>
            (let sh = Shares s1 ! i in
             if \<not> shareIsDrop sh then (Inl ''not a drop share'', s1)
             else if shareExpired now2 sh then (Inl ''expired'', saveLocked ok (removeIndexLocked i s1))
             else if MaxUploads sh > 0 \<and> UploadCount sh \<ge> MaxUploads sh
             then (Inl ''expired'', saveLocked ok (removeIndexLocked i s1))
             else let s2 = s1\<lparr>Shares := (Shares s1)[i := sh\<lparr>UploadCount := UploadCount sh + 1\<rparr>]\<rparr>
                  in (if ok then Inr () else Inl save_error, saveLocked ok s2)))"

definition undoUpload :: "bool \<Rightarrow> string \<Rightarrow> shareStore \<Rightarrow> shareStore" where
  "undoUpload ok token s =
     (if \<not> validShareToken token then s
      else case find_index (\<lambda>sh. Token sh = token) (Shares s) of
        None \<Rightarrow> s
      | Some i \<Rightarrow>
          (let sh = Shares s ! i in
           if UploadCount sh > 0
           then saveLocked ok (s\<lparr>Shares := (Shares s)[i := sh\<lparr>UploadCount := UploadCount sh - 1\<rparr>]\<rparr>)
           else s))"

subsection \<open>Executions\<close>

datatype share_op =
    ShCreate gotime bool "Share result"
  | ShList gotime
  | ShGet gotime gotime bool string
  | ShDownload gotime gotime bool bool string
  | ShRevoke bool string
  | ShRemove bool string
  | ShRewrite bool string string
  | ShUpload gotime gotime bool string
  | ShUndo bool string
  | ShRestart

text \<open>The outcome of an operation: whether it succeeded, and the store.\<close>

fun run_share_op :: "share_op \<Rightarrow> shareStore \<Rightarrow> bool \<times> shareStore" where
  "run_share_op (ShCreate now ok new) s = map_prod is_ok (\<lambda>t. t) (share_create now ok new s)"
| "run_share_op (ShList now) s = (True, snd (share_listPublic now s))"
| "run_share_op (ShGet now now2 ok tok) s = map_prod is_ok (\<lambda>t. t) (getValid now now2 ok tok s)"
| "run_share_op (ShDownload now now2 ok ok2 tok) s =
     map_prod is_ok (\<lambda>t. t) (beginDownload now now2 ok ok2 tok s)"
| "run_share_op (ShRevoke ok tok) s = revoke ok tok s"
| "run_share_op (ShRemove ok rel) s = (True, removeByPathPrefix ok rel s)"
| "run_share_op (ShRewrite ok a b) s = (True, rewritePathPrefix ok a b s)"
| "run_share_op (ShUpload now now2 ok tok) s = map_prod is_ok (\<lambda>t. t) (beginUpload now now2 ok tok s)"
| "run_share_op (ShUndo ok tok) s = (True, undoUpload ok tok s)"
| "run_share_op ShRestart s = (True, sharesFrom (sharesDisk s))"

text \<open>The entry an operation adds.\<close>

fun created_share :: "share_op \<Rightarrow> Share option" where
  "created_share (ShCreate now ok (Inr sh)) = Some sh"
| "created_share _ = None"

subsection \<open>Predicates on the entries\<close>

definition all_shares :: "(Share \<Rightarrow> bool) \<Rightarrow> shareStore \<Rightarrow> bool" where
  "all_shares P s \<longleftrightarrow> list_all P (Shares s) \<and>
     (case sharesDisk s of None \<Rightarrow> True | Some d \<Rightarrow> list_all P d)"

text \<open>A predicate the operations cannot falsify: it does not look at the counters, the path or the name.\<close>

definition robust :: "(Share \<Rightarrow> bool) \<Rightarrow> bool" where
  "robust P \<longleftrightarrow> (\<forall>sh n. P sh \<longrightarrow> P (sh\<lparr>DownloadCount := n\<rparr>) \<and> P (sh\<lparr>UploadCount := n\<rparr>)) \<and>
     (\<forall>sh a b. P sh \<longrightarrow> P (rewrite_share a b sh))"

lemma list_all_remove_at: "list_all P xs \<Longrightarrow> list_all P (remove_at i xs)"
  using set_remove_at_subset [of i xs] by (auto simp: list_all_iff)

lemma list_all_update: "list_all P xs \<Longrightarrow> P y \<Longrightarrow> list_all P (xs[i := y])"
  by (auto simp: list_all_iff dest: subsetD [OF set_update_subset_insert])

lemma all_shares_save: "all_shares P s \<Longrightarrow> all_shares P (saveLocked ok s)"
  by (auto simp: all_shares_def saveLocked_def)

lemma all_shares_mem: "all_shares P s \<Longrightarrow> list_all P xs \<Longrightarrow> all_shares P (s\<lparr>Shares := xs\<rparr>)"
  by (auto simp: all_shares_def)

lemma all_shares_list: "all_shares P s \<Longrightarrow> list_all P (Shares s)"
  by (simp add: all_shares_def)

lemma all_shares_prune: "all_shares P s \<Longrightarrow> all_shares P (pruneLocked now s)"
  by (auto simp: all_shares_def pruneLocked_def list_all_iff)

lemma all_shares_removeIndex: "all_shares P s \<Longrightarrow> all_shares P (removeIndexLocked i s)"
  by (auto simp: removeIndexLocked_def all_shares_list intro!: all_shares_mem list_all_remove_at)

lemma all_shares_update:
  "all_shares P s \<Longrightarrow> P y \<Longrightarrow> all_shares P (s\<lparr>Shares := (Shares s)[i := y]\<rparr>)"
  by (auto simp: all_shares_list intro!: all_shares_mem list_all_update)

lemma all_shares_nth:
  "all_shares P s \<Longrightarrow> find_index q (Shares s) = Some i \<Longrightarrow> P (Shares s ! i)"
  by (drule find_index_SomeD(1), drule all_shares_list) (simp add: list_all_length)

lemmas all_shares_intros = all_shares_save all_shares_prune all_shares_removeIndex all_shares_update

lemma all_shares_download:
  assumes "robust P" "all_shares P s"
  shows "all_shares P (snd (beginDownload now now2 ok ok2 tok s))"
  using assms all_shares_nth [OF all_shares_prune [OF assms(2), of now]]
  by (auto simp: beginDownload_def Let_def robust_def split: option.splits intro!: all_shares_intros)

lemma all_shares_upload:
  assumes "robust P" "all_shares P s"
  shows "all_shares P (snd (beginUpload now now2 ok tok s))"
  using assms all_shares_nth [OF all_shares_prune [OF assms(2), of now]]
  by (auto simp: beginUpload_def Let_def robust_def split: option.splits intro!: all_shares_intros)

lemma all_shares_rewrite:
  assumes "robust P" "all_shares P s"
  shows "all_shares P (rewritePathPrefix ok a b s)"
  using assms
  by (auto simp: rewritePathPrefix_def Let_def robust_def list_all_iff all_shares_def saveLocked_def
      split: option.splits)

lemma all_shares_create:
  "all_shares P s \<Longrightarrow> P sh \<Longrightarrow> all_shares P (snd (share_create now ok (Inr sh) s))"
  using all_shares_prune [of P s now]
  by (auto simp: share_create_def Let_def all_shares_list intro!: all_shares_save all_shares_mem)

lemma all_shares_get: "all_shares P s \<Longrightarrow> all_shares P (snd (getValid now now2 ok tok s))"
  by (auto simp: getValid_def Let_def split: option.splits intro!: all_shares_intros)

lemma all_shares_revoke: "all_shares P s \<Longrightarrow> all_shares P (snd (revoke ok tok s))"
  by (auto simp: revoke_def split: option.splits intro!: all_shares_intros)

lemma all_shares_removePrefix: "all_shares P s \<Longrightarrow> all_shares P (removeByPathPrefix ok rel s)"
  by (auto simp: removeByPathPrefix_def Let_def all_shares_def saveLocked_def list_all_iff split: option.splits)

lemma all_shares_undo: "robust P \<Longrightarrow> all_shares P s \<Longrightarrow> all_shares P (undoUpload ok tok s)"
  using all_shares_nth [of P s]
  by (auto simp: undoUpload_def Let_def robust_def split: option.splits intro!: all_shares_intros)

lemma all_shares_restart: "all_shares P s \<Longrightarrow> all_shares P (sharesFrom (sharesDisk s))"
  by (auto simp: all_shares_def sharesFrom_def split: option.splits)

lemmas all_shares_ops = all_shares_create all_shares_get all_shares_revoke all_shares_removePrefix
  all_shares_undo all_shares_restart all_shares_prune all_shares_download all_shares_upload all_shares_rewrite

lemma run_share_op_entries:
  assumes "robust P" "all_shares P s" "\<And>sh. created_share a = Some sh \<Longrightarrow> P sh"
  shows "all_shares P (snd (run_share_op a s))"
proof (cases a)
  case (ShCreate now ok new)
  with assms show ?thesis
    by (cases new) (auto simp: snd_map_prod all_shares_create, simp add: share_create_def)
qed (use assms(1,2) in \<open>simp_all add: share_listPublic_def Let_def all_shares_ops\<close>)

definition share_step :: "(Share \<Rightarrow> bool) \<Rightarrow> shareStore \<Rightarrow> share_op \<times> bool \<Rightarrow> shareStore \<Rightarrow> bool" where
  "share_step P s e s' \<longleftrightarrow> run_share_op (fst e) s = (snd e, s') \<and>
     (case created_share (fst e) of None \<Rightarrow> True | Some sh \<Rightarrow> P sh)"

definition share_inv :: "(Share \<Rightarrow> bool) \<Rightarrow> shareStore \<Rightarrow> bool" where
  "share_inv P s \<longleftrightarrow> robust P \<and> all_shares P s"

lemma share_step_inv: "share_step P s e s' \<Longrightarrow> share_inv P s \<Longrightarrow> share_inv P s'"
  using run_share_op_entries [of P s "fst e"]
  unfolding share_step_def share_inv_def by (metis option.simps(5) snd_conv)

interpretation sharem: invariant_machine "share_step P" "share_inv P" for P
  by unfold_locales (rule share_step_inv)

subsection \<open>Budgets\<close>

text \<open>What is left of a link's downloads, and of a drop's uploads.\<close>

definition downloads_left :: "string \<Rightarrow> Share \<Rightarrow> nat" where
  "downloads_left tok sh = (if Token sh = tok then nat (MaxDownloads sh - DownloadCount sh) else 0)"

definition uploads_left :: "string \<Rightarrow> Share \<Rightarrow> nat" where
  "uploads_left tok sh = (if Token sh = tok then nat (MaxUploads sh - UploadCount sh) else 0)"

definition total :: "(Share \<Rightarrow> nat) \<Rightarrow> Share list \<Rightarrow> nat" where
  "total w xs = sum_list (map w xs)"

text \<open>Memory and file both stay within a budget; \<open>share_budget\<close> is the least one.\<close>

definition within :: "(Share \<Rightarrow> nat) \<Rightarrow> nat \<Rightarrow> shareStore \<Rightarrow> bool" where
  "within w b s \<longleftrightarrow> total w (Shares s) \<le> b \<and>
     (case sharesDisk s of None \<Rightarrow> True | Some d \<Rightarrow> total w d \<le> b)"

definition share_budget :: "(Share \<Rightarrow> nat) \<Rightarrow> shareStore \<Rightarrow> nat" where
  "share_budget w s = max (total w (Shares s)) (case sharesDisk s of None \<Rightarrow> 0 | Some d \<Rightarrow> total w d)"

lemma within_budget: "within w b s \<longleftrightarrow> share_budget w s \<le> b"
  by (cases "sharesDisk s") (simp_all add: within_def share_budget_def)

lemma total_filter: "total w (filter P xs) \<le> total w xs"
  by (induction xs) (auto simp: total_def)

lemma total_append [simp]: "total w (xs @ ys) = total w xs + total w ys"
  by (simp add: total_def)

lemma total_update: "i < length xs \<Longrightarrow> total w (xs[i := y]) + w (xs ! i) = total w xs + w y"
proof (induction xs arbitrary: i)
  case (Cons x xs)
  then show ?case by (cases i) (auto simp: total_def)
qed simp

lemma total_remove_at: "total w (remove_at i xs) \<le> total w xs"
proof (cases "i < length xs")
  case True
  have "total w xs = total w (take i xs @ xs ! i # drop (Suc i) xs)"
    using True by (simp only: mset_split_at)
  then show ?thesis by (simp add: remove_at_def total_def)
qed (simp add: remove_at_def)

lemma within_save: "within w b s \<Longrightarrow> within w b (saveLocked ok s)"
  by (simp add: within_def saveLocked_def)

lemma within_saved: "total w (Shares s) \<le> b \<Longrightarrow> within w b (saveLocked True s)"
  by (simp add: within_def saveLocked_def)

lemma within_mem: "within w b s \<Longrightarrow> total w xs \<le> b \<Longrightarrow> within w b (s\<lparr>Shares := xs\<rparr>)"
  by (simp add: within_def)

lemma within_total: "within w b s \<Longrightarrow> total w (Shares s) \<le> b"
  by (simp add: within_def)

lemma within_prune: "within w b s \<Longrightarrow> within w b (pruneLocked now s)"
  using total_filter within_total by (fastforce simp: pruneLocked_def intro!: within_mem intro: order.trans)

lemma within_removeIndex: "within w b s \<Longrightarrow> within w b (removeIndexLocked i s)"
  unfolding removeIndexLocked_def
  by (rule within_mem, assumption, rule order.trans [OF total_remove_at], erule within_total)

lemma within_mono: "within w b s \<Longrightarrow> b \<le> c \<Longrightarrow> within w c s"
  by (auto simp: within_budget)

lemmas within_intros = within_save within_prune within_removeIndex

text \<open>The operations that grant nothing keep every budget.\<close>

lemma within_get: "within w b s \<Longrightarrow> within w b (snd (getValid now now2 ok tok s))"
  by (auto simp: getValid_def Let_def split: option.splits intro!: within_intros)

lemma within_revoke: "within w b s \<Longrightarrow> within w b (snd (revoke ok tok s))"
  by (auto simp: revoke_def split: option.splits intro!: within_intros)

lemma within_removePrefix: "within w b s \<Longrightarrow> within w b (removeByPathPrefix ok rel s)"
  by (auto simp: removeByPathPrefix_def Let_def intro!: within_save within_mem
      intro: order.trans [OF total_filter within_total])

lemma within_rewrite:
  assumes "\<And>sh x y. w (rewrite_share x y sh) = w sh" "within w b s"
  shows "within w b (rewritePathPrefix ok x y s)"
proof -
  have "total w (map (rewrite_share x y) (Shares s)) = total w (Shares s)" for x y
    using assms(1) by (simp add: total_def o_def)
  then show ?thesis using assms(2)
    by (auto simp: rewritePathPrefix_def Let_def within_total intro!: within_save within_mem)
qed

lemma within_create:
  assumes "within w b s" "w sh = 0"
  shows "within w b (snd (share_create now ok (Inr sh) s))"
  using assms within_prune [OF assms(1), of now]
  by (auto simp: share_create_def Let_def total_def within_total intro!: within_save within_mem)
    (metis total_def within_total)+

lemma within_restart: "within w b s \<Longrightarrow> within w b (sharesFrom (sharesDisk s))"
  by (auto simp: within_def sharesFrom_def total_def split: option.splits)

lemma within_update_le:
  assumes "within w b s" "i < length (Shares s)" "w y \<le> w (Shares s ! i)"
  shows "within w b (s\<lparr>Shares := (Shares s)[i := y]\<rparr>)"
  using assms total_update [OF assms(2), of w y] within_total [OF assms(1)]
  by (intro within_mem) auto

lemma within_pay:
  assumes "within w b s" "i < length (Shares s)" "w (Shares s ! i) = Suc (w y)"
  shows "0 < b" and "within w (b - 1) (saveLocked True (s\<lparr>Shares := (Shares s)[i := y]\<rparr>))"
proof -
  have t: "total w ((Shares s)[i := y]) + 1 = total w (Shares s)"
    using total_update [OF assms(2), of w y] assms(3) by simp
  then show "0 < b" using within_total [OF assms(1)] by simp
  show "within w (b - 1) (saveLocked True (s\<lparr>Shares := (Shares s)[i := y]\<rparr>))"
    using t within_total [OF assms(1)] by (intro within_saved) simp
qed

text \<open>A successful \<open>beginDownload\<close> of \<open>tok\<close> pays one download; any other call pays nothing.\<close>

lemma downloads_rewrite: "downloads_left tok (rewrite_share a b sh) = downloads_left tok sh"
  by (simp add: downloads_left_def rewrite_share_def Let_def)

lemma uploads_rewrite: "uploads_left tok (rewrite_share a b sh) = uploads_left tok sh"
  by (simp add: uploads_left_def rewrite_share_def Let_def)

definition has_limit :: "string \<Rightarrow> Share \<Rightarrow> bool" where
  "has_limit tok sh \<longleftrightarrow> Token sh = tok \<longrightarrow> MaxDownloads sh > 0"

definition has_quota :: "string \<Rightarrow> Share \<Rightarrow> bool" where
  "has_quota tok sh \<longleftrightarrow> Token sh = tok \<longrightarrow> MaxUploads sh > 0"

lemma robust_limits: "robust (has_limit tok)" "robust (has_quota tok)" "robust (\<lambda>sh. Token sh \<noteq> tok)"
  by (auto simp: robust_def has_limit_def has_quota_def rewrite_share_def Let_def)

lemma within_download:
  assumes "within (downloads_left tok) b s" "all_shares (has_limit tok) s"
    and "beginDownload now now2 ok ok2 tok' s = (r, s')"
  shows "within (downloads_left tok) b s'"
    and "is_ok r \<Longrightarrow> tok' = tok \<Longrightarrow> 0 < b \<and> within (downloads_left tok) (b - 1) s'"
proof -
  let ?w = "downloads_left tok" and ?s1 = "pruneLocked now s"
  have w1: "within ?w b ?s1" by (rule within_prune [OF assms(1)])
  show "within ?w b s'"
  proof (cases "find_index (\<lambda>sh. Token sh = tok') (Shares ?s1)")
    case None
    with assms(1,3) w1 show ?thesis by (auto simp: beginDownload_def Let_def split: if_splits)
  next
    case (Some i)
    let ?sh' = "(Shares ?s1 ! i)\<lparr>DownloadCount := DownloadCount (Shares ?s1 ! i) + 1\<rparr>"
    have "?w ?sh' \<le> ?w (Shares ?s1 ! i)" by (auto simp: downloads_left_def)
    then have "within ?w b (?s1\<lparr>Shares := (Shares ?s1)[i := ?sh']\<rparr>)"
      using find_index_SomeD(1) [OF Some] w1 by (intro within_update_le)
    with assms(1,3) w1 Some show ?thesis
      by (auto simp: beginDownload_def Let_def split: if_splits intro!: within_intros)
  qed
  assume r: "is_ok r" and tt: "tok' = tok"
  from assms(3) r obtain i where i: "find_index (\<lambda>sh. Token sh = tok') (Shares ?s1) = Some i"
    by (cases "find_index (\<lambda>sh. Token sh = tok') (Shares ?s1)")
      (auto simp: beginDownload_def Let_def split: if_splits)
  let ?sh = "Shares ?s1 ! i"
  let ?sh' = "?sh\<lparr>DownloadCount := DownloadCount ?sh + 1\<rparr>"
  let ?s2 = "?s1\<lparr>Shares := (Shares ?s1)[i := ?sh']\<rparr>"
  from assms(3) r i have ok: "\<not> (MaxDownloads ?sh > 0 \<and> DownloadCount ?sh \<ge> MaxDownloads ?sh)"
    and s': "s' = saveLocked True ?s2 \<or> s' = saveLocked ok2 (removeIndexLocked i (saveLocked True ?s2))"
    by (auto simp: beginDownload_def Let_def split: if_splits)
  have tok: "Token ?sh = tok" using find_index_SomeD(2) [OF i] tt by simp
  have max: "MaxDownloads ?sh > 0"
    using all_shares_nth [OF all_shares_prune [OF assms(2), of now] i] tok by (simp add: has_limit_def)
  have w: "?w ?sh = Suc (?w ?sh')" using tok max ok by (simp add: downloads_left_def)
  note pay = within_pay [OF w1 find_index_SomeD(1) [OF i], of ?sh', OF w]
  with s' show "0 < b \<and> within ?w (b - 1) s'" by (auto intro!: within_intros)
qed

lemma within_upload:
  assumes "within (uploads_left tok) b s" "all_shares (has_quota tok) s"
    and "beginUpload now now2 ok tok' s = (r, s')"
  shows "within (uploads_left tok) b s'"
    and "is_ok r \<Longrightarrow> tok' = tok \<Longrightarrow> 0 < b \<and> within (uploads_left tok) (b - 1) s'"
proof -
  let ?w = "uploads_left tok" and ?s1 = "pruneLocked now s"
  have w1: "within ?w b ?s1" by (rule within_prune [OF assms(1)])
  show "within ?w b s'"
  proof (cases "find_index (\<lambda>sh. Token sh = tok') (Shares ?s1)")
    case None
    with assms(1,3) w1 show ?thesis by (auto simp: beginUpload_def Let_def split: if_splits)
  next
    case (Some i)
    let ?sh' = "(Shares ?s1 ! i)\<lparr>UploadCount := UploadCount (Shares ?s1 ! i) + 1\<rparr>"
    have "?w ?sh' \<le> ?w (Shares ?s1 ! i)" by (auto simp: uploads_left_def)
    then have "within ?w b (?s1\<lparr>Shares := (Shares ?s1)[i := ?sh']\<rparr>)"
      using find_index_SomeD(1) [OF Some] w1 by (intro within_update_le)
    with assms(1,3) w1 Some show ?thesis
      by (auto simp: beginUpload_def Let_def split: if_splits intro!: within_intros)
  qed
  assume r: "is_ok r" and tt: "tok' = tok"
  from assms(3) r obtain i where i: "find_index (\<lambda>sh. Token sh = tok') (Shares ?s1) = Some i"
    by (cases "find_index (\<lambda>sh. Token sh = tok') (Shares ?s1)")
      (auto simp: beginUpload_def Let_def split: if_splits)
  let ?sh = "Shares ?s1 ! i"
  let ?sh' = "?sh\<lparr>UploadCount := UploadCount ?sh + 1\<rparr>"
  let ?s2 = "?s1\<lparr>Shares := (Shares ?s1)[i := ?sh']\<rparr>"
  from assms(3) r i have ok: "\<not> (MaxUploads ?sh > 0 \<and> UploadCount ?sh \<ge> MaxUploads ?sh)"
    and s': "s' = saveLocked True ?s2"
    by (auto simp: beginUpload_def Let_def split: if_splits)
  have tok: "Token ?sh = tok" using find_index_SomeD(2) [OF i] tt by simp
  have max: "MaxUploads ?sh > 0"
    using all_shares_nth [OF all_shares_prune [OF assms(2), of now] i] tok by (simp add: has_quota_def)
  have w: "?w ?sh = Suc (?w ?sh')" using tok max ok by (simp add: uploads_left_def)
  note pay = within_pay [OF w1 find_index_SomeD(1) [OF i], of ?sh', OF w]
  with s' show "0 < b \<and> within ?w (b - 1) s'" by simp
qed

subsection \<open>Every execution stays within the limit of a link\<close>

definition no_new :: "string \<Rightarrow> share_op \<Rightarrow> bool" where
  "no_new tok a = (case created_share a of None \<Rightarrow> True | Some sh \<Rightarrow> Token sh \<noteq> tok)"

definition token_step :: "string \<Rightarrow> shareStore \<Rightarrow> share_op \<times> bool \<Rightarrow> shareStore \<Rightarrow> bool" where
  "token_step tok s e s' \<longleftrightarrow> run_share_op (fst e) s = (snd e, s') \<and> no_new tok (fst e)"

fun grants_download :: "string \<Rightarrow> share_op \<times> bool \<Rightarrow> nat" where
  "grants_download tok (ShDownload _ _ _ _ tok', g) = (if tok' = tok \<and> g then 1 else 0)"
| "grants_download tok _ = 0"

fun grants_upload :: "string \<Rightarrow> share_op \<times> bool \<Rightarrow> nat" where
  "grants_upload tok (ShUpload _ _ _ tok', g) = (if tok' = tok \<and> g then 1 else 0)"
| "grants_upload tok _ = 0"

fun undoes_upload :: "string \<Rightarrow> share_op \<times> bool \<Rightarrow> nat" where
  "undoes_upload tok (ShUndo _ tok', g) = (if tok' = tok then 1 else 0)"
| "undoes_upload tok _ = 0"

lemma token_step_inv:
  assumes "token_step tok s e s'" "share_inv P s" "\<And>sh. Token sh \<noteq> tok \<Longrightarrow> P sh"
  shows "share_inv P s'"
proof -
  have "share_step P s e s'"
    using assms(1,3) by (auto simp: token_step_def share_step_def no_new_def split: option.splits)
  then show ?thesis using assms(2) by (rule share_step_inv)
qed

lemma within_other_ops:
  assumes "within w b s" "no_new tok a" "\<And>sh. Token sh \<noteq> tok \<Longrightarrow> w sh = 0"
    and "\<And>sh x y. w (rewrite_share x y sh) = w sh"
    and "\<And>n n2 ok ok2 t. a \<noteq> ShDownload n n2 ok ok2 t" "\<And>n n2 ok t. a \<noteq> ShUpload n n2 ok t"
      "\<And>ok t. a \<noteq> ShUndo ok t"
  shows "within w b (snd (run_share_op a s))"
proof (cases a)
  case (ShCreate now ok new)
  show ?thesis
  proof (cases new)
    case (Inl e)
    with ShCreate assms(1) show ?thesis by (simp add: share_create_def)
  next
    case (Inr sh)
    with ShCreate assms(2,3) have "w sh = 0" by (simp add: no_new_def)
    with ShCreate Inr assms(1) show ?thesis by (simp add: within_create)
  qed
qed (use assms in \<open>simp_all add: share_listPublic_def Let_def within_get within_revoke
      within_removePrefix within_rewrite within_restart within_prune\<close>)

lemma find_index_update_weight:
  assumes "within w b s" "\<And>sh n. w (upd n sh) \<le> w sh"
    and "find_index q (Shares s) = Some i"
  shows "within w b (s\<lparr>Shares := (Shares s)[i := upd n (Shares s ! i)]\<rparr>)"
  using assms by (intro within_update_le) (auto dest: find_index_SomeD(1))

lemma downloads_other:
  assumes "within (downloads_left tok) b s"
  shows "within (downloads_left tok) b (snd (beginUpload now now2 ok t s))"
    and "within (downloads_left tok) b (undoUpload ok t s)"
proof -
  have u: "downloads_left tok (sh\<lparr>UploadCount := n\<rparr>) \<le> downloads_left tok sh" for sh n
    by (simp add: downloads_left_def)
  have p: "within (downloads_left tok) b (pruneLocked now s)" by (rule within_prune [OF assms])
  note upd = find_index_update_weight [where upd = "\<lambda>n sh. sh\<lparr>UploadCount := n\<rparr>", OF _ u]
  show "within (downloads_left tok) b (snd (beginUpload now now2 ok t s))"
    using assms p by (auto simp: beginUpload_def Let_def split: option.splits intro!: within_intros upd)
  show "within (downloads_left tok) b (undoUpload ok t s)"
    using assms by (auto simp: undoUpload_def Let_def split: option.splits intro!: within_intros upd)
qed

lemma uploads_other:
  assumes "within (uploads_left tok) b s"
  shows "within (uploads_left tok) b (snd (beginDownload now now2 ok ok2 t s))"
proof -
  have u: "uploads_left tok (sh\<lparr>DownloadCount := n\<rparr>) \<le> uploads_left tok sh" for sh n
    by (simp add: uploads_left_def)
  have p: "within (uploads_left tok) b (pruneLocked now s)" by (rule within_prune [OF assms])
  note upd = find_index_update_weight [where upd = "\<lambda>n sh. sh\<lparr>DownloadCount := n\<rparr>", OF _ u]
  show ?thesis
    using assms p by (auto simp: beginDownload_def Let_def split: option.splits intro!: within_intros upd)
qed

lemma uploads_undo:
  assumes "within (uploads_left tok) b s"
  shows "within (uploads_left tok) (b + (if t = tok then 1 else 0)) (undoUpload ok t s)"
proof (cases "find_index (\<lambda>sh. Token sh = t) (Shares s)")
  case None
  with assms show ?thesis by (auto simp: undoUpload_def intro: within_mono)
next
  case (Some i)
  let ?y = "(Shares s ! i)\<lparr>UploadCount := UploadCount (Shares s ! i) - 1\<rparr>"
  have "uploads_left tok ?y \<le> uploads_left tok (Shares s ! i) + (if t = tok then 1 else 0)"
    using find_index_SomeD(2) [OF Some] by (auto simp: uploads_left_def)
  then have "total (uploads_left tok) ((Shares s)[i := ?y]) \<le> b + (if t = tok then 1 else 0)"
    using total_update [OF find_index_SomeD(1) [OF Some], of "uploads_left tok" ?y] within_total [OF assms]
    by linarith
  then have "within (uploads_left tok) (b + (if t = tok then 1 else 0)) (s\<lparr>Shares := (Shares s)[i := ?y]\<rparr>)"
    using assms by (intro within_mem) (auto intro: within_mono)
  with Some assms show ?thesis
    by (auto simp: undoUpload_def Let_def intro!: within_save intro: within_mono)
qed

lemma left_zero:
  "Token sh \<noteq> tok \<Longrightarrow> downloads_left tok sh = 0"
  "Token sh \<noteq> tok \<Longrightarrow> uploads_left tok sh = 0"
  by (simp_all add: downloads_left_def uploads_left_def)

lemma download_budget:
  assumes "token_step tok s e s'" "share_inv (has_limit tok) s"
  shows "grants_download tok e + share_budget (downloads_left tok) s' \<le> share_budget (downloads_left tok) s"
proof -
  let ?b = "share_budget (downloads_left tok) s"
  obtain a g where e: "e = (a, g)" by (cases e)
  have run: "run_share_op a s = (g, s')" and nn: "no_new tok a"
    using assms(1) e by (auto simp: token_step_def)
  have w: "within (downloads_left tok) ?b s" by (simp add: within_budget)
  have al: "all_shares (has_limit tok) s" using assms(2) by (simp add: share_inv_def)
  show ?thesis
  proof (cases "\<exists>n n2 ok ok2 t. a = ShDownload n n2 ok ok2 t")
    case True
    then obtain n n2 ok ok2 t where a: "a = ShDownload n n2 ok ok2 t" by blast
    obtain r where r: "beginDownload n n2 ok ok2 t s = (r, s')" "g = is_ok r"
      using run a by (auto simp: map_prod_def split: prod.splits)
    from within_download [OF w al r(1)] r(2) a e show ?thesis
      by (cases "t = tok \<and> is_ok r") (auto simp: within_budget)
  next
    case False
    have "within (downloads_left tok) ?b (snd (run_share_op a s))"
    proof (cases "(\<exists>n n2 ok t. a = ShUpload n n2 ok t) \<or> (\<exists>ok t. a = ShUndo ok t)")
      case True
      then show ?thesis using downloads_other [OF w] by auto
    next
      case other: False
      show ?thesis
        by (rule within_other_ops [OF w nn left_zero(1) downloads_rewrite]) (use False other in auto)
    qed
    moreover have "grants_download tok (a, g) = 0" using False by (cases a) auto
    ultimately show ?thesis using run e by (simp add: within_budget)
  qed
qed

lemma upload_budget:
  assumes "token_step tok s e s'" "share_inv (has_quota tok) s"
  shows "grants_upload tok e + share_budget (uploads_left tok) s' \<le>
    share_budget (uploads_left tok) s + undoes_upload tok e"
proof -
  let ?b = "share_budget (uploads_left tok) s"
  obtain a g where e: "e = (a, g)" by (cases e)
  have run: "run_share_op a s = (g, s')" and nn: "no_new tok a"
    using assms(1) e by (auto simp: token_step_def)
  have w: "within (uploads_left tok) ?b s" by (simp add: within_budget)
  have al: "all_shares (has_quota tok) s" using assms(2) by (simp add: share_inv_def)
  have other: "within (uploads_left tok) ?b s'"
    if "\<And>n n2 ok ok2 t. a \<noteq> ShDownload n n2 ok ok2 t" "\<And>n n2 ok t. a \<noteq> ShUpload n n2 ok t"
      "\<And>ok t. a \<noteq> ShUndo ok t"
    using within_other_ops [OF w nn left_zero(2) uploads_rewrite that] run by simp
  show ?thesis
  proof (cases a)
    case (ShUpload n n2 ok t)
    obtain r where r: "beginUpload n n2 ok t s = (r, s')" "g = is_ok r"
      using run ShUpload by (auto simp: map_prod_def split: prod.splits)
    from within_upload [OF w al r(1)] r(2) ShUpload e show ?thesis
      by (cases "t = tok \<and> is_ok r") (auto simp: within_budget)
  next
    case (ShUndo ok t)
    with run e uploads_undo [OF w, of t ok] show ?thesis by (auto simp: within_budget)
  next
    case (ShDownload n n2 ok ok2 t)
    with run have "s' = snd (beginDownload n n2 ok ok2 t s)"
      by (cases "beginDownload n n2 ok ok2 t s") simp
    with ShDownload e uploads_other [OF w, of n n2 ok ok2 t] show ?thesis
      by (simp add: within_budget)
  qed (use other run e in \<open>simp_all add: within_budget\<close>)
qed

interpretation downloads: quota_machine "token_step tok" "share_inv (has_limit tok)"
    "grants_download tok" "\<lambda>_. 0" "share_budget (downloads_left tok)" for tok
  by unfold_locales (auto simp: has_limit_def intro: token_step_inv dest: download_budget)

interpretation uploads: quota_machine "token_step tok" "share_inv (has_quota tok)"
    "grants_upload tok" "undoes_upload tok" "share_budget (uploads_left tok)" for tok
  by unfold_locales (auto simp: has_quota_def intro: token_step_inv dest: upload_budget)

lemma robust_all: "all_shares P s \<Longrightarrow> robust P \<Longrightarrow> share_inv P s"
  by (simp add: share_inv_def)

lemma total_none: "\<forall>sh\<in>set xs. Token sh \<noteq> tok \<Longrightarrow> total (downloads_left tok) xs = 0"
  "\<forall>sh\<in>set xs. Token sh \<noteq> tok \<Longrightarrow> total (uploads_left tok) xs = 0"
  by (induction xs) (auto simp: total_def downloads_left_def uploads_left_def)

lemma share_create_ok:
  assumes "share_create now ok (Inr sh) s = (Inr pub, s')" "\<forall>x\<in>set (Shares s). Token x \<noteq> Token sh"
  obtains xs where "Shares s' = xs @ [sh]" "sharesDisk s' = Some (xs @ [sh])"
    "\<forall>x\<in>set xs. Token x \<noteq> Token sh"
  using assms by (auto simp: share_create_def Let_def saveLocked_def pruneLocked_def split: if_splits)

text \<open>
  C5: A link created with a download limit is downloaded at most that often: in every execution
  that follows its creation, with any other operations, failed writes and restarts in
  between, the number of successful \<open>beginDownload\<close> calls for its token is at most the limit.
  (The token is new: no entry had it, and no later entry gets it.)
\<close>

theorem share_download_limit:
  assumes "share_create now ok (Inr sh) s = (Inr pub, s')"
    and "\<forall>x\<in>set (Shares s). Token x \<noteq> Token sh"
    and "MaxDownloads sh = int m" "0 < m" "DownloadCount sh = 0"
    and "trace (token_step (Token sh)) s' tr"
  shows "sum_list (map (grants_download (Token sh) \<circ> fst) tr) \<le> m"
proof -
  obtain xs where xs: "Shares s' = xs @ [sh]" "sharesDisk s' = Some (xs @ [sh])"
    "\<forall>x\<in>set xs. Token x \<noteq> Token sh"
    using assms(1,2) by (rule share_create_ok)
  have "share_inv (has_limit (Token sh)) s'"
    using xs assms(3,4) robust_limits by (auto simp: all_shares_def list_all_iff has_limit_def intro!: robust_all)
  from downloads.trace_budget [OF assms(6) this]
  have "sum_list (map (grants_download (Token sh) \<circ> fst) tr) \<le> share_budget (downloads_left (Token sh)) s'"
    by (simp add: o_def)
  also have "\<dots> = m"
    using xs total_none(1) [OF xs(3)] assms(3,5)
    by (simp add: share_budget_def total_def downloads_left_def)
  finally show ?thesis .
qed

definition demo_token :: string where "demo_token = replicate 64 (CHR ''a'')"

definition demo_share :: Share where
  "demo_share = \<lparr>Token = demo_token, sharePath = ''docs'', shareName = ''docs'', IsDir = True, Kind = ''link'',
     CreatedAt = 1, ExpiresAt = None, MaxDownloads = 1, DownloadCount = 0, MaxUploads = 0, UploadCount = 0,
     CreatedBy = ''root'', sharePasswordHash = []\<rparr>"

definition demo_store :: shareStore where
  "demo_store = snd (share_create 1 True (Inr demo_share) (sharesFrom None))"

fun share_trace :: "share_op list \<Rightarrow> shareStore \<Rightarrow> ((share_op \<times> bool) \<times> shareStore) list" where
  "share_trace [] s = []"
| "share_trace (a # as) s =
     (let r = run_share_op a s in ((a, fst r), snd r) # share_trace as (snd r))"

lemma share_trace_ok:
  "list_all (no_new tok) as \<Longrightarrow> trace (token_step tok) s (share_trace as s)"
  by (induction as arbitrary: s) (auto simp: token_step_def Let_def)

definition demo_downloads :: "share_op list" where
  "demo_downloads = [ShDownload 2 2 True False demo_token, ShRestart, ShDownload 3 3 True True demo_token]"

theorem share_download_limit_witness:
  "map (snd \<circ> fst) (share_trace demo_downloads demo_store) = [True, True, False] \<and>
   sum_list (map (grants_download demo_token \<circ> fst) (share_trace demo_downloads demo_store)) \<le> 1"
proof -
  have c: "share_create 1 True (Inr demo_share) (sharesFrom None) =
      (Inr (demo_share\<lparr>sharePasswordHash := []\<rparr>), demo_store)"
    by (simp add: demo_store_def share_create_def Let_def)
  have d: "Token demo_share = demo_token" "MaxDownloads demo_share = int 1" "DownloadCount demo_share = 0"
    by (simp_all add: demo_share_def)
  have "trace (token_step (Token demo_share)) demo_store (share_trace demo_downloads demo_store)"
    by (rule share_trace_ok) (simp add: demo_downloads_def no_new_def)
  from share_download_limit [OF c _ d(2) _ d(3) this]
  have "sum_list (map (grants_download demo_token \<circ> fst) (share_trace demo_downloads demo_store)) \<le> 1"
    by (simp add: d sharesFrom_def)
  moreover have "map (snd \<circ> fst) (share_trace demo_downloads demo_store) = [True, True, False]"
    by code_simp
  ultimately show ?thesis by simp
qed

text \<open>
  C13: A drop folder takes at most its quota of uploads: in every execution after its creation,
  the successful \<open>beginUpload\<close> calls for its token number at most the quota, plus one for each
  upload that was undone because it failed.
\<close>

theorem share_upload_quota:
  assumes "share_create now ok (Inr sh) s = (Inr pub, s')"
    and "\<forall>x\<in>set (Shares s). Token x \<noteq> Token sh"
    and "MaxUploads sh = int m" "0 < m" "UploadCount sh = 0"
    and "trace (token_step (Token sh)) s' tr"
  shows "sum_list (map (grants_upload (Token sh) \<circ> fst) tr)
    \<le> m + sum_list (map (undoes_upload (Token sh) \<circ> fst) tr)"
proof -
  obtain xs where xs: "Shares s' = xs @ [sh]" "sharesDisk s' = Some (xs @ [sh])"
    "\<forall>x\<in>set xs. Token x \<noteq> Token sh"
    using assms(1,2) by (rule share_create_ok)
  have "share_inv (has_quota (Token sh)) s'"
    using xs assms(3,4) robust_limits by (auto simp: all_shares_def list_all_iff has_quota_def intro!: robust_all)
  from uploads.trace_budget [OF assms(6) this]
  have "sum_list (map (grants_upload (Token sh) \<circ> fst) tr)
    \<le> share_budget (uploads_left (Token sh)) s' + sum_list (map (undoes_upload (Token sh) \<circ> fst) tr)"
    by simp
  also have "share_budget (uploads_left (Token sh)) s' = m"
    using xs total_none(2) [OF xs(3)] assms(3,5)
    by (simp add: share_budget_def total_def uploads_left_def)
  finally show ?thesis .
qed

definition demo_drop :: Share where
  "demo_drop = demo_share\<lparr>Kind := ''drop'', MaxDownloads := 0, MaxUploads := 1\<rparr>"

theorem share_upload_quota_witness:
  "sum_list (map (grants_upload demo_token \<circ> fst)
     (share_trace [ShUpload 2 2 True demo_token, ShUndo True demo_token, ShUpload 3 3 True demo_token]
        (snd (share_create 1 True (Inr demo_drop) (sharesFrom None))))) \<le> 1 +
   sum_list (map (undoes_upload demo_token \<circ> fst)
     (share_trace [ShUpload 2 2 True demo_token, ShUndo True demo_token, ShUpload 3 3 True demo_token]
        (snd (share_create 1 True (Inr demo_drop) (sharesFrom None)))))"
proof -
  let ?s = "snd (share_create 1 True (Inr demo_drop) (sharesFrom None))"
  have c: "share_create 1 True (Inr demo_drop) (sharesFrom None) =
      (Inr (demo_drop\<lparr>sharePasswordHash := []\<rparr>), ?s)"
    by (simp add: share_create_def Let_def)
  have d: "Token demo_drop = demo_token" "MaxUploads demo_drop = int 1" "UploadCount demo_drop = 0"
    by (simp_all add: demo_drop_def demo_share_def)
  have "trace (token_step (Token demo_drop)) ?s (share_trace
      [ShUpload 2 2 True demo_token, ShUndo True demo_token, ShUpload 3 3 True demo_token] ?s)"
    by (rule share_trace_ok) (simp add: no_new_def)
  from share_upload_quota [OF c _ d(2) _ d(3) this] show ?thesis
    by (simp only: d) (simp add: sharesFrom_def)
qed

subsection \<open>A revoked link stays dead\<close>

lemma no_token_find:
  "all_shares (\<lambda>sh. Token sh \<noteq> tok) s \<Longrightarrow> find_index (\<lambda>sh. Token sh = tok) (Shares s) = None"
  by (auto simp: all_shares_def list_all_iff find_index_None)

text \<open>
  Once \<open>revoke\<close> has answered true and its write has succeeded, the token is refused by
  \<open>getValid\<close>, \<open>beginDownload\<close> and \<open>beginUpload\<close> in every later state, restarts included, as long as
  no new share gets the same token. (Tokens in the store are pairwise different.)
\<close>

theorem revoke_final:
  assumes "revoke True tok s = (True, s')" "distinct (map Token (Shares s))"
    and "trace (token_step tok) s' tr"
  shows "\<not> is_ok (fst (getValid now now2 ok tok (final_state s' tr))) \<and>
    \<not> is_ok (fst (beginDownload now now2 ok ok2 tok (final_state s' tr))) \<and>
    \<not> is_ok (fst (beginUpload now now2 ok tok (final_state s' tr)))"
proof -
  let ?P = "\<lambda>sh. Token sh \<noteq> tok"
  from assms(1) obtain i where i: "find_index (\<lambda>sh. Token sh = tok) (Shares s) = Some i"
    and s': "s' = saveLocked True (removeIndexLocked i s)"
    by (auto simp: revoke_def split: option.splits)
  note il = find_index_SomeD(1,2) [OF i]
  have "distinct (map Token (take i (Shares s) @ Shares s ! i # drop (Suc i) (Shares s)))"
    using assms(2) il(1) by (simp only: mset_split_at)
  then have "\<forall>x\<in>set (remove_at i (Shares s)). ?P x"
    using il(2) by (auto simp: remove_at_def) (metis imageI)+
  then have "share_inv ?P s'"
    using s' robust_limits by (auto simp: all_shares_def list_all_iff saveLocked_def removeIndexLocked_def intro!: robust_all)
  moreover have "trace (share_step ?P) s' tr"
  proof -
    have "share_step ?P s e t" if "token_step tok s e t" for s e t
      using that by (simp add: token_step_def share_step_def no_new_def)
    with assms(3) show ?thesis
    proof (induction tr arbitrary: s')
      case (Cons x tr)
      then show ?case by (cases x) (metis (mono_tags, lifting) trace.simps(2))
    qed simp
  qed
  ultimately have "share_inv ?P (final_state s' tr)" by (metis sharem.trace_inv)
  then have a: "all_shares ?P (final_state s' tr)" by (simp add: share_inv_def)
  note none = no_token_find [OF all_shares_prune [OF a]]
  show ?thesis
    using none by (simp_all add: getValid_def beginDownload_def beginUpload_def Let_def)
qed

theorem revoke_final_witness:
  "\<not> is_ok (fst (beginDownload 5 5 True True demo_token
     (final_state (snd (revoke True demo_token demo_store)) (share_trace [ShRestart] (snd (revoke True demo_token demo_store))))))"
proof (rule revoke_final [THEN conjunct2, THEN conjunct1])
  show "revoke True demo_token demo_store = (True, snd (revoke True demo_token demo_store))"
    by code_simp
  show "distinct (map Token (Shares demo_store))" by code_simp
  show "trace (token_step demo_token) (snd (revoke True demo_token demo_store))
     (share_trace [ShRestart] (snd (revoke True demo_token demo_store)))"
    by (rule share_trace_ok) (simp add: no_new_def)
qed

end
