(* ===== verification/Cache.thy ===== *)
theory Cache
  imports GoStrings
begin

text \<open>
  The listing cache (\<open>cache.go\<close>): a map from directory keys to elements of a doubly linked list
  kept in order of use, with a cap on its length. The concrete state has the map and the list
  with element identities as \<open>container/list\<close> has them; the abstract one is the list of keys and
  listings in order of use. The contract is the locale \<open>lru_cache\<close>; the concrete operations
  are its interpretation.
\<close>

subsection \<open>The contract\<close>

definition to_front :: "'k \<Rightarrow> ('k \<times> 'v) list \<Rightarrow> ('k \<times> 'v) list" where
  "to_front k es = (case map_of es k of None \<Rightarrow> es | Some v \<Rightarrow> (k, v) # adel k es)"

locale lru_cache =
  fixes norm :: "'r \<Rightarrow> 'k"
    and cget :: "'r \<Rightarrow> 'c \<Rightarrow> 'v option \<times> 'c"
    and cset :: "'r \<Rightarrow> 'v \<Rightarrow> 'c \<Rightarrow> 'c"
    and cclear :: "'c \<Rightarrow> 'c"
    and entries :: "'c \<Rightarrow> ('k \<times> 'v) list"
    and cap :: "'c \<Rightarrow> nat"
    and ok :: "'c \<Rightarrow> bool"
  assumes ok_distinct: "ok c \<Longrightarrow> distinct (map fst (entries c))"
    and ok_cap: "ok c \<Longrightarrow> 0 < cap c \<and> length (entries c) \<le> cap c"
    and get_entries: "ok c \<Longrightarrow> cget q c = (r, c') \<Longrightarrow>
      r = map_of (entries c) (norm q) \<and> entries c' = to_front (norm q) (entries c) \<and> cap c' = cap c \<and> ok c'"
    and set_entries: "ok c \<Longrightarrow> entries (cset q v c) = take (cap c) ((norm q, v) # adel (norm q) (entries c)) \<and>
      cap (cset q v c) = cap c \<and> ok (cset q v c)"
    and clear_entries: "ok c \<Longrightarrow> entries (cclear c) = [] \<and> cap (cclear c) = cap c \<and> ok (cclear c)"
begin

lemma get_result: "ok c \<Longrightarrow> fst (cget q c) = map_of (entries c) (norm q)"
  by (cases "cget q c") (auto dest: get_entries)

lemma get_after_set: "ok c \<Longrightarrow> norm p = norm q \<Longrightarrow> fst (cget p (cset q v c)) = Some v"
  using set_entries [of c q v] ok_cap [of c] by (cases "cap c") (auto simp: get_result)

lemma get_after_get: "ok c \<Longrightarrow> fst (cget p (snd (cget q c))) = fst (cget p c)"
proof -
  assume c: "ok c"
  obtain r c' where g: "cget q c = (r, c')" by (meson surj_pair)
  have "map_of (to_front k (entries c)) j = map_of (entries c) j" for k j
    by (auto simp: to_front_def split: option.splits)
  with get_entries [OF c g] c g show ?thesis by (simp add: get_result)
qed

text \<open>Storing one key never changes the listing of another; at most it evicts it.\<close>

lemma get_other_after_set:
  assumes "ok c" "norm p \<noteq> norm q"
  shows "fst (cget p (cset q v c)) \<in> {fst (cget p c), None}"
proof (cases "fst (cget p (cset q v c))")
  case (Some x)
  have s: "entries (cset q v c) = take (cap c) ((norm q, v) # adel (norm q) (entries c))" "ok (cset q v c)"
    using set_entries [OF assms(1)] by auto
  have "(norm p, x) \<in> set (take (cap c) ((norm q, v) # adel (norm q) (entries c)))"
    using Some get_result [OF s(2), of p] s(1) map_of_SomeD by metis
  then have "(norm p, x) \<in> set (entries c)"
    using assms(2) set_adel by (metis Pair_inject in_set_takeD set_ConsD subsetD)
  then have "map_of (entries c) (norm p) = Some x"
    using ok_distinct [OF assms(1)] by simp
  then show ?thesis using get_result [OF assms(1), of p] Some by simp
qed simp

lemma get_after_clear: "ok c \<Longrightarrow> fst (cget q (cclear c)) = None"
  using clear_entries [of c] by (simp add: get_result)

end

subsection \<open>The cache of cache.go\<close>

record treeNode =
  tName :: string
  tPath :: string
  tIsDir :: bool
  tSize :: int

record cacheItem =
  ckey :: string
  cnodes :: "treeNode list"

text \<open>\<open>c_next\<close> is the identity of the next list element.\<close>

record listingCache =
  c_m :: "(string \<times> nat) list"
  c_lru :: "(nat \<times> cacheItem) list"
  c_max :: nat
  c_next :: nat

definition dirCacheMaxEntries :: nat where "dirCacheMaxEntries = 1000"

definition newListingCache :: "int \<Rightarrow> listingCache" where
  "newListingCache m =
     \<lparr>c_m = [], c_lru = [], c_max = (if m < 1 then dirCacheMaxEntries else nat m), c_next = 0\<rparr>"

definition cacheKey :: "string \<Rightarrow> string" where
  "cacheKey rel = Trim rel [slash, backslash]"

definition moveToFront :: "nat \<Rightarrow> (nat \<times> cacheItem) list \<Rightarrow> (nat \<times> cacheItem) list" where
  "moveToFront el l = filter (\<lambda>e. fst e = el) l @ filter (\<lambda>e. fst e \<noteq> el) l"

definition cache_get :: "string \<Rightarrow> listingCache \<Rightarrow> treeNode list option \<times> listingCache" where
  "cache_get rel c =
     (case map_of (c_m c) (cacheKey rel) of
        None \<Rightarrow> (None, c)
      | Some el \<Rightarrow>
          (map_option cnodes (map_of (c_lru c) el), c\<lparr>c_lru := moveToFront el (c_lru c)\<rparr>))"

text \<open>The loop that removes from the back while the list is longer than the cap.\<close>

function evict :: "listingCache \<Rightarrow> listingCache" where
  "evict c =
     (if length (c_lru c) > c_max c
      then (if c_lru c = [] then c
            else evict (c\<lparr>c_lru := butlast (c_lru c), c_m := adel (ckey (snd (last (c_lru c)))) (c_m c)\<rparr>))
      else c)"
  by pat_completeness auto
termination by (relation "measure (length \<circ> c_lru)") auto

declare evict.simps [simp del]

definition put_nodes :: "nat \<Rightarrow> treeNode list \<Rightarrow> (nat \<times> cacheItem) list \<Rightarrow> (nat \<times> cacheItem) list" where
  "put_nodes el nodes l = map (\<lambda>e. if fst e = el then (el, (snd e)\<lparr>cnodes := nodes\<rparr>) else e) l"

definition cache_set :: "string \<Rightarrow> treeNode list \<Rightarrow> listingCache \<Rightarrow> listingCache" where
  "cache_set rel nodes c =
     (let key = cacheKey rel in
      case map_of (c_m c) key of
        Some el \<Rightarrow>
          c\<lparr>c_lru := moveToFront el (put_nodes el nodes (c_lru c))\<rparr>
      | None \<Rightarrow>
          evict (c\<lparr>c_lru := (c_next c, \<lparr>ckey = key, cnodes = nodes\<rparr>) # c_lru c,
                  c_m := aput key (c_next c) (c_m c), c_next := Suc (c_next c)\<rparr>))"

definition cache_invalidate :: "listingCache \<Rightarrow> listingCache" where
  "cache_invalidate c = c\<lparr>c_m := [], c_lru := []\<rparr>"

definition cache_len :: "listingCache \<Rightarrow> nat" where
  "cache_len c = length (c_lru c)"

subsection \<open>Refinement\<close>

definition item_pair :: "nat \<times> cacheItem \<Rightarrow> string \<times> treeNode list" where
  "item_pair e = (ckey (snd e), cnodes (snd e))"

definition cache_entries :: "listingCache \<Rightarrow> (string \<times> treeNode list) list" where
  "cache_entries c = map item_pair (c_lru c)"

text \<open>The map and the list agree: up to the cap, the map sends each key to its element.\<close>

definition linked :: "listingCache \<Rightarrow> bool" where
  "linked c \<longleftrightarrow> distinct (map fst (c_lru c)) \<and> distinct (map (ckey \<circ> snd) (c_lru c)) \<and>
     (\<forall>k el. map_of (c_m c) k = Some el \<longleftrightarrow> (\<exists>it. (el, it) \<in> set (c_lru c) \<and> ckey it = k)) \<and>
     (\<forall>e\<in>set (c_lru c). fst e < c_next c) \<and> 0 < c_max c"

definition cache_ok :: "listingCache \<Rightarrow> bool" where
  "cache_ok c \<longleftrightarrow> linked c \<and> length (c_lru c) \<le> c_max c"

lemma fst_item_pair: "map fst (map item_pair l) = map (ckey \<circ> snd) l"
  by (simp add: item_pair_def)

lemma moveToFront_split:
  assumes "distinct (map fst l)" "(el, it) \<in> set l"
  shows "moveToFront el l = (el, it) # filter (\<lambda>e. fst e \<noteq> el) l"
proof -
  have "filter (\<lambda>e. fst e = el) l = [(el, it)]" using assms
  proof (induction l)
    case (Cons x l)
    show ?case
    proof (cases "fst x = el")
      case True
      with Cons.prems have "x = (el, it)" by (auto simp: image_iff)
      moreover have "filter (\<lambda>e. fst e = el) l = []"
        using Cons.prems(1) True by (auto simp: filter_empty_conv image_iff)
      ultimately show ?thesis by simp
    next
      case False
      with Cons show ?thesis by auto
    qed
  qed simp
  then show ?thesis by (simp add: moveToFront_def)
qed

lemma adel_entries:
  assumes "distinct (map fst l)" "distinct (map (ckey \<circ> snd) l)" "(el, it) \<in> set l"
  shows "adel (ckey it) (map item_pair l) = map item_pair (filter (\<lambda>e. fst e \<noteq> el) l)"
proof -
  have "ckey (snd e) = ckey it \<longleftrightarrow> fst e = el" if "e \<in> set l" for e
  proof
    assume "ckey (snd e) = ckey it"
    with that assms(2,3) have "e = (el, it)"
      by (metis comp_apply distinct_map inj_onD snd_conv)
    then show "fst e = el" by simp
  next
    assume "fst e = el"
    with that assms(1,3) have "e = (el, it)" by (metis distinct_map fst_conv inj_onD)
    then show "ckey (snd e) = ckey it" by simp
  qed
  then show ?thesis
    by (auto simp: adel_def item_pair_def filter_map o_def intro!: arg_cong [where f = "map _"] filter_cong)
qed

lemma map_of_entries:
  assumes "linked c"
  shows "map_of (cache_entries c) k =
    (case map_of (c_m c) k of None \<Rightarrow> None | Some el \<Rightarrow> map_option cnodes (map_of (c_lru c) el))"
proof (cases "map_of (c_m c) k")
  case None
  have "\<not> (\<exists>e\<in>set (c_lru c). ckey (snd e) = k)"
  proof
    assume "\<exists>e\<in>set (c_lru c). ckey (snd e) = k"
    then obtain el it where "(el, it) \<in> set (c_lru c)" "ckey it = k" by auto
    then have "map_of (c_m c) k = Some el" using assms unfolding linked_def by blast
    with None show False by simp
  qed
  then have "map_of (cache_entries c) k = None"
    by (auto simp: map_of_eq_None_iff cache_entries_def item_pair_def)
  with None show ?thesis by simp
next
  case (Some el)
  then obtain it where it: "(el, it) \<in> set (c_lru c)" "ckey it = k"
    using assms by (auto simp: linked_def)
  then have "(k, cnodes it) \<in> set (cache_entries c)"
    by (force simp: cache_entries_def item_pair_def)
  moreover have "distinct (map fst (cache_entries c))"
    unfolding cache_entries_def fst_item_pair using assms by (simp add: linked_def)
  ultimately have "map_of (cache_entries c) k = Some (cnodes it)" by simp
  moreover have "map_of (c_lru c) el = Some it" using it assms by (simp add: linked_def)
  ultimately show ?thesis using Some by simp
qed

lemma linkedD:
  assumes "linked c" "map_of (c_m c) k = Some el"
  obtains it where "(el, it) \<in> set (c_lru c)" "ckey it = k" "map_of (c_lru c) el = Some it"
proof -
  from assms obtain it where "(el, it) \<in> set (c_lru c)" "ckey it = k" unfolding linked_def by blast
  moreover from this have "map_of (c_lru c) el = Some it" using assms(1) by (simp add: linked_def)
  ultimately show ?thesis by (rule that)
qed

lemma linked_permute:
  assumes "linked c" "set l = set (c_lru c)" "distinct (map fst l)" "distinct (map (ckey \<circ> snd) l)"
  shows "linked (c\<lparr>c_lru := l\<rparr>)"
  using assms by (simp add: linked_def)

lemma linked_moveToFront:
  assumes "linked c" "(el, it) \<in> set (c_lru c)"
  shows "linked (c\<lparr>c_lru := moveToFront el (c_lru c)\<rparr>)"
proof (rule linked_permute [OF assms(1)])
  have d: "distinct (map fst (c_lru c))" "distinct (map (ckey \<circ> snd) (c_lru c))"
    using assms(1) by (auto simp: linked_def)
  note s = moveToFront_split [OF d(1) assms(2)]
  show st: "set (moveToFront el (c_lru c)) = set (c_lru c)" by (auto simp: moveToFront_def)
  show "distinct (map fst (moveToFront el (c_lru c)))"
    using d(1) unfolding s by (auto simp: distinct_map inj_on_def)
  have "inj_on (ckey \<circ> snd) (set (moveToFront el (c_lru c)))"
    using d(2) unfolding st by (simp add: distinct_map)
  moreover have "distinct (moveToFront el (c_lru c))"
    using d(1) unfolding s by (auto simp: distinct_map)
  ultimately show "distinct (map (ckey \<circ> snd) (moveToFront el (c_lru c)))" by (simp add: distinct_map)
qed

lemma cache_get_refines:
  assumes "cache_ok c" "cache_get rel c = (r, c')"
  shows "r = map_of (cache_entries c) (cacheKey rel) \<and>
    cache_entries c' = to_front (cacheKey rel) (cache_entries c) \<and> c_max c' = c_max c \<and> cache_ok c'"
proof -
  have l: "linked c" and len: "length (c_lru c) \<le> c_max c" using assms(1) by (auto simp: cache_ok_def)
  have d: "distinct (map fst (c_lru c))" "distinct (map (ckey \<circ> snd) (c_lru c))"
    using l by (auto simp: linked_def)
  show ?thesis
  proof (cases "map_of (c_m c) (cacheKey rel)")
    case None
    then show ?thesis using assms map_of_entries [OF l, of "cacheKey rel"]
      by (simp add: cache_get_def to_front_def)
  next
    case (Some el)
    then obtain it where it: "(el, it) \<in> set (c_lru c)" "ckey it = cacheKey rel" "map_of (c_lru c) el = Some it"
      by (rule linkedD [OF l])
    have r: "r = Some (cnodes it)" and c': "c' = c\<lparr>c_lru := moveToFront el (c_lru c)\<rparr>"
      using assms(2) Some it(3) by (auto simp: cache_get_def)
    have e: "map_of (cache_entries c) (cacheKey rel) = Some (cnodes it)"
      using map_of_entries [OF l, of "cacheKey rel"] Some it(3) by simp
    have "length (moveToFront el (c_lru c)) = length (c_lru c)"
      using sum_length_filter_compl [of "\<lambda>e. fst e = el" "c_lru c"] by (simp add: moveToFront_def)
    moreover have "cache_entries c' = to_front (cacheKey rel) (cache_entries c)"
      using e c' moveToFront_split [OF d(1) it(1)] adel_entries [OF d it(1)] it(2)
      by (simp add: to_front_def cache_entries_def item_pair_def)
    ultimately show ?thesis
      using r e c' len linked_moveToFront [OF l it(1)] by (simp add: cache_ok_def)
  qed
qed

lemma butlast_filter_last:
  "distinct (map fst l) \<Longrightarrow> l \<noteq> [] \<Longrightarrow> butlast l = filter (\<lambda>e. fst e \<noteq> fst (last l)) l"
proof (induction l rule: rev_induct)
  case (snoc x l)
  have "filter (\<lambda>e. fst e \<noteq> fst x) l = l"
    using snoc.prems(1) by (intro filter_True) (auto simp: image_iff)
  then show ?case by simp
qed simp

lemma linked_delete:
  assumes "linked c" "(el, it) \<in> set (c_lru c)"
  shows "linked (c\<lparr>c_lru := filter (\<lambda>e. fst e \<noteq> el) (c_lru c), c_m := adel (ckey it) (c_m c)\<rparr>)"
proof -
  have d: "distinct (map fst (c_lru c))" "distinct (map (ckey \<circ> snd) (c_lru c))"
    using assms(1) by (auto simp: linked_def)
  have m: "map_of (c_m c) (ckey it) = Some el" using assms unfolding linked_def by blast
  have "map_of (adel (ckey it) (c_m c)) k = Some e \<longleftrightarrow>
      (\<exists>i. (e, i) \<in> set (filter (\<lambda>e. fst e \<noteq> el) (c_lru c)) \<and> ckey i = k)" for k e
  proof (cases "k = ckey it")
    case True
    have "e = el" if "(e, i) \<in> set (c_lru c)" "ckey i = ckey it" for i
      using that m assms(1) unfolding linked_def by (metis option.inject)
    then show ?thesis using True by auto
  next
    case False
    have "e \<noteq> el" if "(e, i) \<in> set (c_lru c)" "ckey i = k" for i
      using that assms(2) d(1) False by (metis distinct_map fst_conv inj_onD prod.inject)
    then show ?thesis using False assms(1) unfolding linked_def by auto
  qed
  then show ?thesis using assms(1) d by (auto simp: linked_def distinct_map_filter)
qed

lemma evict_refines:
  "linked c \<Longrightarrow> cache_entries (evict c) = take (c_max c) (cache_entries c) \<and>
     c_max (evict c) = c_max c \<and> cache_ok (evict c)"
proof (induction c rule: evict.induct)
  case (1 c)
  show ?case
  proof (cases "length (c_lru c) > c_max c \<and> c_lru c \<noteq> []")
    case False
    then have "evict c = c" "length (c_lru c) \<le> c_max c" by (auto simp: evict.simps)
    with 1 show ?thesis by (simp add: cache_ok_def cache_entries_def)
  next
    case True
    obtain el it where last: "last (c_lru c) = (el, it)" by (meson surj_pair)
    with True have mem: "(el, it) \<in> set (c_lru c)" by (metis last_in_set)
    let ?c' = "c\<lparr>c_lru := butlast (c_lru c), c_m := adel (ckey (snd (last (c_lru c)))) (c_m c)\<rparr>"
    have "butlast (c_lru c) = filter (\<lambda>e. fst e \<noteq> el) (c_lru c)"
      using butlast_filter_last [of "c_lru c"] 1(2) True last by (simp add: linked_def)
    then have l': "linked ?c'" using linked_delete [OF 1(2) mem] last by simp
    have e: "evict c = evict ?c'" using True by (simp add: evict.simps [of c])
    have "take (c_max c) (butlast (cache_entries c)) = take (c_max c) (cache_entries c)"
      using True by (intro take_butlast) (simp add: cache_entries_def)
    moreover have "cache_entries ?c' = butlast (cache_entries c)"
      by (simp add: cache_entries_def map_butlast)
    ultimately show ?thesis using "1.IH" True l' e by simp
  qed
qed

lemma linked_set_nodes:
  assumes "linked c" "(el, it) \<in> set (c_lru c)"
  shows "linked (c\<lparr>c_lru := put_nodes el nodes (c_lru c)\<rparr>)"
    and "(el, it\<lparr>cnodes := nodes\<rparr>) \<in> set (put_nodes el nodes (c_lru c))"
proof -
  let ?u = "put_nodes el nodes (c_lru c)"
  have f: "map fst ?u = map fst (c_lru c)" "map (ckey \<circ> snd) ?u = map (ckey \<circ> snd) (c_lru c)"
    unfolding put_nodes_def by auto
  have "(\<exists>i. (e, i) \<in> set (put_nodes el nodes l) \<and> ckey i = k) \<longleftrightarrow> (\<exists>i. (e, i) \<in> set l \<and> ckey i = k)" for e k l
  proof (induction l)
    case (Cons x l)
    have "(\<exists>i. (e, i) \<in> set (put_nodes el nodes (x # l)) \<and> ckey i = k) \<longleftrightarrow>
        fst x = e \<and> ckey (snd x) = k \<or> (\<exists>i. (e, i) \<in> set (put_nodes el nodes l) \<and> ckey i = k)"
      by (cases x) (auto simp: put_nodes_def)
    with Cons show ?case by (cases x) auto
  qed (simp add: put_nodes_def)
  moreover have "fst ` set ?u = fst ` set (c_lru c)" using f(1) by (metis set_map)
  then have "(\<forall>x\<in>fst ` set ?u. x < c_next c) \<longleftrightarrow> (\<forall>x\<in>fst ` set (c_lru c). x < c_next c)"
    by simp
  then have "(\<forall>e\<in>set ?u. fst e < c_next c) \<longleftrightarrow> (\<forall>e\<in>set (c_lru c). fst e < c_next c)"
    by (simp only: ball_simps)
  ultimately show "linked (c\<lparr>c_lru := ?u\<rparr>)" using assms(1) f by (simp add: linked_def)
  show "(el, it\<lparr>cnodes := nodes\<rparr>) \<in> set ?u"
    unfolding put_nodes_def set_map
    by (rule image_eqI [where x = "(el, it)"]) (use assms(2) in simp_all)
qed

lemma put_nodes_others: "filter (\<lambda>e. fst e \<noteq> el) (put_nodes el v l) = filter (\<lambda>e. fst e \<noteq> el) l"
  by (induction l) (auto simp: put_nodes_def)

lemma linked_push:
  assumes "linked c" "map_of (c_m c) k = None"
  shows "linked (c\<lparr>c_lru := (c_next c, \<lparr>ckey = k, cnodes = nodes\<rparr>) # c_lru c,
    c_m := aput k (c_next c) (c_m c), c_next := Suc (c_next c)\<rparr>)"
proof -
  have fresh: "c_next c \<notin> fst ` set (c_lru c)" using assms(1) unfolding linked_def by fastforce
  have nokey: "\<forall>e\<in>set (c_lru c). ckey (snd e) \<noteq> k"
    using assms unfolding linked_def by (metis option.distinct(1) prod.collapse)
  have "map_of (aput k (c_next c) (c_m c)) j = Some el \<longleftrightarrow>
     (\<exists>it. (el, it) \<in> set ((c_next c, \<lparr>ckey = k, cnodes = nodes\<rparr>) # c_lru c) \<and> ckey it = j)" for j el
    using assms(1) nokey unfolding linked_def by (cases "j = k") auto
  then show ?thesis using assms(1) fresh nokey
    by (auto simp: linked_def less_Suc_eq image_iff)
qed

lemma cache_set_refines:
  assumes "cache_ok c"
  shows "cache_entries (cache_set rel v c) =
      take (c_max c) ((cacheKey rel, v) # adel (cacheKey rel) (cache_entries c)) \<and>
    c_max (cache_set rel v c) = c_max c \<and> cache_ok (cache_set rel v c)"
proof -
  have l: "linked c" and len: "length (c_lru c) \<le> c_max c" using assms by (auto simp: cache_ok_def)
  show ?thesis
  proof (cases "map_of (c_m c) (cacheKey rel)")
    case None
    have "adel (cacheKey rel) (cache_entries c) = cache_entries c"
      using map_of_entries [OF l, of "cacheKey rel"] None
      by (auto simp: adel_def map_of_eq_None_iff image_iff intro!: filter_True)
    with evict_refines [OF linked_push [OF l None]] None show ?thesis
      by (simp add: cache_set_def cache_entries_def item_pair_def Let_def)
  next
    case (Some el)
    then obtain it where it: "(el, it) \<in> set (c_lru c)" "ckey it = cacheKey rel"
      by (rule linkedD [OF l])
    let ?u = "put_nodes el v (c_lru c)"
    have lu: "linked (c\<lparr>c_lru := ?u\<rparr>)" and iu: "(el, it\<lparr>cnodes := v\<rparr>) \<in> set ?u"
      using linked_set_nodes [OF l it(1), of v] by auto
    have set_eq: "cache_set rel v c = c\<lparr>c_lru := moveToFront el ?u\<rparr>"
      using Some by (simp add: cache_set_def)
    have du: "distinct (map fst ?u)" using lu by (simp add: linked_def)
    have d: "distinct (map fst (c_lru c))" "distinct (map (ckey \<circ> snd) (c_lru c))"
      using l by (auto simp: linked_def)
    have m: "moveToFront el ?u = (el, it\<lparr>cnodes := v\<rparr>) # filter (\<lambda>e. fst e \<noteq> el) (c_lru c)"
      using moveToFront_split [OF du iu] put_nodes_others by simp
    have e: "cache_entries (cache_set rel v c) = (cacheKey rel, v) # adel (cacheKey rel) (cache_entries c)"
      using set_eq m adel_entries [OF d it(1)] it(2) by (simp add: cache_entries_def item_pair_def)
    have ln: "length (moveToFront el ?u) = length (c_lru c)"
      using sum_length_filter_compl [of "\<lambda>e. fst e = el" ?u]
      by (simp add: moveToFront_def put_nodes_def)
    then have "length (cache_entries (cache_set rel v c)) \<le> c_max c"
      using set_eq len by (simp add: cache_entries_def)
    then show ?thesis
      using e set_eq ln len linked_moveToFront [OF lu] iu by (simp add: cache_ok_def)
  qed
qed

lemma cache_clear_refines:
  "cache_ok c \<Longrightarrow> cache_entries (cache_invalidate c) = [] \<and> c_max (cache_invalidate c) = c_max c \<and>
     cache_ok (cache_invalidate c)"
  by (simp add: cache_invalidate_def cache_entries_def cache_ok_def linked_def)

lemma cache_ok_entries:
  assumes "cache_ok c"
  shows "distinct (map fst (cache_entries c))" and "0 < c_max c \<and> length (cache_entries c) \<le> c_max c"
  using assms unfolding cache_ok_def linked_def cache_entries_def fst_item_pair by simp_all

interpretation dc: lru_cache cacheKey cache_get cache_set cache_invalidate cache_entries c_max cache_ok
  by unfold_locales (use cache_ok_entries cache_get_refines cache_set_refines cache_clear_refines in blast)+

lemma new_cache_ok: "cache_ok (newListingCache m) \<and> cache_entries (newListingCache m) = []"
  by (simp add: newListingCache_def cache_ok_def linked_def cache_entries_def dirCacheMaxEntries_def)

subsection \<open>Executions\<close>

datatype cache_op = CGet string | CSet string "treeNode list" | CClear

fun run_cache_op :: "cache_op \<Rightarrow> listingCache \<Rightarrow> listingCache" where
  "run_cache_op (CGet rel) c = snd (cache_get rel c)"
| "run_cache_op (CSet rel v) c = cache_set rel v c"
| "run_cache_op CClear c = cache_invalidate c"

lemma run_cache_op_ok: "cache_ok c \<Longrightarrow> cache_ok (run_cache_op a c) \<and> c_max (run_cache_op a c) = c_max c"
  by (cases a) (metis cache_get_refines prod.collapse run_cache_op.simps(1),
    use cache_set_refines cache_clear_refines in auto)

lemma run_cache_ops_ok:
  "cache_ok c \<Longrightarrow> cache_ok (fold run_cache_op as c) \<and> c_max (fold run_cache_op as c) = c_max c"
  by (induction as arbitrary: c) (use run_cache_op_ok in \<open>simp, metis fold_simps(2)\<close>)



end
