(* ===== verification/Tokens.thy ===== *)
theory Tokens
  imports Names Shares
begin

text \<open>
  Random tokens as names: 32 random bytes in hexadecimal pass \<open>validShareToken\<close>, and what passes
  is an ordinary file name, so that the trash and the uploads can use ids as entries of their
  directories.
\<close>

lemma validShareToken_hex:
  assumes "length b = 32"
  shows "validShareToken (hex_encode (map byte_val b))"
proof -
  have h: "(48 \<le> byte_val c \<and> byte_val c \<le> 57) \<or> (97 \<le> byte_val c \<and> byte_val c \<le> 102)"
    if "c \<in> set (hex_encode (map byte_val b))" for c
    using that by (intro hex_encode_chars [of "map byte_val b"]) auto
  then have "runes (hex_encode (map byte_val b)) = map byte_val (hex_encode (map byte_val b))"
    by (intro runes_ascii) fastforce
  then show ?thesis using h assms by (auto simp: validShareToken_def shareTokenBytes_def list_all_iff)
qed

lemma validShareToken_ordinary:
  assumes "validShareToken i"
  shows "ordinary i"
proof -
  have r: "\<forall>r\<in>set (runes i). (48 \<le> r \<and> r \<le> 57) \<or> (97 \<le> r \<and> r \<le> 102)"
    using assms by (auto simp: validShareToken_def list_all_iff)
  then have "\<forall>c\<in>set i. byte_val c < 128" by (intro runes_all_ascii) fastforce
  then have "runes i = map byte_val i" by (rule runes_ascii)
  with r have "slash \<notin> set i" by fastforce
  moreover have "length i = 64" using assms by (simp add: validShareToken_def shareTokenBytes_def)
  ultimately show ?thesis by (auto simp: ordinary_def)
qed

text \<open>Random bytes for the examples.\<close>

definition demo_rnd :: string where "demo_rnd = replicate 32 (CHR ''x'')"

end
