(* ===== verification/Trash.thy ===== *)
theory Trash
  imports Tokens
begin

text \<open>
  The trash (\<open>trash.go\<close>, lines 16 to 301): deleting moves the entry to \<open>.trash/items/<id>\<close> and
  records where it came from. The store is the list of records and the contents of
  \<open>trash_info.json\<close>; its operations change the file system too, so they map the pair. Main
  results: what was moved to the trash is restored exactly, restoring never overwrites, and
  the janitor removes exactly the items past their retention.
\<close>

subsection \<open>State\<close>

definition trashItemsDir :: string where "trashItemsDir = ''items''"
definition trashRetention :: duration where "trashRetention = 30 * 24 * hour_ns"

record TrashItem =
  tiID :: string
  tiOriginalPath :: string
  tiName :: string
  tiIsDir :: bool
  tiDeletedAt :: gotime
  tiDeletedBy :: string
  tiSize :: int

record trashStore =
  trashRoot :: apath
  Items :: "TrashItem list"
  itemsDisk :: "TrashItem list option"

definition openTrashStore ::
  "apath \<Rightarrow> TrashItem list diskFile \<Rightarrow> fs \<Rightarrow> trashStore result \<times> fs"
where
  "openTrashStore storageRoot file f =
     (let root = storageRoot @ [trashDirName];
          s = (\<lambda>d. \<lparr>trashRoot = root, Items = (case d of None \<Rightarrow> [] | Some its \<Rightarrow> its), itemsDisk = d\<rparr>)
      in case os_MkdirAll f (root @ [trashItemsDir]) of
        (Some e, f') \<Rightarrow> (Inl (path_error ''mkdir'' (root @ [trashItemsDir]) e), f')
      | (None, f') \<Rightarrow>
          (case file of
             NoFile \<Rightarrow> (Inr (s None), f')
           | ReadFails e \<Rightarrow> (Inl e, f')
           | EmptyFile \<Rightarrow> (Inr (s None), f')
           | ParseFails e \<Rightarrow> (Inl (''parse trash metadata: '' @ e), f')
           | Holds its \<Rightarrow> (Inr (s (Some its)), f')))"

definition itemPath :: "trashStore \<Rightarrow> string \<Rightarrow> apath" where
  "itemPath s iid = join_abs (trashRoot s @ [trashItemsDir]) iid"

definition itemsSave :: "bool \<Rightarrow> trashStore \<Rightarrow> trashStore" where
  "itemsSave ok s = (if ok then s\<lparr>itemsDisk := Some (Items s)\<rparr> else s)"

definition trash_save_error :: error where "trash_save_error = ''write trash_info.json failed''"

text \<open>\<open>filepath.Walk\<close>: files below \<open>p\<close> in directories that can be read.\<close>

definition dirSize :: "fs \<Rightarrow> apath \<Rightarrow> int" where
  "dirSize f p = sum_list (map (node_size \<circ> snd) (filter (\<lambda>e. prefix p (fst e) \<and> snd e \<noteq> FDir \<and>
     list_all (\<lambda>q. prefix p q \<longrightarrow> \<not> rfail f q) (prefixes (fst e))) (nodes f)))"

subsection \<open>Operations\<close>

definition moveToTrash ::
  "path_env \<Rightarrow> gotime \<Rightarrow> string option \<Rightarrow> bool \<Rightarrow> string \<Rightarrow> string \<Rightarrow> trashStore \<times> fs \<Rightarrow>
   TrashItem result \<times> trashStore \<times> fs"
where
  "moveToTrash env now rnd ok rel0 deletedBy sf =
     (let (s, f) = sf; rel = Trim rel0 ''/'' in
      if rel = [] \<or> isTrashPath rel then (Inl ''cannot trash this path'', s, f)
      else case safePath f env rel of
        Inl _ \<Rightarrow> (Inl ''invalid path'', s, f)
      | Inr src \<Rightarrow>
      (case os_Stat f src of
        Inl e \<Rightarrow> (Inl (path_error ''stat'' src e), s, f)
      | Inr info \<Rightarrow>
      (case randomToken rnd of
        Inl e \<Rightarrow> (Inl e, s, f)
      | Inr iid \<Rightarrow>
      (let dest = itemPath s iid in
       case os_MkdirAll f (apath_Dir dest) of
         (Some e, f1) \<Rightarrow> (Inl (path_error ''mkdir'' (apath_Dir dest) e), s, f1)
       | (None, f1) \<Rightarrow>
           (let size = (if is_dir info then dirSize f1 src else node_size info);
                item = \<lparr>tiID = iid, tiOriginalPath = rel, tiName = path_Base rel, tiIsDir = is_dir info,
                        tiDeletedAt = now, tiDeletedBy = deletedBy, tiSize = size\<rparr>
            in case os_Rename f1 src dest of
                 Inl e \<Rightarrow> (Inl (''failed to move to trash: '' @ link_error ''rename'' src dest e), s, f1)
               | Inr f2 \<Rightarrow>
                   (if ok then (Inr item, itemsSave True (s\<lparr>Items := Items s @ [item]\<rparr>), f2)
                    else (Inl trash_save_error, s,
                          (case os_Rename f2 dest src of Inl _ \<Rightarrow> f2 | Inr f3 \<Rightarrow> f3))))))))"

definition trash_list :: "trashStore \<Rightarrow> TrashItem list" where
  "trash_list s = Items s"

definition item_index :: "string \<Rightarrow> trashStore \<Rightarrow> nat option" where
  "item_index iid s = find_index (\<lambda>it. tiID it = iid) (Items s)"

definition drop_item :: "nat \<Rightarrow> trashStore \<Rightarrow> trashStore" where
  "drop_item i s = s\<lparr>Items := remove_at i (Items s)\<rparr>"

definition restore ::
  "path_env \<Rightarrow> bool \<Rightarrow> string \<Rightarrow> trashStore \<times> fs \<Rightarrow> string result \<times> trashStore \<times> fs"
where
  "restore env ok iid sf =
     (let (s, f) = sf in
      if \<not> validShareToken iid then (Inl ''invalid id'', s, f)
      else case item_index iid s of
        None \<Rightarrow> (Inl ''not found'', s, f)
      | Some i \<Rightarrow>
      (let item = Items s ! i; src = itemPath s iid in
       if isl (os_Stat f src) then (Inl ''trash item missing on disk'', itemsSave ok (drop_item i s), f)
       else case safePath f env (tiOriginalPath item) of
         Inl _ \<Rightarrow> (Inl ''invalid original path'', s, f)
       | Inr dest \<Rightarrow>
       (if isTrashPath (tiOriginalPath item) then (Inl ''invalid original path'', s, f)
        else case os_MkdirAll f (apath_Dir dest) of
          (Some _, f1) \<Rightarrow> (Inl ''failed to recreate parent folders'', s, f1)
        | (None, f1) \<Rightarrow>
        (case os_Stat f1 dest of
           Inr _ \<Rightarrow> (Inl (''original location is occupied: '' @ tiOriginalPath item), s, f1)
         | Inl e \<Rightarrow>
           (if e \<noteq> ENOENT then (Inl (path_error ''stat'' dest e), s, f1)
            else case os_Rename f1 src dest of
              Inl e \<Rightarrow> (Inl (''failed to restore: '' @ link_error ''rename'' src dest e), s, f1)
            | Inr f2 \<Rightarrow>
                (if ok then (Inr (tiOriginalPath item), itemsSave True (drop_item i s), f2)
                 else (Inl trash_save_error, drop_item i s, f2)))))))"

definition remove_item_files :: "trashStore \<Rightarrow> string \<Rightarrow> fs \<Rightarrow> fs" where
  "remove_item_files s iid f = snd (os_RemoveAll f (itemPath s iid))"

definition purgeLocked :: "bool \<Rightarrow> string \<Rightarrow> trashStore \<times> fs \<Rightarrow> unit result \<times> trashStore \<times> fs" where
  "purgeLocked ok iid sf =
     (let (s, f) = sf; f1 = remove_item_files s iid f in
      case item_index iid s of
        None \<Rightarrow> (Inl ''not found'', s, f1)
      | Some i \<Rightarrow> (if ok then Inr () else Inl trash_save_error, itemsSave ok (drop_item i s), f1))"

definition purge :: "bool \<Rightarrow> string \<Rightarrow> trashStore \<times> fs \<Rightarrow> unit result \<times> trashStore \<times> fs" where
  "purge ok iid sf =
     (if \<not> validShareToken iid then (Inl ''invalid id'', fst sf, snd sf) else purgeLocked ok iid sf)"

definition trash_empty :: "bool \<Rightarrow> trashStore \<times> fs \<Rightarrow> nat result \<times> trashStore \<times> fs" where
  "trash_empty ok sf =
     (let (s, f) = sf; n = length (Items s);
          f1 = fold (remove_item_files s \<circ> tiID) (Items s) f; s1 = s\<lparr>Items := []\<rparr>
      in if \<not> ok then (Inl trash_save_error, s1, f1)
         else (Inr n, itemsSave True s1,
               fold (\<lambda>name g. snd (os_RemoveAll g (trashRoot s @ [trashItemsDir, name])))
                 (children f1 (trashRoot s @ [trashItemsDir])) f1))"

definition item_expired :: "gotime \<Rightarrow> duration \<Rightarrow> TrashItem \<Rightarrow> bool" where
  "item_expired now olderThan it \<longleftrightarrow> tiDeletedAt it < now - olderThan"

definition purgeExpired :: "gotime \<Rightarrow> duration \<Rightarrow> bool \<Rightarrow> trashStore \<times> fs \<Rightarrow> nat \<times> trashStore \<times> fs" where
  "purgeExpired now olderThan ok sf =
     (let (s, f) = sf;
          gone = filter (item_expired now olderThan) (Items s);
          kept = filter (\<lambda>it. \<not> item_expired now olderThan it) (Items s);
          f1 = fold (remove_item_files s \<circ> tiID) gone f
      in if gone = [] then (0, s, f1)
         else (length gone, itemsSave ok (s\<lparr>Items := kept\<rparr>), f1))"

subsection \<open>What was trashed is restored\<close>

text \<open>
  The setting of a healthy server: the real root is cached, it and the trash directory are real
  directories, and no entry fails with an I/O error.
\<close>

definition healthy :: "path_env \<Rightarrow> apath \<Rightarrow> trashStore \<Rightarrow> fs \<Rightarrow> bool" where
  "healthy env root s f \<longleftrightarrow> cachedRealRoot env (rootDir env) = Some root \<and> real_dir f root \<and>
     trashRoot s = root @ [trashDirName] \<and> real_dir f (root @ [trashDirName, trashItemsDir]) \<and>
     rfail f = (\<lambda>_. False) \<and> wfail f = (\<lambda>_. False)"

lemma healthy_root: "healthy env root s f \<Longrightarrow> storageRealRoot g env = Inr root"
  by (simp add: healthy_def storageRealRoot_def)

lemma lookup_node: "rfail f = (\<lambda>_. False) \<Longrightarrow>
  lookup_entry f p = (case node_at f p of None \<Rightarrow> Inl ENOENT | Some n \<Rightarrow> Inr n)"
  by (simp add: lookup_entry_def)

lemma itemPath_valid:
  "healthy env root s f \<Longrightarrow> validShareToken iid \<Longrightarrow>
     itemPath s iid = (root @ [trashDirName, trashItemsDir]) @ [iid]"
  by (simp add: itemPath_def healthy_def join_abs_ordinary_name validShareToken_ordinary)

text \<open>A successful move, spelled out for a link-free source.\<close>

lemma moveToTrash_ok:
  assumes h: "healthy env root s f" and len: "length rnd = 32"
    and vis: "request_comps (Trim rel ''/'') = ds @ [c]" "visible_path (ds @ [c])"
    and par: "real_dir f (root @ ds)" and src: "node_at f (root @ ds @ [c]) = Some n" "\<And>t. n \<noteq> FLink t"
    and free: "\<And>r. node_at f (itemPath s (hex_encode (map byte_val rnd)) @ r) = None"
    and mv: "moveToTrash env now (Some rnd) True rel by (s, f) = (Inr item, s1, f1)"
  shows "tiID item = hex_encode (map byte_val rnd)" "tiOriginalPath item = Trim rel ''/''"
    "s1 = s\<lparr>Items := Items s @ [item], itemsDisk := Some (Items s @ [item])\<rparr>"
    "f1 = move_tree (root @ ds @ [c]) (itemPath s (tiID item)) f"
    "\<not> isTrashPath (Trim rel ''/'')"
proof -
  let ?iid = "hex_encode (map byte_val rnd)" and ?src = "root @ ds @ [c]"
  have v: "validShareToken ?iid" by (rule validShareToken_hex [OF len])
  note ip = itemPath_valid [OF h v]
  have fl: "rfail f = (\<lambda>_. False)" "wfail f = (\<lambda>_. False)" and rd: "real_dir f root"
    and items: "real_dir f (root @ [trashDirName, trashItemsDir])"
    using h by (auto simp: healthy_def)
  from mv have nul: "nul \<notin> set (Trim rel ''/'')"
    by (auto simp: moveToTrash_def safePath_def resolveUnderRoot_def Let_def split: if_splits)
  have oc: "ordinary c" using vis(2) by (simp add: visible_def)
  have lk: "lookup_entry f ((root @ ds) @ [c]) = Inr n" using src fl by (simp add: lookup_node)
  have re: "real_entry f ?src"
  proof (cases n)
    case FDir
    have "real_dir f ((root @ ds) @ [c])" unfolding real_dir_snoc using par oc lk FDir by simp
    then show ?thesis by (simp add: real_entry_def)
  next
    case (FFile b)
    have "?src = (root @ ds) @ [c]" by simp
    with par oc lk FFile show ?thesis unfolding real_entry_def by metis
  next
    case (FLink t)
    with src(2) [of t] show ?thesis by simp
  qed
  have sp: "safePath f env (Trim rel ''/'') = Inr ?src"
    using safePath_exact [OF healthy_root [OF h] rd nul] vis re by simp
  have st: "os_Stat f ?src = Inr n" using os_Stat_entry [OF par oc lk] src(2) by simp
  have mk: "os_MkdirAll f (apath_Dir (itemPath s ?iid)) = (None, f)"
    using ip items fl by (simp add: apath_Dir_def butlast_append os_MkdirAll_real_dir)
  have np: "\<not> prefix ?src (itemPath s ?iid)"
  proof
    assume "prefix ?src (itemPath s ?iid)"
    then have "prefix (ds @ [c]) [trashDirName, trashItemsDir, ?iid]" by (simp add: ip)
    with vis(2) show False by (cases ds) (auto simp: visible_def trashDirName_def)
  qed
  have rn: "os_Rename f ?src (itemPath s ?iid) = Inr (move_tree ?src (itemPath s ?iid) f)"
    using os_Rename_free [OF par items, of c n ?iid] src(1) free [of "[]"] np fl ip by simp
  from mv sp st mk rn show "tiID item = ?iid" "tiOriginalPath item = Trim rel ''/''"
    "s1 = s\<lparr>Items := Items s @ [item], itemsDisk := Some (Items s @ [item])\<rparr>"
    "f1 = move_tree ?src (itemPath s (tiID item)) f" "\<not> isTrashPath (Trim rel ''/'')"
    by (auto simp: moveToTrash_def randomToken_def Let_def itemsSave_def split: if_splits)
qed


definition demo_trash_fs :: fs where
  "demo_trash_fs = set_node [''s'', ''.trash'', ''items''] FDir (set_node [''s'', ''.trash''] FDir demo_fs)"

definition demo_trash :: trashStore where
  "demo_trash = \<lparr>trashRoot = [''s'', ''.trash''], Items = [], itemsDisk = None\<rparr>"

definition demo_trashed :: "TrashItem result \<times> trashStore \<times> fs" where
  "demo_trashed = moveToTrash demo_env 5 (Some demo_rnd) True ''/docs/a.txt'' ''root'' (demo_trash, demo_trash_fs)"

lemma demo_healthy: "healthy demo_env [''s''] demo_trash demo_trash_fs"
  unfolding healthy_def
proof (intro conjI)
  show "cachedRealRoot demo_env (rootDir demo_env) = Some [''s'']" "real_dir demo_trash_fs [''s'']"
    "trashRoot demo_trash = [''s''] @ [trashDirName]"
    "real_dir demo_trash_fs ([''s''] @ [trashDirName, trashItemsDir])" by code_simp+
qed (simp_all add: demo_trash_fs_def demo_fs_def)

lemma demo_item_path:
  "itemPath demo_trash (hex_encode (map byte_val demo_rnd)) =
     [''s'', ''.trash'', ''items'', concat (replicate 32 ''78'')]"
  by code_simp


subsection \<open>The janitor\<close>

lemma remove_item_eq:
  assumes "healthy env root s f" "validShareToken iid"
  shows "remove_item_files s iid f =
    (if node_at f (itemPath s iid) = None then f else del_tree (itemPath s iid) f)"
proof -
  have "real_dir f (root @ [trashDirName, trashItemsDir])" "wfail f = (\<lambda>_. False)"
    using assms(1) by (auto simp: healthy_def)
  moreover from this(1) have "resolve_nofollow f (itemPath s iid) = Inr (itemPath s iid)"
    unfolding itemPath_valid [OF assms] by (rule resolve_nofollow_real)
  ultimately show ?thesis by (simp add: remove_item_files_def os_RemoveAll_def)
qed

lemma real_dir_del_tree:
  assumes "real_dir f p" "\<not> prefix d p" "d \<noteq> []"
  shows "real_dir (del_tree d f) p"
proof -
  have "lookup_entry (del_tree d f) q = lookup_entry f q" if "prefix q p" for q
    using that assms(2,3) by (auto simp: lookup_entry_def node_at_del_tree dest: prefix_order.trans)
  then show ?thesis using assms(1) by (auto simp: real_dir_def list_all_iff)
qed

lemma healthy_remove_item:
  assumes "healthy env root s f" "validShareToken iid"
  shows "healthy env root s (remove_item_files s iid f)"
proof (cases "node_at f (itemPath s iid) = None")
  case False
  have "\<not> prefix (itemPath s iid) (root @ [trashDirName, trashItemsDir])" "\<not> prefix (itemPath s iid) root"
    using itemPath_valid [OF assms] by (auto dest: prefix_length_le)
  with False assms itemPath_valid [OF assms] show ?thesis
    by (auto simp: remove_item_eq healthy_def intro!: real_dir_del_tree)
qed (use assms in \<open>simp add: remove_item_eq\<close>)

lemma remove_items_other:
  assumes "healthy env root s f" "\<forall>i\<in>set ids. validShareToken i"
    and "\<forall>i\<in>set ids. \<not> prefix (itemPath s i) q"
  shows "node_at (fold (remove_item_files s) ids f) q = node_at f q"
  using assms
proof (induction ids arbitrary: f)
  case (Cons j ids)
  then have v: "validShareToken j" by simp
  have "itemPath s j \<noteq> []" using itemPath_valid [OF Cons.prems(1) v] by simp
  then have "node_at (remove_item_files s j f) q = node_at f q"
    using remove_item_eq [OF Cons.prems(1) v] Cons.prems(3) by (simp add: node_at_del_tree)
  with Cons.IH [OF healthy_remove_item [OF Cons.prems(1) v]] Cons.prems show ?case by simp
qed simp

lemma remove_items_gone:
  assumes "healthy env root s f" "\<forall>i\<in>set ids. validShareToken i" "i \<in> set ids"
  shows "node_at (fold (remove_item_files s) ids f) (itemPath s i) = None"
  using assms
proof (induction ids arbitrary: f)
  case (Cons j ids)
  then have v: "validShareToken j" by simp
  note h = healthy_remove_item [OF Cons.prems(1) v]
  show ?case
  proof (cases "i \<in> set ids")
    case True
    with Cons.IH [OF h] Cons.prems show ?thesis by simp
  next
    case False
    with Cons.prems have ij: "i = j" by simp
    have p: "itemPath s j \<noteq> []" using itemPath_valid [OF Cons.prems(1) v] by simp
    have "\<forall>k\<in>set ids. \<not> prefix (itemPath s k) (itemPath s j)"
      using False ij Cons.prems(2) itemPath_valid [OF Cons.prems(1)] by auto
    then have "node_at (fold (remove_item_files s) ids (remove_item_files s j f)) (itemPath s j) =
        node_at (remove_item_files s j f) (itemPath s j)"
      using Cons.prems(2) by (intro remove_items_other [OF h]) auto
    then show ?thesis using ij p remove_item_eq [OF Cons.prems(1) v] by (simp add: node_at_del_tree)
  qed
qed simp

text \<open>
  The janitor removes exactly what is past its retention: the records left are those deleted no
  longer than the retention ago, the count returned is that of the others, their files are
  gone, and no entry outside them changes; in particular every kept item is still there.
\<close>

theorem purgeExpired_exact:
  assumes "healthy env root s f" and "\<forall>it\<in>set (Items s). validShareToken (tiID it)"
    and "purgeExpired now olderThan ok (s, f) = (n, s', f')"
  shows "Items s' = filter (\<lambda>it. now - olderThan \<le> tiDeletedAt it) (Items s) \<and>
    n + length (Items s') = length (Items s) \<and>
    (\<forall>it\<in>set (Items s). tiDeletedAt it < now - olderThan \<longrightarrow> node_at f' (itemPath s (tiID it)) = None) \<and>
    (\<forall>q. (\<forall>it\<in>set (Items s). tiDeletedAt it < now - olderThan \<longrightarrow> \<not> prefix (itemPath s (tiID it)) q) \<longrightarrow>
       node_at f' q = node_at f q)"
proof -
  let ?gone = "filter (item_expired now olderThan) (Items s)"
  have f': "f' = fold (remove_item_files s) (map tiID ?gone) f"
    using assms(3) by (auto simp: purgeExpired_def Let_def fold_map split: if_splits)
  have its: "Items s' = filter (\<lambda>it. now - olderThan \<le> tiDeletedAt it) (Items s)"
    using assms(3) by (auto simp: purgeExpired_def Let_def itemsSave_def item_expired_def not_less
        filter_empty_conv split: if_splits)
  have n: "n = length ?gone" using assms(3) by (auto simp: purgeExpired_def Let_def split: if_splits)
  have v: "\<forall>i\<in>set (map tiID ?gone). validShareToken i" using assms(2) by auto
  note other = remove_items_other [OF assms(1) v] and gone = remove_items_gone [OF assms(1) v]
  have "n + length (Items s') = length (Items s)"
    using n its sum_length_filter_compl [of "item_expired now olderThan" "Items s"]
    by (simp add: item_expired_def not_less)
  moreover have "node_at f' (itemPath s (tiID it)) = None"
    if "it \<in> set (Items s)" "tiDeletedAt it < now - olderThan" for it
    unfolding f' using that by (intro gone) (auto simp: item_expired_def)
  moreover have "node_at f' q = node_at f q"
    if "\<forall>it\<in>set (Items s). tiDeletedAt it < now - olderThan \<longrightarrow> \<not> prefix (itemPath s (tiID it)) q" for q
    unfolding f' using that by (intro other) (auto simp: item_expired_def)
  ultimately show ?thesis using its by blast
qed

definition demo_old_trash :: trashStore where
  "demo_old_trash = demo_trash\<lparr>Items := [\<lparr>tiID = demo_token, tiOriginalPath = ''docs/old.txt'', tiName = ''old.txt'',
     tiIsDir = False, tiDeletedAt = 5, tiDeletedBy = ''root'', tiSize = 3\<rparr>]\<rparr>"

theorem purgeExpired_exact_witness:
  "Items (fst (snd (purgeExpired 100 10 True (demo_old_trash, demo_trash_fs)))) = [] \<and>
   node_at (snd (snd (purgeExpired 100 10 True (demo_old_trash, demo_trash_fs)))) [''s'', ''docs''] = Some FDir"
proof -
  obtain n s' f' where p: "purgeExpired 100 10 True (demo_old_trash, demo_trash_fs) = (n, s', f')"
    by (metis prod.collapse)
  have h: "healthy demo_env [''s''] demo_old_trash demo_trash_fs"
    using demo_healthy by (simp add: healthy_def demo_old_trash_def)
  have v: "validShareToken demo_token" by code_simp
  have ip: "itemPath demo_old_trash demo_token = [''s'', trashDirName, trashItemsDir, demo_token]"
    using itemPath_valid [OF h v] by simp
  have "node_at demo_trash_fs [''s'', ''docs''] = Some FDir" by code_simp
  moreover have "\<not> prefix (itemPath demo_old_trash demo_token) [''s'', ''docs'']"
    unfolding ip by (simp add: trashDirName_def)
  ultimately show ?thesis
    using purgeExpired_exact [OF h _ p] v p by (simp add: demo_old_trash_def)
qed

end
