(* ===== verification/Upload.thy ===== *)
theory Upload
  imports Tokens Machine "HOL-Library.Signed_Division"
begin

text \<open>
  Resumable uploads (\<open>upload.go\<close>): a session is a directory \<open>.uploads/<id>\<close> with \<open>meta.json\<close>
  and one file per chunk, and, once used, an entry of the table of active uploads. The entry is
  a pointer that several requests may hold, so it lives in a small heap: the calls of one
  request (\<open>acquire\<close>, then the part under the session's mutex) are separate operations here and
  other requests can come in between. Main results: chunks sent in any order, repeated, with
  restarts in between, assemble to the file that was cut up; no stored chunk has a wrong size;
  a request that comes after the upload ended is refused and changes nothing.
\<close>

subsection \<open>State\<close>

definition defaultChunkSize :: int where "defaultChunkSize = 2 * 2 ^ 20"
definition maxChunkSize :: int where "maxChunkSize = 8 * 2 ^ 20"
definition uploadSessionTTL :: duration where "uploadSessionTTL = 24 * hour_ns"

record uploadMeta =
  umID :: string
  umPath :: string
  umName :: string
  umSize :: int
  umChunkSize :: int
  umTotal :: int
  umCreatedAt :: gotime
  umCreatedBy :: string

record activeUpload =
  auMeta :: uploadMeta
  received :: "int list"
  aborted :: bool

text \<open>\<open>meta.json\<close> as a reader finds it: reading fails, the JSON does not parse, or a value.\<close>

datatype metaFile = MetaUnreadable error | MetaBad error | MetaOK uploadMeta

record sessionDir =
  sdMeta :: metaFile
  sdChunks :: "(int \<times> string) list"

record uploadManager =
  umRoot :: apath
  dirs :: "(string \<times> sessionDir) list"
  rmFails :: "string \<Rightarrow> bool" \<comment> \<open>the directory of this session cannot be removed\<close>
  reaped :: gotime
  active :: "(string \<times> nat) list" \<comment> \<open>id to pointer\<close>
  heap :: "activeUpload list" \<comment> \<open>pointer to upload\<close>

subsection \<open>Session directories\<close>

definition sessionDirPath :: "uploadManager \<Rightarrow> string \<Rightarrow> apath" where
  "sessionDirPath um i = umRoot um @ [i]"

definition removeSession :: "string \<Rightarrow> uploadManager \<Rightarrow> uploadManager" where
  "removeSession i um = (if rmFails um i then um else um\<lparr>dirs := adel i (dirs um)\<rparr>)"

definition chunk_name :: "int \<Rightarrow> string" where
  "chunk_name i = ''chunk_'' @ replicate (6 - length (itoa_int i)) (CHR ''0'') @ itoa_int i"

definition chunks_of :: "uploadManager \<Rightarrow> string \<Rightarrow> (int \<times> string) list" where
  "chunks_of um i = (case map_of (dirs um) i of None \<Rightarrow> [] | Some d \<Rightarrow> sdChunks d)"

definition readMetaDisk :: "gotime \<Rightarrow> string \<Rightarrow> uploadManager \<Rightarrow> uploadMeta result" where
  "readMetaDisk now i um =
     (if \<not> validShareToken i then Inl ''invalid upload id''
      else case map_of (dirs um) i of
        None \<Rightarrow> Inl (path_error ''open'' (sessionDirPath um i @ [''meta.json'']) ENOENT)
      | Some d \<Rightarrow>
          (case sdMeta d of
             MetaUnreadable e \<Rightarrow> Inl e
           | MetaBad e \<Rightarrow> Inl e
           | MetaOK m \<Rightarrow>
               (if umID m \<noteq> i then Inl ''invalid upload id''
                else if now - umCreatedAt m > uploadSessionTTL then Inl ''upload session expired''
                else Inr m)))"

definition scanReceivedDisk :: "string \<Rightarrow> int \<Rightarrow> uploadManager \<Rightarrow> int list" where
  "scanReceivedDisk i tot um =
     filter (\<lambda>k. map_of (chunks_of um i) k \<noteq> None) [0..tot - 1]"

text \<open>\<open>acquire\<close> returns a pointer.\<close>

definition acquire :: "gotime \<Rightarrow> string \<Rightarrow> uploadManager \<Rightarrow> nat result \<times> uploadManager" where
  "acquire now i um =
     (if \<not> validShareToken i then (Inl ''invalid upload id'', um)
      else case map_of (active um) i of
        Some a \<Rightarrow>
          (if now - umCreatedAt (auMeta (heap um ! a)) > uploadSessionTTL
           then (Inl ''upload session expired'', removeSession i (um\<lparr>active := adel i (active um)\<rparr>))
           else (Inr a, um))
      | None \<Rightarrow>
          (case readMetaDisk now i um of
             Inl e \<Rightarrow> (Inl e, if Contains e ''expired'' then removeSession i um else um)
           | Inr m \<Rightarrow>
               (let a = length (heap um) in
                (Inr a, um\<lparr>active := aput i a (active um),
                  heap := heap um @ [\<lparr>auMeta = m, received = scanReceivedDisk i (umTotal m) um,
                                       aborted = False\<rparr>]\<rparr>))))"

definition receivedList :: "uploadManager \<Rightarrow> nat \<Rightarrow> int list" where
  "receivedList um a =
     filter (\<lambda>k. k \<in> set (received (heap um ! a))) [0..umTotal (auMeta (heap um ! a)) - 1]"

text \<open>
  The janitor, at most once an hour: directories whose metadata is older than a day, or whose
  metadata cannot be read and which were not modified for a day (\<open>mtime\<close>: the modification
  time, or \<open>None\<close> when it cannot be read).
\<close>

definition reap_dir :: "gotime \<Rightarrow> (string \<Rightarrow> gotime option) \<Rightarrow> string \<times> sessionDir \<Rightarrow> bool" where
  "reap_dir now mtime e =
     (case sdMeta (snd e) of
        MetaUnreadable _ \<Rightarrow>
          (case mtime (fst e) of None \<Rightarrow> False | Some t \<Rightarrow> now - t > uploadSessionTTL)
      | MetaBad _ \<Rightarrow> False
      | MetaOK m \<Rightarrow> now - umCreatedAt m > uploadSessionTTL)"

definition reapExpired :: "gotime \<Rightarrow> (string \<Rightarrow> gotime option) \<Rightarrow> uploadManager \<Rightarrow> uploadManager" where
  "reapExpired now mtime um =
     (if now - reaped um < hour_ns then um
      else fold (\<lambda>e u. if reap_dir now mtime e
                       then removeSession (fst e) (u\<lparr>active := adel (fst e) (active u)\<rparr>) else u)
             (dirs um) (um\<lparr>reaped := now\<rparr>))"

text \<open>A start of the program on a directory that holds the sessions of earlier runs.\<close>

definition newUploadManager ::
  "gotime \<Rightarrow> (string \<Rightarrow> gotime option) \<Rightarrow> apath \<Rightarrow> (string \<times> sessionDir) list \<Rightarrow> (string \<Rightarrow> bool) \<Rightarrow>
   oserr option \<Rightarrow> uploadManager result"
where
  "newUploadManager now mtime dataDir ds rm mkErr =
     (case mkErr of
        Some e \<Rightarrow> Inl (path_error ''mkdir'' (dataDir @ [''.uploads'']) e)
      | None \<Rightarrow>
          Inr (reapExpired now mtime
            \<lparr>umRoot = dataDir @ [''.uploads''], dirs = ds, rmFails = rm, reaped = 0,
             active = [], heap = []\<rparr>))"

subsection \<open>Opening an upload\<close>

text \<open>The relative name of a file inside an uploaded folder: directory and base name.\<close>

definition upload_part_ok :: "string \<Rightarrow> bool" where
  "upload_part_ok part \<longleftrightarrow>
     \<not> (part = [] \<or> part = ''.'' \<or> part = ''..'' \<or> HasPrefix part ''.'') \<and> sanitizeName part = part"

definition upload_name :: "string \<Rightarrow> (string \<times> string) result" where
  "upload_name name =
     (let rel = ReplaceByte (Trim name ''/'') backslash ''/''; parts = split_on slash rel in
      if rel = [] then Inl ''invalid filename''
      else if \<not> list_all upload_part_ok parts then Inl ''invalid filename''
      else Inr (if length parts > 1 then join_with ''/'' (butlast parts) else [], last parts))"

definition clamp_chunk :: "int \<Rightarrow> int" where
  "clamp_chunk c = (let c1 = (if c \<le> 0 then defaultChunkSize else c)
                    in if c1 > maxChunkSize then maxChunkSize else c1)"

definition total_chunks :: "int \<Rightarrow> int \<Rightarrow> int" where
  "total_chunks sz cs = (if sz = 0 then 1 else int64 (int64 (sz + cs) - 1) sdiv cs)"

text \<open>The destination checks: the directory is made, the final name must be free.\<close>

definition upload_target ::
  "path_env \<Rightarrow> string \<Rightarrow> string \<Rightarrow> fs \<Rightarrow> unit result \<times> fs"
where
  "upload_target env destRel base f =
     (case safePath f env destRel of
        Inl _ \<Rightarrow> (Inl ''invalid path'', f)
      | Inr destDir \<Rightarrow>
      (case os_MkdirAll f destDir of
        (Some _, f1) \<Rightarrow> (Inl ''failed to create destination folders'', f1)
      | (None, f1) \<Rightarrow>
      (if os_Stat f1 destDir \<noteq> Inr FDir then (Inl ''destination must be a directory'', f1)
       else case safePath f1 env (pathJoin [destRel, base]) of
         Inl _ \<Rightarrow> (Inl ''invalid destination'', f1)
       | Inr finalAbs \<Rightarrow>
           (case os_Stat f1 finalAbs of
              Inr _ \<Rightarrow> (Inl (base @ '' already exists''), f1)
            | Inl e \<Rightarrow> (if e \<noteq> ENOENT then (Inl ''failed to check destination'', f1) else (Inr (), f1))))))"

text \<open>
  The last part of \<open>init\<close>: the session is made; \<open>mkErr\<close> and \<open>saveErr\<close> are the outcomes of making
  its directory and of writing \<open>meta.json\<close>.
\<close>

definition um_open ::
  "gotime \<Rightarrow> (string \<Rightarrow> gotime option) \<Rightarrow> string option \<Rightarrow> error option \<Rightarrow> error option \<Rightarrow>
   string \<Rightarrow> string \<Rightarrow> int \<Rightarrow> int \<Rightarrow> string \<Rightarrow> uploadManager \<Rightarrow> (uploadMeta \<times> int list) result \<times> uploadManager"
where
  "um_open now mtime rnd mkErr saveErr destRel base sz cs createdBy um =
     (case randomToken rnd of
        Inl e \<Rightarrow> (Inl e, um)
      | Inr i \<Rightarrow>
      (case mkErr of
         Some e \<Rightarrow> (Inl e, um)
       | None \<Rightarrow>
           (let m = \<lparr>umID = i, umPath = destRel, umName = base, umSize = sz, umChunkSize = cs,
                     umTotal = total_chunks sz cs, umCreatedAt = now, umCreatedBy = createdBy\<rparr>
            in case saveErr of
                 Some e \<Rightarrow> (Inl e, removeSession i um)
               | None \<Rightarrow>
                   (Inr (m, []),
                    reapExpired now mtime
                      (um\<lparr>dirs := aput i \<lparr>sdMeta = MetaOK m, sdChunks = chunks_of um i\<rparr> (dirs um),
                          active := aput i (length (heap um)) (active um),
                          heap := heap um @ [\<lparr>auMeta = m, received = [], aborted = False\<rparr>]\<rparr>)))))"

definition um_init ::
  "path_env \<Rightarrow> int \<Rightarrow> gotime \<Rightarrow> (string \<Rightarrow> gotime option) \<Rightarrow> string option \<Rightarrow> error option \<Rightarrow> error option \<Rightarrow>
   string \<Rightarrow> string \<Rightarrow> int \<Rightarrow> int \<Rightarrow> string \<Rightarrow> uploadManager \<times> fs \<Rightarrow>
   (uploadMeta \<times> int list) result \<times> uploadManager \<times> fs"
where
  "um_init env maxUploadBytes now mtime rnd mkErr saveErr destPath name sz chunkSize createdBy uf =
     (let (um, f) = uf in
      case upload_name name of
        Inl e \<Rightarrow> (Inl e, um, f)
      | Inr (subDir, base) \<Rightarrow>
      (if sz < 0 \<or> sz > maxUploadBytes
       then (Inl (''file too large (max '' @ itoa_int (maxUploadBytes div 2 ^ 20) @ '' MB)''), um, f)
       else
      (let cs = clamp_chunk chunkSize;
           dest0 = Trim destPath ''/'';
           destRel = (if subDir \<noteq> [] then pathJoin [dest0, subDir] else dest0)
       in if isTrashPath destRel \<or> isTrashPath (pathJoin [destRel, base])
          then (Inl ''cannot upload into trash'', um, f)
          else case upload_target env destRel base f of
            (Inl e, f1) \<Rightarrow> (Inl e, um, f1)
          | (Inr _, f1) \<Rightarrow>
              (case um_open now mtime rnd mkErr saveErr destRel base sz cs createdBy um of
                 (r, um1) \<Rightarrow> (r, um1, f1)))))"

subsection \<open>Chunks\<close>

definition expected_size :: "uploadMeta \<Rightarrow> int \<Rightarrow> int" where
  "expected_size m k =
     (if k = umTotal m - 1 then int64 (umSize m - int64 (k * umChunkSize m)) else umChunkSize m)"

text \<open>
  A request body as a reader sees it: the bytes that arrive and the error that cuts them off, if
  any. \<open>chunk_io\<close> holds the outcomes of opening, writing and renaming the chunk file.
\<close>

type_synonym reader = "string \<times> error option"

record chunk_io =
  io_open :: "error option"
  io_write :: "error option"
  io_rename :: "error option"

definition io_ok :: chunk_io where
  "io_ok = \<lparr>io_open = None, io_write = None, io_rename = None\<rparr>"

text \<open>\<open>io.Copy(f, io.LimitReader(r, n))\<close>: the bytes copied, or the error.\<close>

definition copy_limited :: "reader \<Rightarrow> int \<Rightarrow> error option \<Rightarrow> string result" where
  "copy_limited r n werr =
     (if int (length (fst r)) < n \<and> snd r \<noteq> None then Inl (the (snd r))
      else case werr of Some e \<Rightarrow> Inl e | None \<Rightarrow> Inr (take (nat n) (fst r)))"

text \<open>The part of \<open>writeChunk\<close> under the session's mutex, for the pointer \<open>a\<close>.\<close>

definition writeChunk_locked ::
  "string \<Rightarrow> nat \<Rightarrow> int \<Rightarrow> reader \<Rightarrow> int \<Rightarrow> chunk_io \<Rightarrow> uploadManager \<Rightarrow> unit result \<times> uploadManager"
where
  "writeChunk_locked i a k r declared io um =
     (let au = heap um ! a; m = auMeta au; expected = expected_size m k in
      if aborted au then (Inl ''upload session not found'', um)
      else if k < 0 \<or> k \<ge> umTotal m then (Inl ''invalid chunk index'', um)
      else if k = umTotal m - 1 \<and> expected < 0 then (Inl ''invalid chunk size'', um)
      else if declared \<ge> 0 \<and> declared \<noteq> expected then (Inl ''unexpected chunk size'', um)
      else case map_of (dirs um) i of
        None \<Rightarrow> (Inl (path_error ''open'' (sessionDirPath um i @ [chunk_name k @ ''.tmp'']) ENOENT), um)
      | Some d \<Rightarrow>
      (case io_open io of
        Some e \<Rightarrow> (Inl e, um)
      | None \<Rightarrow>
      (case copy_limited r (int64 (expected + 1)) (io_write io) of
        Inl e \<Rightarrow> (Inl e, um)
      | Inr bytes \<Rightarrow>
          (if int (length bytes) \<noteq> expected
           then (Inl (''incomplete chunk (got '' @ itoa (length bytes) @ '', want '' @ itoa_int expected @ '')''), um)
           else case io_rename io of
             Some e \<Rightarrow> (Inl e, um)
           | None \<Rightarrow>
               (Inr (),
                um\<lparr>dirs := aput i (d\<lparr>sdChunks := aput k bytes (sdChunks d)\<rparr>) (dirs um),
                   heap := (heap um)[a := au\<lparr>received := List.insert k (received au)\<rparr>]\<rparr>)))))"

definition writeChunk ::
  "gotime \<Rightarrow> string \<Rightarrow> int \<Rightarrow> reader \<Rightarrow> int \<Rightarrow> chunk_io \<Rightarrow> uploadManager \<Rightarrow> unit result \<times> uploadManager"
where
  "writeChunk now i k r declared io um =
     (case acquire now i um of
        (Inl e, um1) \<Rightarrow> (Inl e, um1)
      | (Inr a, um1) \<Rightarrow> writeChunk_locked i a k r declared io um1)"

subsection \<open>Completing and aborting\<close>

text \<open>The chunk files in order; \<open>k\<close> counts up to \<open>total\<close>.\<close>

fun assemble :: "uploadManager \<Rightarrow> string \<Rightarrow> int list \<Rightarrow> string result" where
  "assemble um i [] = Inr []"
| "assemble um i (k # ks) =
     (case map_of (chunks_of um i) k of
        None \<Rightarrow> Inl (path_error ''open'' (sessionDirPath um i @ [chunk_name k]) ENOENT)
      | Some bytes \<Rightarrow> (case assemble um i ks of Inl e \<Rightarrow> Inl e | Inr rest \<Rightarrow> Inr (bytes @ rest)))"

definition uploading_path :: "apath \<Rightarrow> apath" where
  "uploading_path p = (if p = [] then [''.uploading''] else butlast p @ [last p @ ''.uploading''])"

text \<open>\<open>outErr\<close>: writing or closing the assembled file fails.\<close>

definition complete_locked ::
  "path_env \<Rightarrow> string \<Rightarrow> nat \<Rightarrow> error option \<Rightarrow> uploadManager \<times> fs \<Rightarrow> string result \<times> uploadManager \<times> fs"
where
  "complete_locked env i a outErr uf =
     (let (um, f) = uf; au = heap um ! a; m = auMeta au in
      if aborted au then (Inl ''upload session not found'', um, f)
      else if int (length (received au)) \<noteq> umTotal m
      then (Inl (''missing chunks ('' @ itoa (length (received au)) @ ''/'' @ itoa_int (umTotal m) @ '')''), um, f)
      else case safePath f env (umPath m) of
        Inl _ \<Rightarrow> (Inl ''invalid path'', um, f)
      | Inr destDir \<Rightarrow>
      (if os_Stat f destDir \<noteq> Inr FDir then (Inl ''destination must be an existing directory'', um, f)
       else case safePath f env (pathJoin [umPath m, umName m]) of
         Inl _ \<Rightarrow> (Inl ''invalid destination'', um, f)
       | Inr finalAbs \<Rightarrow>
       (case os_Stat f finalAbs of
          Inr _ \<Rightarrow> (Inl (umName m @ '' already exists''), um, f)
        | Inl e \<Rightarrow>
        (if e \<noteq> ENOENT then (Inl ''failed to check destination'', um, f)
         else
          (let tmp = uploading_path finalAbs; parts = assemble um i [0..umTotal m - 1] in
           case os_CreateExcl f tmp (case parts of Inl _ \<Rightarrow> [] | Inr bs \<Rightarrow> bs) of
             Inl _ \<Rightarrow> (Inl ''failed to create file'', um, f)
           | Inr f1 \<Rightarrow>
               (case parts of
                  Inl e \<Rightarrow> (Inl e, um, snd (os_RemoveAll f1 tmp))
                | Inr bs \<Rightarrow>
                    (case outErr of
                       Some e \<Rightarrow> (Inl e, um, snd (os_RemoveAll f1 tmp))
                     | None \<Rightarrow>
                         (if int (length bs) \<noteq> umSize m
                          then (Inl ''size mismatch after assembly'', um, snd (os_RemoveAll f1 tmp))
                          else case os_Rename f1 tmp finalAbs of
                            Inl e \<Rightarrow> (Inl (link_error ''rename'' tmp finalAbs e), um, snd (os_RemoveAll f1 tmp))
                          | Inr f2 \<Rightarrow>
                              (Inr (umName m),
                               removeSession i (um\<lparr>heap := (heap um)[a := au\<lparr>aborted := True\<rparr>],
                                                   active := adel i (active um)\<rparr>), f2)))))))))"

definition um_complete ::
  "path_env \<Rightarrow> gotime \<Rightarrow> string \<Rightarrow> error option \<Rightarrow> uploadManager \<times> fs \<Rightarrow> string result \<times> uploadManager \<times> fs"
where
  "um_complete env now i outErr uf =
     (case acquire now i (fst uf) of
        (Inl e, um1) \<Rightarrow> (Inl e, um1, snd uf)
      | (Inr a, um1) \<Rightarrow> complete_locked env i a outErr (um1, snd uf))"

definition um_abort :: "string \<Rightarrow> uploadManager \<Rightarrow> unit result \<times> uploadManager" where
  "um_abort i um =
     (if \<not> validShareToken i then (Inl ''invalid upload id'', um)
      else let um1 = um\<lparr>active := adel i (active um)\<rparr>;
               gone = (if rmFails um i \<and> map_of (dirs um) i \<noteq> None
                       then Inl (path_error ''unlinkat'' (sessionDirPath um i) EIO) else Inr ()) in
        case map_of (active um) i of
          Some a \<Rightarrow>
            (gone, removeSession i (um1\<lparr>heap := (heap um)[a := (heap um ! a)\<lparr>aborted := True\<rparr>]\<rparr>))
        | None \<Rightarrow>
            (if map_of (dirs um) i = None then (Inl ''upload session not found'', um1)
             else (gone, removeSession i um1)))"

definition um_status ::
  "gotime \<Rightarrow> string \<Rightarrow> uploadManager \<Rightarrow> (uploadMeta \<times> int list) result \<times> uploadManager"
where
  "um_status now i um =
     (case acquire now i um of
        (Inl e, um1) \<Rightarrow> (Inl e, um1)
      | (Inr a, um1) \<Rightarrow> (Inr (auMeta (heap um1 ! a), receivedList um1 a), um1))"

subsection \<open>Chunk arithmetic\<close>

text \<open>The limit of an upload that is far from the end of \<open>int64\<close>, so that no sum wraps.\<close>

definition sane_limit :: "int \<Rightarrow> bool" where
  "sane_limit maxUploadBytes \<longleftrightarrow> maxUploadBytes < 2 ^ 62"

definition sound_meta :: "int \<Rightarrow> uploadMeta \<Rightarrow> bool" where
  "sound_meta maxUploadBytes m \<longleftrightarrow>
     0 \<le> umSize m \<and> umSize m \<le> maxUploadBytes \<and> 0 < umChunkSize m \<and> umChunkSize m \<le> maxChunkSize \<and>
     umTotal m = total_chunks (umSize m) (umChunkSize m)"

lemma clamp_chunk_bounds: "0 < clamp_chunk c \<and> clamp_chunk c \<le> maxChunkSize"
  by (simp add: clamp_chunk_def Let_def maxChunkSize_def defaultChunkSize_def)

lemma total_chunks_eq:
  assumes "0 \<le> sz" "sz < 2 ^ 62" "0 < cs" "cs \<le> maxChunkSize"
  shows "total_chunks sz cs = (if sz = 0 then 1 else (sz + cs - 1) div cs)"
  using assms by (simp add: total_chunks_def int64_id maxChunkSize_def signed_divide_int_def)

lemma total_chunks_bounds:
  assumes "0 \<le> sz" "sz < 2 ^ 62" "0 < cs" "cs \<le> maxChunkSize"
  shows "1 \<le> total_chunks sz cs" "(total_chunks sz cs - 1) * cs \<le> sz" "sz \<le> total_chunks sz cs * cs"
proof -
  let ?n = "total_chunks sz cs"
  note n = total_chunks_eq [OF assms]
  have "1 \<le> ?n \<and> (?n - 1) * cs \<le> sz \<and> sz \<le> ?n * cs"
  proof (cases "sz = 0")
    case False
    let ?q = "(sz + cs - 1) div cs"
    have e: "?q * cs + (sz + cs - 1) mod cs = sz + cs - 1" by simp
    have r: "0 \<le> (sz + cs - 1) mod cs" "(sz + cs - 1) mod cs < cs" using assms(3) by simp_all
    have s: "(?q - 1) * cs = ?q * cs - cs" by (simp add: left_diff_distrib)
    have "cs div cs \<le> ?q" using False assms by (intro zdiv_mono1) auto
    then have "1 \<le> ?q" using assms(3) by simp
    moreover have "(?q - 1) * cs \<le> sz" "sz \<le> ?q * cs" using e r s by linarith+
    ultimately show ?thesis using n False by simp
  qed (use n assms in simp)
  then show "1 \<le> ?n" "(?n - 1) * cs \<le> sz" "sz \<le> ?n * cs" by blast+
qed

lemma expected_size_eq:
  assumes "sound_meta mx m" "sane_limit mx"
  shows "expected_size m k =
    (if k = umTotal m - 1 then umSize m - (umTotal m - 1) * umChunkSize m else umChunkSize m)"
proof -
  have sz: "0 \<le> umSize m" "umSize m < 2 ^ 62" and cs: "0 < umChunkSize m" "umChunkSize m \<le> maxChunkSize"
    and tot: "umTotal m = total_chunks (umSize m) (umChunkSize m)"
    using assms by (auto simp: sound_meta_def sane_limit_def)
  note b = total_chunks_bounds [OF sz cs, folded tot]
  have "0 \<le> (umTotal m - 1) * umChunkSize m" using b(1) cs(1) by simp
  then have "int64 ((umTotal m - 1) * umChunkSize m) = (umTotal m - 1) * umChunkSize m"
    "int64 (umSize m - (umTotal m - 1) * umChunkSize m) = umSize m - (umTotal m - 1) * umChunkSize m"
    using b(2) sz by (auto intro!: int64_id)
  then show ?thesis by (simp add: expected_size_def)
qed

lemma expected_size_bounds:
  assumes "sound_meta mx m" "sane_limit mx"
  shows "0 \<le> expected_size m k" "expected_size m k \<le> umChunkSize m"
proof -
  have sz: "0 \<le> umSize m" "umSize m < 2 ^ 62" and cs: "0 < umChunkSize m" "umChunkSize m \<le> maxChunkSize"
    and tot: "umTotal m = total_chunks (umSize m) (umChunkSize m)"
    using assms by (auto simp: sound_meta_def sane_limit_def)
  note b = total_chunks_bounds [OF sz cs, folded tot]
  have s: "(umTotal m - 1) * umChunkSize m = umTotal m * umChunkSize m - umChunkSize m"
    by (simp add: left_diff_distrib)
  have "0 \<le> umSize m - (umTotal m - 1) * umChunkSize m"
    "umSize m - (umTotal m - 1) * umChunkSize m \<le> umChunkSize m"
    using b(2,3) s by linarith+
  then show "0 \<le> expected_size m k" "expected_size m k \<le> umChunkSize m"
    unfolding expected_size_eq [OF assms] using cs(1) by simp_all
qed

text \<open>The expected sizes add up to the declared size.\<close>

lemma sum_expected_sizes:
  assumes "sound_meta mx m" "sane_limit mx"
  shows "(\<Sum>k\<in>{0..<umTotal m}. expected_size m k) = umSize m"
proof -
  have sz: "0 \<le> umSize m" "umSize m < 2 ^ 62" and cs: "0 < umChunkSize m" "umChunkSize m \<le> maxChunkSize"
    and tot: "umTotal m = total_chunks (umSize m) (umChunkSize m)"
    using assms by (auto simp: sound_meta_def sane_limit_def)
  have t: "1 \<le> umTotal m" using total_chunks_bounds(1) [OF sz cs] tot by simp
  then have "{0..<umTotal m} = insert (umTotal m - 1) {0..<umTotal m - 1}" by auto
  then have "(\<Sum>k\<in>{0..<umTotal m}. expected_size m k) =
      expected_size m (umTotal m - 1) + (\<Sum>k\<in>{0..<umTotal m - 1}. expected_size m k)"
    by simp
  also have "(\<Sum>k\<in>{0..<umTotal m - 1}. expected_size m k) = (\<Sum>k\<in>{0..<umTotal m - 1}. umChunkSize m)"
    by (rule sum.cong) (auto simp: expected_size_eq [OF assms])
  also have "\<dots> = (umTotal m - 1) * umChunkSize m" using t by simp
  finally show ?thesis by (simp add: expected_size_eq [OF assms])
qed

subsection \<open>What a session directory may hold\<close>

definition sound_chunks :: "uploadMeta \<Rightarrow> (int \<times> string) list \<Rightarrow> bool" where
  "sound_chunks m cs \<longleftrightarrow> distinct (map fst cs) \<and>
     (\<forall>e\<in>set cs. 0 \<le> fst e \<and> fst e < umTotal m \<and> int (length (snd e)) = expected_size m (fst e))"

definition sound_dir :: "int \<Rightarrow> string \<times> sessionDir \<Rightarrow> bool" where
  "sound_dir mx e \<longleftrightarrow> (\<exists>m. sdMeta (snd e) = MetaOK m \<and> umID m = fst e \<and> sound_meta mx m \<and>
     sound_chunks m (sdChunks (snd e)))"

lemma sound_chunks_bytes:
  assumes "sound_meta mx m" "sane_limit mx" "sound_chunks m cs"
  shows "(\<Sum>e\<leftarrow>cs. int (length (snd e))) \<le> umSize m"
proof -
  have d: "distinct (map fst cs)" and c: "\<And>e. e \<in> set cs \<Longrightarrow> 0 \<le> fst e \<and> fst e < umTotal m \<and>
      int (length (snd e)) = expected_size m (fst e)"
    using assms(3) by (auto simp: sound_chunks_def)
  have "(\<Sum>e\<leftarrow>cs. int (length (snd e))) = (\<Sum>e\<leftarrow>cs. expected_size m (fst e))"
    using c by (intro arg_cong [of _ _ sum_list] map_cong) auto
  also have "\<dots> = sum_list (map (expected_size m) (map fst cs))" by (simp add: comp_def)
  also have "\<dots> = (\<Sum>k\<in>set (map fst cs). expected_size m k)"
    using d by (rule sum_list_distinct_conv_sum_set)
  also have "\<dots> \<le> (\<Sum>k\<in>{0..<umTotal m}. expected_size m k)"
    using c expected_size_bounds(1) [OF assms(1,2)] by (intro sum_mono2) auto
  finally show ?thesis using sum_expected_sizes [OF assms(1,2)] by simp
qed

subsection \<open>Executions\<close>

text \<open>
  What can happen to the manager: a request opens an upload (with an id no upload had before),
  looks one up, runs its locked part on a pointer obtained for this id, aborts, the janitor
  runs, the program restarts. Locked parts of different requests interleave freely.
\<close>

datatype up_label = UpOp | UpRestart

definition fresh_id :: "string \<Rightarrow> uploadManager \<Rightarrow> bool" where
  "fresh_id i um \<longleftrightarrow> map_of (dirs um) i = None \<and> (\<forall>au\<in>set (heap um). umID (auMeta au) \<noteq> i)"

inductive up_step :: "int \<Rightarrow> uploadManager \<Rightarrow> up_label \<Rightarrow> uploadManager \<Rightarrow> bool" for mx where
  step_init: "um_init env mx now mtime rnd mkErr saveErr dest name sz cs who (um, f) = (r, um', f') \<Longrightarrow>
    (\<And>b. rnd = Some b \<Longrightarrow> fresh_id (hex_encode (map byte_val b)) um) \<Longrightarrow> up_step mx um UpOp um'"
| step_acquire: "acquire now i um = (ra, um') \<Longrightarrow> up_step mx um UpOp um'"
| step_chunk: "a < length (heap um) \<Longrightarrow> umID (auMeta (heap um ! a)) = i \<Longrightarrow>
    writeChunk_locked i a k body declared io um = (rc, um') \<Longrightarrow> up_step mx um UpOp um'"
| step_complete: "a < length (heap um) \<Longrightarrow> umID (auMeta (heap um ! a)) = i \<Longrightarrow>
    complete_locked env i a outErr (um, f) = (rs, um', f') \<Longrightarrow> up_step mx um UpOp um'"
| step_abort: "um_abort i um = (ru, um') \<Longrightarrow> up_step mx um UpOp um'"
| step_reap: "up_step mx um UpOp (reapExpired now mtime um)"
| step_restart: "newUploadManager now mtime dataDir (dirs um) rm None = Inr um' \<Longrightarrow>
    up_step mx um UpRestart um'"

inductive_cases up_stepE: "up_step mx um l um'"

definition linked_meta :: "uploadManager \<Rightarrow> activeUpload \<Rightarrow> bool" where
  "linked_meta um au \<longleftrightarrow> (\<forall>d. map_of (dirs um) (umID (auMeta au)) = Some d \<longrightarrow> sdMeta d = MetaOK (auMeta au))"

definition up_inv :: "int \<Rightarrow> uploadManager \<Rightarrow> bool" where
  "up_inv mx um \<longleftrightarrow> sane_limit mx \<and> distinct (map fst (dirs um)) \<and> (\<forall>e\<in>set (dirs um). sound_dir mx e) \<and>
     (\<forall>au\<in>set (heap um). linked_meta um au) \<and>
     (\<forall>(i, a)\<in>set (active um). a < length (heap um) \<and> umID (auMeta (heap um ! a)) = i)"

text \<open>Steps that only forget directories and table entries and set flags.\<close>

definition shrinks :: "uploadManager \<Rightarrow> uploadManager \<Rightarrow> bool" where
  "shrinks um um' \<longleftrightarrow> map auMeta (heap um') = map auMeta (heap um) \<and>
     set (active um') \<subseteq> set (active um) \<and> (\<exists>P. dirs um' = filter P (dirs um))"

lemma shrinks_refl [simp]: "shrinks um um"
  unfolding shrinks_def by (auto intro: exI [of _ "\<lambda>_. True"])

lemma shrinks_trans: "shrinks a b \<Longrightarrow> shrinks b c \<Longrightarrow> shrinks a c"
  unfolding shrinks_def by (auto simp: filter_filter)

lemma shrinks_removeSession: "shrinks um um' \<Longrightarrow> shrinks um (removeSession i um')"
  unfolding shrinks_def removeSession_def adel_def by (auto simp: filter_filter)

lemma shrinks_forget:
  assumes "map auMeta h = map auMeta (heap um)"
  shows "shrinks um (um\<lparr>heap := h, active := adel i (active um)\<rparr>)"
    and "shrinks um (um\<lparr>active := adel i (active um), heap := h\<rparr>)"
    and "shrinks um (um\<lparr>active := adel i (active um)\<rparr>)"
  using assms set_adel [of i "active um"] unfolding shrinks_def
  by (auto intro: exI [of _ "\<lambda>_. True"])

lemma shrinks_fold: "(\<And>e u. shrinks u (g e u)) \<Longrightarrow> shrinks u (fold g es u)"
  by (induction es arbitrary: u) (auto intro: shrinks_trans)

lemma map_meta_nth:
  assumes "map auMeta h' = map auMeta h"
  shows "length h' = length h" "\<And>a. a < length h \<Longrightarrow> auMeta (h' ! a) = auMeta (h ! a)"
  using assms map_eq_imp_length_eq by (blast, metis nth_map)

lemma map_meta_mem:
  assumes "map auMeta h' = map auMeta h" "au \<in> set h'"
  shows "\<exists>v\<in>set h. auMeta au = auMeta v"
proof -
  have "auMeta au \<in> set (map auMeta h)" using assms(2) unfolding assms(1) [symmetric] by simp
  then show ?thesis by auto
qed

lemma pointers_cong:
  assumes "\<forall>(i, a)\<in>set ac. a < length h \<and> umID (auMeta (h ! a)) = i"
    and "map auMeta h' = map auMeta h" and "set ac' \<subseteq> set ac"
  shows "\<forall>(i, a)\<in>set ac'. a < length h' \<and> umID (auMeta (h' ! a)) = i"
proof (clarify)
  fix i a
  assume "(i, a) \<in> set ac'"
  then have "a < length h" "umID (auMeta (h ! a)) = i" using assms(1,3) by auto
  then show "a < length h' \<and> umID (auMeta (h' ! a)) = i" using map_meta_nth [OF assms(2)] by simp
qed

lemma map_meta_flag: "map auMeta (h[a := (h ! a)\<lparr>aborted := True\<rparr>]) = map auMeta h"
  by (rule map_update_same) simp

lemma shrinks_inv:
  assumes "up_inv mx um" "shrinks um um'"
  shows "up_inv mx um'"
proof -
  obtain P where P: "dirs um' = filter P (dirs um)" and h: "map auMeta (heap um') = map auMeta (heap um)"
    and act: "set (active um') \<subseteq> set (active um)"
    using assms(2) unfolding shrinks_def by blast
  have d: "distinct (map fst (dirs um))" using assms(1) by (simp add: up_inv_def)
  have lk: "linked_meta um' au" if au: "au \<in> set (heap um')" for au
  proof -
    obtain v where v: "v \<in> set (heap um)" and m: "auMeta au = auMeta v"
      using map_meta_mem [OF h] au by blast
    then have l: "linked_meta um v" using assms(1) unfolding up_inv_def by blast
    have "map_of (dirs um) k = Some e" if "map_of (dirs um') k = Some e" for k e
      using that map_of_filter_distinct [OF d, of P k] unfolding P by (simp split: option.splits if_splits)
    then show ?thesis using l unfolding linked_meta_def m by blast
  qed
  have "\<forall>(i, a)\<in>set (active um). a < length (heap um) \<and> umID (auMeta (heap um ! a)) = i"
    using assms(1) unfolding up_inv_def by blast
  from pointers_cong [OF this h act]
  have ptr: "\<forall>(i, a)\<in>set (active um'). a < length (heap um') \<and> umID (auMeta (heap um' ! a)) = i" .
  have "distinct (map fst (dirs um'))" "\<forall>e\<in>set (dirs um'). sound_dir mx e" "sane_limit mx"
    using assms(1) by (auto simp: up_inv_def P distinct_map_filter)
  with lk ptr show ?thesis unfolding up_inv_def by blast
qed

lemma shrinks_reap: "shrinks um (reapExpired now mtime um)"
proof -
  let ?g = "\<lambda>e u. if reap_dir now mtime e
      then removeSession (fst e) (u\<lparr>active := adel (fst e) (active u)\<rparr>) else u"
  have "shrinks u (?g e u)" for e u
    using shrinks_forget(3) [of "heap u" u "fst e"] by (simp add: shrinks_removeSession)
  then have "shrinks u (fold ?g es u)" for es u by (rule shrinks_fold)
  moreover have "shrinks um (um\<lparr>reaped := now\<rparr>)" by (auto simp: shrinks_def intro: exI [of _ "\<lambda>_. True"])
  ultimately show ?thesis unfolding reapExpired_def by (auto intro: shrinks_trans)
qed

lemma readMetaDisk_OK:
  "readMetaDisk now i um = Inr m \<Longrightarrow>
     \<exists>d. map_of (dirs um) i = Some d \<and> sdMeta d = MetaOK m \<and> umID m = i \<and> now - umCreatedAt m \<le> uploadSessionTTL"
  by (auto simp: readMetaDisk_def split: if_splits option.splits metaFile.splits)

lemma acquire_cases:
  assumes "acquire now i um = (r, um')"
  obtains (shrink) "shrinks um um'" "\<forall>a. r = Inr a \<longrightarrow> um' = um \<and> map_of (active um) i = Some a"
  | (load) m where "r = Inr (length (heap um))" "map_of (active um) i = None" "readMetaDisk now i um = Inr m"
    "um' = um\<lparr>active := aput i (length (heap um)) (active um),
       heap := heap um @ [\<lparr>auMeta = m, received = scanReceivedDisk i (umTotal m) um, aborted = False\<rparr>]\<rparr>"
proof (cases "validShareToken i")
  case False
  show ?thesis by (rule shrink) (use assms False in \<open>auto simp: acquire_def\<close>)
next
  case v: True
  show ?thesis
  proof (cases "map_of (active um) i")
    case (Some a)
    with assms v show ?thesis
      by (intro shrink) (auto simp: acquire_def intro!: shrinks_removeSession shrinks_forget(3) split: if_splits)
  next
    case None
    show ?thesis
    proof (cases "readMetaDisk now i um")
      case (Inl e)
      with assms v None show ?thesis
        by (intro shrink) (auto simp: acquire_def intro!: shrinks_removeSession split: if_splits)
    next
      case (Inr m)
      with assms v None load show ?thesis by (simp add: acquire_def Let_def)
    qed
  qed
qed

lemma acquire_inv:
  assumes inv: "up_inv mx um" and ac: "acquire now i um = (r, um')"
  shows "up_inv mx um'"
  using ac
proof (cases rule: acquire_cases)
  case shrink
  with inv show ?thesis by (blast intro: shrinks_inv)
next
  case (load m)
  let ?new = "\<lparr>auMeta = m, received = scanReceivedDisk i (umTotal m) um, aborted = False\<rparr>"
  have "linked_meta um' ?new" "umID m = i"
    using readMetaDisk_OK [OF load(3)] load(4) by (auto simp: linked_meta_def)
  then show ?thesis
    using inv set_aput [of i "length (heap um)" "active um"]
    unfolding up_inv_def load(4) by (auto simp: linked_meta_def nth_append)
qed

lemma complete_locked_shrinks:
  assumes "complete_locked env i a outErr (um, f) = (r, um', f')"
  shows "shrinks um um'"
proof -
  have "shrinks um (removeSession i (um\<lparr>heap := (heap um)[a := (heap um ! a)\<lparr>aborted := True\<rparr>],
      active := adel i (active um)\<rparr>))"
    by (intro shrinks_removeSession shrinks_forget map_meta_flag)
  then show ?thesis
    using assms by (auto simp: complete_locked_def Let_def split: if_splits option.splits sum.splits)
qed

lemma um_abort_shrinks:
  assumes "um_abort i um = (r, um')"
  shows "shrinks um um'"
  using assms shrinks_forget(3) [of "heap um" um i]
    shrinks_removeSession [OF shrinks_forget(2) [OF map_meta_flag]]
  by (auto simp: um_abort_def Let_def intro: shrinks_removeSession split: if_splits option.splits)

text \<open>A chunk is written: one more chunk of the right size, nothing else.\<close>

lemma writeChunk_locked_cases:
  assumes "writeChunk_locked i a k r declared io um = (res, um')"
  obtains (refused) e where "res = Inl e" "um' = um"
  | (stored) d where "res = Inr ()" "\<not> aborted (heap um ! a)" "map_of (dirs um) i = Some d"
    "0 \<le> k" "k < umTotal (auMeta (heap um ! a))"
    "int (length (take (nat (int64 (expected_size (auMeta (heap um ! a)) k + 1))) (fst r))) =
       expected_size (auMeta (heap um ! a)) k"
    "um' = um\<lparr>dirs := aput i (d\<lparr>sdChunks :=
         aput k (take (nat (int64 (expected_size (auMeta (heap um ! a)) k + 1))) (fst r)) (sdChunks d)\<rparr>) (dirs um),
       heap := (heap um)[a := (heap um ! a)\<lparr>received := List.insert k (received (heap um ! a))\<rparr>]\<rparr>"
proof (cases res)
  case (Inl e)
  moreover from this assms have "um' = um"
    by (auto simp: writeChunk_locked_def Let_def split: if_splits option.splits sum.splits)
  ultimately show ?thesis by (rule refused)
next
  case (Inr u)
  with assms stored show ?thesis
    by (auto simp: writeChunk_locked_def copy_limited_def Let_def split: if_splits option.splits)
qed

lemma writeChunk_locked_inv:
  assumes inv: "up_inv mx um" and a: "a < length (heap um)" "umID (auMeta (heap um ! a)) = i"
    and wr: "writeChunk_locked i a k r declared io um = (res, um')"
  shows "up_inv mx um'"
  using wr
proof (cases rule: writeChunk_locked_cases)
  case (stored d)
  let ?m = "auMeta (heap um ! a)"
  have "linked_meta um (heap um ! a)" using inv a(1) by (auto simp: up_inv_def)
  then have m: "sdMeta d = MetaOK ?m" using stored(3) a(2) by (simp add: linked_meta_def)
  have sd: "sound_dir mx (i, d)" using inv map_of_SomeD [OF stored(3)] by (auto simp: up_inv_def)
  have ds: "distinct (map fst (dirs um))" "\<forall>e\<in>set (dirs um). sound_dir mx e" "sane_limit mx"
    "\<forall>au\<in>set (heap um). linked_meta um au"
    "\<forall>(i, a)\<in>set (active um). a < length (heap um) \<and> umID (auMeta (heap um ! a)) = i"
    using inv unfolding up_inv_def by blast+
  let ?b = "take (nat (int64 (expected_size ?m k + 1))) (fst r)"
  let ?d = "d\<lparr>sdChunks := aput k ?b (sdChunks d)\<rparr>"
  let ?h = "(heap um)[a := (heap um ! a)\<lparr>received := List.insert k (received (heap um ! a))\<rparr>]"
  have h: "map auMeta ?h = map auMeta (heap um)" by (rule map_update_same) simp
  have d': "dirs um' = aput i ?d (dirs um)" and h': "heap um' = ?h" and ac: "active um' = active um"
    using stored(7) by simp_all
  have "sound_dir mx (i, ?d)"
    using sd m stored(4,5,6) set_aput [of k ?b "sdChunks d"] distinct_aput [of "sdChunks d" k ?b]
    by (fastforce simp: sound_dir_def sound_chunks_def)
  then have "\<forall>e\<in>set (dirs um'). sound_dir mx e" using ds(2) set_aput [of i ?d "dirs um"] unfolding d' by blast
  moreover have "linked_meta um' au" if au: "au \<in> set (heap um')" for au
  proof -
    obtain v where v: "v \<in> set (heap um)" "auMeta au = auMeta v"
      using map_meta_mem [OF h] au unfolding h' by blast
    then have l: "linked_meta um v" using ds(4) by blast
    show ?thesis
    proof (cases "umID (auMeta v) = i")
      case True
      then have "sdMeta d = MetaOK (auMeta v)" using l stored(3) by (simp add: linked_meta_def)
      then show ?thesis using v(2) True by (simp add: linked_meta_def d')
    next
      case False
      then show ?thesis using v(2) l by (simp add: linked_meta_def d')
    qed
  qed
  moreover have "\<forall>(i, a)\<in>set (active um'). a < length (heap um') \<and> umID (auMeta (heap um' ! a)) = i"
    unfolding h' ac by (rule pointers_cong [OF ds(5) h order_refl])
  moreover have "distinct (map fst (dirs um'))" using distinct_aput [OF ds(1)] unfolding d' .
  ultimately show ?thesis using ds(3) unfolding up_inv_def by blast
qed (use inv in simp)

text \<open>An upload is opened.\<close>

lemma um_open_cases:
  assumes "um_open now mtime rnd mkErr saveErr destRel base sz cs who um = (r, um')"
  obtains (refused) e where "r = Inl e" "shrinks um um'"
  | (opened) b m where "rnd = Some b" "r = Inr (m, [])"
    "m = \<lparr>umID = hex_encode (map byte_val b), umPath = destRel, umName = base, umSize = sz,
       umChunkSize = cs, umTotal = total_chunks sz cs, umCreatedAt = now, umCreatedBy = who\<rparr>"
    "um' = reapExpired now mtime
       (um\<lparr>dirs := aput (umID m) \<lparr>sdMeta = MetaOK m, sdChunks = chunks_of um (umID m)\<rparr> (dirs um),
         active := aput (umID m) (length (heap um)) (active um),
         heap := heap um @ [\<lparr>auMeta = m, received = [], aborted = False\<rparr>]\<rparr>)"
proof (cases r)
  case (Inl e)
  moreover from this assms have "shrinks um um'"
    by (auto simp: um_open_def Let_def intro!: shrinks_removeSession split: option.splits sum.splits)
  ultimately show ?thesis by (rule refused)
next
  case (Inr x)
  then obtain b where "rnd = Some b"
    using assms by (cases rnd) (auto simp: um_open_def randomToken_def)
  then show ?thesis
    using Inr assms by (intro opened) (auto simp: um_open_def randomToken_def Let_def split: option.splits)
qed

lemma um_init_cases:
  assumes "um_init env mx now mtime rnd mkErr saveErr dest name sz cs who (um, f) = (r, um', f')"
  obtains (refused) e where "r = Inl e" "um' = um"
  | (opens) subDir base destRel where "0 \<le> sz" "sz \<le> mx" "upload_name name = Inr (subDir, base)"
    "destRel = (if subDir \<noteq> [] then pathJoin [Trim dest ''/'', subDir] else Trim dest ''/'')"
    "\<not> isTrashPath destRel" "upload_target env destRel base f = (Inr (), f')"
    "um_open now mtime rnd mkErr saveErr destRel base sz (clamp_chunk cs) who um = (r, um')"
proof (cases "upload_name name")
  case (Inl e)
  show ?thesis by (rule refused) (use assms Inl in \<open>auto simp: um_init_def\<close>)
next
  case (Inr sb)
  obtain subDir base where sb: "sb = (subDir, base)" by (cases sb)
  let ?rel = "if subDir \<noteq> [] then pathJoin [Trim dest ''/'', subDir] else Trim dest ''/''"
  show ?thesis
  proof (cases "sz < 0 \<or> sz > mx \<or> isTrashPath ?rel \<or> isTrashPath (pathJoin [?rel, base])")
    case True
    with assms Inr sb have "isl r" "um' = um" by (auto simp: um_init_def Let_def split: if_splits)
    then show ?thesis by (cases r) (auto intro: refused)
  next
    case False
    obtain u f1 where u: "upload_target env ?rel base f = (u, f1)" by (metis prod.collapse)
    show ?thesis
    proof (cases u)
      case (Inl e)
      with assms Inr sb False u have "r = Inl e" "um' = um" by (simp_all add: um_init_def Let_def)
      then show ?thesis by (rule refused)
    next
      case (Inr v)
      obtain r' um1 where o: "um_open now mtime rnd mkErr saveErr ?rel base sz (clamp_chunk cs) who um = (r', um1)"
        by (metis prod.collapse)
      with assms \<open>upload_name name = Inr sb\<close> sb False u Inr show ?thesis
        by (intro opens [of subDir base ?rel]) (simp_all add: um_init_def Let_def)
    qed
  qed
qed

lemma um_open_inv:
  assumes inv: "up_inv mx um" and op: "um_open now mtime rnd mkErr saveErr destRel base sz (clamp_chunk cs) who um = (r, um')"
    and fresh: "\<And>b. rnd = Some b \<Longrightarrow> fresh_id (hex_encode (map byte_val b)) um"
    and sz: "0 \<le> sz" "sz \<le> mx"
  shows "up_inv mx um'"
  using op
proof (cases rule: um_open_cases)
  case refused
  with inv show ?thesis by (blast intro: shrinks_inv)
next
  case (opened b m)
  let ?new = "\<lparr>auMeta = m, received = [], aborted = False\<rparr>"
  let ?u = "um\<lparr>dirs := aput (umID m) \<lparr>sdMeta = MetaOK m, sdChunks = chunks_of um (umID m)\<rparr> (dirs um),
         active := aput (umID m) (length (heap um)) (active um), heap := heap um @ [?new]\<rparr>"
  have fr: "map_of (dirs um) (umID m) = None" "\<forall>au\<in>set (heap um). umID (auMeta au) \<noteq> umID m"
    using fresh [OF opened(1)] opened(3) by (simp_all add: fresh_id_def)
  have ch: "chunks_of um (umID m) = []" using fr(1) by (simp add: chunks_of_def)
  have ds: "distinct (map fst (dirs um))" "\<forall>e\<in>set (dirs um). sound_dir mx e" "sane_limit mx"
    "\<forall>au\<in>set (heap um). linked_meta um au"
    "\<forall>(i, a)\<in>set (active um). a < length (heap um) \<and> umID (auMeta (heap um ! a)) = i"
    using inv unfolding up_inv_def by blast+
  have "sound_dir mx (umID m, \<lparr>sdMeta = MetaOK m, sdChunks = []\<rparr>)"
    using opened(3) sz clamp_chunk_bounds [of cs] by (simp add: sound_dir_def sound_meta_def sound_chunks_def)
  then have "\<forall>e\<in>set (dirs ?u). sound_dir mx e"
    using ds(2) set_aput [of "umID m" _ "dirs um"] unfolding ch by fastforce
  moreover have "linked_meta ?u au" if "au \<in> set (heap ?u)" for au
    using that ds(4) fr(2) by (auto simp: linked_meta_def)
  moreover have "\<forall>(i, a)\<in>set (active ?u). a < length (heap ?u) \<and> umID (auMeta (heap ?u ! a)) = i"
    using ds(5) set_aput [of "umID m" "length (heap um)" "active um"] by (fastforce simp: nth_append)
  moreover have "distinct (map fst (dirs ?u))" using distinct_aput [OF ds(1)] by simp
  ultimately have "up_inv mx ?u" using ds(3) unfolding up_inv_def by blast
  then show ?thesis unfolding opened(4) by (rule shrinks_inv [OF _ shrinks_reap])
qed

lemma newUploadManager_inv:
  assumes "up_inv mx um" "newUploadManager now mtime dataDir (dirs um) rm None = Inr um'"
  shows "up_inv mx um'"
proof -
  let ?u = "\<lparr>umRoot = dataDir @ [''.uploads''], dirs = dirs um, rmFails = rm, reaped = 0, active = [], heap = []\<rparr>"
  have "up_inv mx ?u" using assms(1) by (simp add: up_inv_def)
  moreover have "um' = reapExpired now mtime ?u" using assms(2) by (simp add: newUploadManager_def)
  ultimately show ?thesis by (simp add: shrinks_inv [OF _ shrinks_reap])
qed

lemma up_step_inv: "up_step mx um l um' \<Longrightarrow> up_inv mx um \<Longrightarrow> up_inv mx um'"
proof (induction rule: up_step.induct)
  case (step_init env now mtime rnd mkErr saveErr dest name sz cs who um f r um' f')
  from step_init(1) show ?case
    by (cases rule: um_init_cases) (use step_init(2,3) um_open_inv in blast)+
next
  case (step_acquire now i um ra um')
  then show ?case by (blast intro: acquire_inv)
next
  case (step_chunk a um i k body declared io rc um')
  then show ?case by (blast intro: writeChunk_locked_inv)
next
  case (step_complete a um i env outErr f rs um' f')
  then show ?case by (blast intro: shrinks_inv complete_locked_shrinks)
next
  case (step_abort i um ru um')
  then show ?case by (blast intro: shrinks_inv um_abort_shrinks)
next
  case (step_reap um now mtime)
  then show ?case by (blast intro: shrinks_inv shrinks_reap)
next
  case (step_restart now mtime dataDir um rm um')
  then show ?case by (blast intro: newUploadManager_inv)
qed

interpretation upm: invariant_machine "up_step mx" "up_inv mx" for mx
  by unfold_locales (rule up_step_inv)

definition noUploads :: "apath \<Rightarrow> uploadManager" where
  "noUploads dataDir = \<lparr>umRoot = dataDir @ [''.uploads''], dirs = [], rmFails = (\<lambda>_. False), reaped = 0,
     active = [], heap = []\<rparr>"

lemma noUploads_inv: "sane_limit mx \<Longrightarrow> up_inv mx (noUploads dataDir)"
  by (simp add: noUploads_def up_inv_def)


subsection \<open>Resuming an upload\<close>

text \<open>The piece of the file a client sends as chunk \<open>k\<close>.\<close>

definition slice :: "uploadMeta \<Rightarrow> string \<Rightarrow> int \<Rightarrow> string" where
  "slice m data k = take (nat (umChunkSize m)) (drop (nat (k * umChunkSize m)) data)"

text \<open>What the manager holds of one session: its directory and its entry in the table.\<close>

definition session_view :: "string \<Rightarrow> uploadManager \<Rightarrow> sessionDir option \<times> activeUpload option" where
  "session_view i um = (map_of (dirs um) i, map_option ((!) (heap um)) (map_of (active um) i))"

definition pointer_ok :: "string \<Rightarrow> uploadManager \<Rightarrow> bool" where
  "pointer_ok i um \<longleftrightarrow> (case map_of (active um) i of None \<Rightarrow> True | Some a \<Rightarrow> a < length (heap um))"

text \<open>
  The life of one upload: its client sends pieces of the file, in any order and repeatedly, some
  of which fail; anything that does not touch the session happens in between; the program
  restarts. The list collects the pieces that were acknowledged.
\<close>

inductive resumed :: "uploadMeta \<Rightarrow> string \<Rightarrow> uploadManager \<Rightarrow> int list \<Rightarrow> uploadManager \<Rightarrow> bool"
  for m data um0 where
  resumed_start: "resumed m data um0 [] um0"
| resumed_put: "resumed m data um0 ks um \<Longrightarrow> now - umCreatedAt m \<le> uploadSessionTTL \<Longrightarrow>
    writeChunk now (umID m) k (slice m data k, None) declared io um = (r, um') \<Longrightarrow>
    resumed m data um0 (if r = Inr () then k # ks else ks) um'"
| resumed_other: "resumed m data um0 ks um \<Longrightarrow> session_view (umID m) um' = session_view (umID m) um \<Longrightarrow>
    pointer_ok (umID m) um' \<Longrightarrow> resumed m data um0 ks um'"
| resumed_restart: "resumed m data um0 ks um \<Longrightarrow> now - umCreatedAt m \<le> uploadSessionTTL \<Longrightarrow>
    distinct (map fst (dirs um)) \<Longrightarrow>
    newUploadManager now mtime dataDir (dirs um) rm None = Inr um' \<Longrightarrow> resumed m data um0 ks um'"

text \<open>The session holds pieces of \<open>data\<close>, at least those numbered \<open>ks\<close>, and the table agrees.\<close>

definition holds_pieces :: "uploadMeta \<Rightarrow> string \<Rightarrow> int list \<Rightarrow> uploadManager \<Rightarrow> bool" where
  "holds_pieces m data ks um \<longleftrightarrow> validShareToken (umID m) \<and> pointer_ok (umID m) um \<and>
     (\<exists>d. map_of (dirs um) (umID m) = Some d \<and> sdMeta d = MetaOK m \<and>
       (\<forall>k b. map_of (sdChunks d) k = Some b \<longrightarrow> 0 \<le> k \<and> k < umTotal m \<and> b = slice m data k) \<and>
       (\<forall>k\<in>set ks. map_of (sdChunks d) k \<noteq> None) \<and>
       (\<forall>au. snd (session_view (umID m) um) = Some au \<longrightarrow> auMeta au = m \<and> \<not> aborted au \<and>
          distinct (received au) \<and> set (received au) = {k. map_of (sdChunks d) k \<noteq> None}))"

lemma holds_pieces_view:
  assumes "holds_pieces m data ks um" "session_view (umID m) um' = session_view (umID m) um"
    "pointer_ok (umID m) um'"
  shows "holds_pieces m data ks um'"
proof -
  have "map_of (dirs um') (umID m) = map_of (dirs um) (umID m)" using assms(2) by (simp add: session_view_def)
  then show ?thesis using assms unfolding holds_pieces_def by simp
qed

text \<open>\<open>acquire\<close> on such a session succeeds, after a restart too, and the session still holds its pieces.\<close>

lemma acquire_holds:
  assumes h: "holds_pieces m data ks um" and t: "now - umCreatedAt m \<le> uploadSessionTTL"
  obtains a um1 where "acquire now (umID m) um = (Inr a, um1)" "holds_pieces m data ks um1"
    "map_of (active um1) (umID m) = Some a" "a < length (heap um1)"
    "map_of (dirs um1) (umID m) = map_of (dirs um) (umID m)"
proof (cases "map_of (active um) (umID m)")
  case (Some a)
  then have "auMeta (heap um ! a) = m" "a < length (heap um)"
    using h by (auto simp: holds_pieces_def session_view_def pointer_ok_def)
  with Some h t that [of a um] show ?thesis by (simp add: acquire_def holds_pieces_def)
next
  case None
  obtain d where d: "map_of (dirs um) (umID m) = Some d" "sdMeta d = MetaOK m"
    "\<And>k b. map_of (sdChunks d) k = Some b \<Longrightarrow> 0 \<le> k \<and> k < umTotal m \<and> b = slice m data k"
    "\<forall>k\<in>set ks. map_of (sdChunks d) k \<noteq> None" and v: "validShareToken (umID m)"
    using h unfolding holds_pieces_def by blast
  let ?au = "\<lparr>auMeta = m, received = scanReceivedDisk (umID m) (umTotal m) um, aborted = False\<rparr>"
  let ?um1 = "um\<lparr>active := aput (umID m) (length (heap um)) (active um), heap := heap um @ [?au]\<rparr>"
  have a: "acquire now (umID m) um = (Inr (length (heap um)), ?um1)"
    using None d(1,2) v t by (simp add: acquire_def readMetaDisk_def Let_def)
  have "set (received ?au) = {k. map_of (sdChunks d) k \<noteq> None}"
    using d(1,3) by (fastforce simp: scanReceivedDisk_def chunks_of_def)
  moreover have "distinct (received ?au)" by (simp add: scanReceivedDisk_def)
  ultimately have "holds_pieces m data ks ?um1"
    using v d unfolding holds_pieces_def by (simp add: pointer_ok_def session_view_def)
  then show ?thesis by (intro that [OF a]) simp_all
qed

lemma length_slice:
  assumes "sound_meta mx m" "sane_limit mx" "umSize m = int (length data)" "0 \<le> k" "k < umTotal m"
  shows "int (length (slice m data k)) = expected_size m k"
proof -
  have sz: "0 \<le> umSize m" "umSize m < 2 ^ 62" and cs: "0 < umChunkSize m" "umChunkSize m \<le> maxChunkSize"
    and tot: "umTotal m = total_chunks (umSize m) (umChunkSize m)"
    using assms(1,2) by (auto simp: sound_meta_def sane_limit_def)
  note b = total_chunks_bounds [OF sz cs, folded tot]
  have len: "int (length (slice m data k)) = min (umChunkSize m) (umSize m - k * umChunkSize m)"
    if "k * umChunkSize m \<le> umSize m"
  proof -
    have "0 \<le> k * umChunkSize m" using assms(4) cs(1) by simp
    then show ?thesis
      using that assms(3) cs(1) by (simp add: slice_def of_nat_min of_nat_diff nat_le_iff min.commute)
  qed
  show ?thesis
  proof (cases "k = umTotal m - 1")
    case True
    have "(umTotal m - 1) * umChunkSize m = umTotal m * umChunkSize m - umChunkSize m"
      by (simp add: left_diff_distrib)
    then have "umSize m - k * umChunkSize m \<le> umChunkSize m" using b(3) unfolding True by linarith
    then show ?thesis using len b(2) expected_size_eq [OF assms(1,2)] True by simp
  next
    case False
    then have "(k + 1) * umChunkSize m \<le> (umTotal m - 1) * umChunkSize m"
      using assms(5) cs(1) by (intro mult_right_mono) auto
    then have "k * umChunkSize m + umChunkSize m \<le> umSize m" using b(2) by (simp add: distrib_right)
    then show ?thesis using len cs(1) expected_size_eq [OF assms(1,2)] False by simp
  qed
qed

text \<open>Writing a piece through the pointer keeps the pieces, and adds it when it is acknowledged.\<close>

lemma put_holds:
  assumes h: "holds_pieces m data ks um" and s: "sound_meta mx m" "sane_limit mx" "umSize m = int (length data)"
    and a: "map_of (active um) (umID m) = Some a" "a < length (heap um)"
    and w: "writeChunk_locked (umID m) a k (slice m data k, None) declared io um = (r, um')"
  shows "holds_pieces m data (if r = Inr () then k # ks else ks) um'"
  using w
proof (cases rule: writeChunk_locked_cases)
  case (refused e)
  with h show ?thesis by simp
next
  case (stored d)
  let ?au = "heap um ! a"
  have au: "auMeta ?au = m" "\<not> aborted ?au" "distinct (received ?au)"
    "set (received ?au) = {k. map_of (sdChunks d) k \<noteq> None}"
    using h a(1) stored(3) by (auto simp: holds_pieces_def session_view_def)
  have kr: "0 \<le> k" "k < umTotal m" using stored(4,5) au(1) by simp_all
  have len: "int (length (slice m data k)) = expected_size m k" by (rule length_slice [OF s kr])
  have "take (nat (int64 (expected_size (auMeta ?au) k + 1))) (slice m data k) = slice m data k"
    using stored(6) len unfolding au(1) fst_conv by (intro take_all) simp
  then have um': "um' = um\<lparr>dirs := aput (umID m) (d\<lparr>sdChunks := aput k (slice m data k) (sdChunks d)\<rparr>) (dirs um),
      heap := (heap um)[a := ?au\<lparr>received := List.insert k (received ?au)\<rparr>]\<rparr>"
    using stored(7) by simp
  have d: "sdMeta d = MetaOK m" "\<forall>k b. map_of (sdChunks d) k = Some b \<longrightarrow> 0 \<le> k \<and> k < umTotal m \<and> b = slice m data k"
    "\<forall>k\<in>set ks. map_of (sdChunks d) k \<noteq> None" and v: "validShareToken (umID m)"
    using h stored(3) unfolding holds_pieces_def by auto
  have dir: "map_of (dirs um') (umID m) = Some (d\<lparr>sdChunks := aput k (slice m data k) (sdChunks d)\<rparr>)"
    and view: "snd (session_view (umID m) um') = Some (?au\<lparr>received := List.insert k (received ?au)\<rparr>)"
    and ptr: "pointer_ok (umID m) um'"
    using a unfolding um' by (simp_all add: session_view_def pointer_ok_def)
  show ?thesis
    unfolding holds_pieces_def dir view using v ptr d kr au stored(1) by auto
qed

text \<open>The janitor leaves a session alone that is younger than a day.\<close>

lemma reap_view:
  assumes dist: "distinct (map fst (dirs um))" and d: "map_of (dirs um) i = Some d" "sdMeta d = MetaOK m"
    and t: "now - umCreatedAt m \<le> uploadSessionTTL"
  shows "map_of (dirs (reapExpired now mtime um)) i = Some d"
    and "map_of (active (reapExpired now mtime um)) i = map_of (active um) i"
    and "heap (reapExpired now mtime um) = heap um"
proof -
  let ?g = "\<lambda>e u. if reap_dir now mtime e
      then removeSession (fst e) (u\<lparr>active := adel (fst e) (active u)\<rparr>) else u"
  have keep: "\<not> (reap_dir now mtime e \<and> fst e = i)" if "e \<in> set (dirs um)" for e
    using that d t map_of_is_SomeI [OF dist, of "fst e" "snd e"] by (auto simp: reap_dir_def)
  have "map_of (dirs (fold ?g es u)) i = map_of (dirs u) i \<and> heap (fold ?g es u) = heap u \<and>
      map_of (active (fold ?g es u)) i = map_of (active u) i"
    if "\<forall>e\<in>set es. \<not> (reap_dir now mtime e \<and> fst e = i)" for es u
    using that by (induction es arbitrary: u) (auto simp: removeSession_def)
  then have f: "map_of (dirs (fold ?g (dirs um) u)) i = map_of (dirs u) i"
    "heap (fold ?g (dirs um) u) = heap u" "map_of (active (fold ?g (dirs um) u)) i = map_of (active u) i" for u
    using keep by blast+
  show "map_of (dirs (reapExpired now mtime um)) i = Some d"
    "map_of (active (reapExpired now mtime um)) i = map_of (active um) i"
    "heap (reapExpired now mtime um) = heap um"
    using d(1) f [of "um\<lparr>reaped := now\<rparr>"] unfolding reapExpired_def by simp_all
qed

lemma restart_holds:
  assumes h: "holds_pieces m data ks um" and t: "now - umCreatedAt m \<le> uploadSessionTTL"
    and n: "newUploadManager now mtime dataDir (dirs um) rm None = Inr um'"
    and dist: "distinct (map fst (dirs um))"
  shows "holds_pieces m data ks um'"
proof -
  let ?u = "\<lparr>umRoot = dataDir @ [''.uploads''], dirs = dirs um, rmFails = rm, reaped = 0, active = [], heap = []\<rparr>"
  obtain d where d: "map_of (dirs um) (umID m) = Some d" "sdMeta d = MetaOK m" and v: "validShareToken (umID m)"
    and p: "\<forall>k b. map_of (sdChunks d) k = Some b \<longrightarrow> 0 \<le> k \<and> k < umTotal m \<and> b = slice m data k"
    "\<forall>k\<in>set ks. map_of (sdChunks d) k \<noteq> None"
    using h unfolding holds_pieces_def by blast
  have "um' = reapExpired now mtime ?u" using n by (simp add: newUploadManager_def)
  then have "map_of (dirs um') (umID m) = Some d" "map_of (active um') (umID m) = None"
    using reap_view [of ?u, OF _ _ d(2) t] dist d(1) by simp_all
  then show ?thesis
    using v d(2) p unfolding holds_pieces_def session_view_def pointer_ok_def by simp
qed

lemma resumed_holds:
  assumes "resumed m data um0 ks um" "holds_pieces m data [] um0"
    and s: "sound_meta mx m" "sane_limit mx" "umSize m = int (length data)"
  shows "holds_pieces m data ks um"
  using assms(1,2)
proof (induction rule: resumed.induct)
  case (resumed_put ks um now k declared io r um')
  obtain a um1 where a: "acquire now (umID m) um = (Inr a, um1)" "holds_pieces m data ks um1"
    "map_of (active um1) (umID m) = Some a" "a < length (heap um1)"
    using acquire_holds [OF resumed_put.IH [OF resumed_put.prems] resumed_put.hyps(2)] by blast
  have "writeChunk_locked (umID m) a k (slice m data k, None) declared io um1 = (r, um')"
    using resumed_put.hyps(3) a(1) by (simp add: writeChunk_def)
  then show ?case by (rule put_holds [OF a(2) s a(3,4)])
next
  case (resumed_other ks um um')
  then show ?case by (blast intro: holds_pieces_view)
next
  case (resumed_restart ks um now mtime dataDir rm um')
  then show ?case by (blast intro: restart_holds)
qed

subsection \<open>Completing an upload\<close>

text \<open>A session just opened holds no piece.\<close>

lemma um_init_opened:
  assumes "um_init env mx now mtime (Some rnd) mkErr saveErr dest name (int (length data)) cs who (um, f) =
      (Inr (m, []), um', f')"
    and "length rnd = 32" and "fresh_id (hex_encode (map byte_val rnd)) um" and "up_inv mx um"
  shows "sound_meta mx m" and "umSize m = int (length data)" and "holds_pieces m data [] um'"
proof -
  obtain destRel base where sz: "int (length data) \<le> mx" and
    op: "um_open now mtime (Some rnd) mkErr saveErr destRel base (int (length data)) (clamp_chunk cs) who um =
      (Inr (m, []), um')"
    using assms(1) by (cases rule: um_init_cases) auto
  from op obtain m: "m = \<lparr>umID = hex_encode (map byte_val rnd), umPath = destRel, umName = base,
      umSize = int (length data), umChunkSize = clamp_chunk cs,
      umTotal = total_chunks (int (length data)) (clamp_chunk cs), umCreatedAt = now, umCreatedBy = who\<rparr>"
    and um': "um' = reapExpired now mtime
       (um\<lparr>dirs := aput (umID m) \<lparr>sdMeta = MetaOK m, sdChunks = chunks_of um (umID m)\<rparr> (dirs um),
         active := aput (umID m) (length (heap um)) (active um),
         heap := heap um @ [\<lparr>auMeta = m, received = [], aborted = False\<rparr>]\<rparr>)"
    by (cases rule: um_open_cases) auto
  show "sound_meta mx m" "umSize m = int (length data)"
    using clamp_chunk_bounds [of cs] sz by (simp_all add: m sound_meta_def)
  let ?d = "\<lparr>sdMeta = MetaOK m, sdChunks = []\<rparr>" and ?new = "\<lparr>auMeta = m, received = [], aborted = False\<rparr>"
  let ?u = "um\<lparr>dirs := aput (umID m) ?d (dirs um), active := aput (umID m) (length (heap um)) (active um),
         heap := heap um @ [?new]\<rparr>"
  have "map_of (dirs um) (umID m) = None" using assms(3) by (simp add: fresh_id_def m)
  then have "chunks_of um (umID m) = []" by (simp add: chunks_of_def)
  then have u: "um' = reapExpired now mtime ?u" unfolding um' by simp
  have "distinct (map fst (dirs um))" using assms(4) by (simp add: up_inv_def)
  then have dist: "distinct (map fst (dirs ?u))" by (simp add: distinct_aput)
  have t: "now - umCreatedAt m \<le> uploadSessionTTL" by (simp add: m uploadSessionTTL_def)
  note r = reap_view [of ?u "umID m" ?d, OF dist _ _ t, where mtime = mtime, folded u]
  have "validShareToken (umID m)" using validShareToken_hex [OF assms(2)] by (simp add: m)
  then show "holds_pieces m data [] um'"
    using r by (simp add: holds_pieces_def pointer_ok_def session_view_def)
qed

lemma total_nonneg: "sound_meta mx m \<Longrightarrow> sane_limit mx \<Longrightarrow> 0 \<le> umTotal m"
  using total_chunks_bounds(1) [of "umSize m" "umChunkSize m"] by (simp add: sound_meta_def sane_limit_def)

lemma assemble_all:
  "\<forall>k\<in>set ks. map_of (chunks_of um i) k = Some (g k) \<Longrightarrow> assemble um i ks = Inr (concat (map g ks))"
  by (induction ks) auto

lemma upto_int: "[0..int n - 1] = map int [0..<n]"
proof (induction n)
  case (Suc n)
  have "[0..int (Suc n) - 1] = [0..int n - 1] @ [int n]" using upto_rec2 [of 0 "int n"] by simp
  with Suc show ?case by simp
qed simp

lemma concat_pieces: "concat (map (\<lambda>k. take c (drop (k * c) xs)) [0..<n]) = take (n * c) xs"
proof (induction n)
  case (Suc n)
  have "take (Suc n * c) xs = take (n * c) xs @ take c (drop (n * c) xs)"
    unfolding take_add [symmetric] by (simp add: add.commute)
  with Suc show ?case by simp
qed simp

lemma concat_slices:
  assumes "sound_meta mx m" "sane_limit mx" "umSize m = int (length data)"
  shows "concat (map (slice m data) [0..umTotal m - 1]) = data"
proof -
  have sz: "0 \<le> umSize m" "umSize m < 2 ^ 62" and cs: "0 < umChunkSize m" "umChunkSize m \<le> maxChunkSize"
    and tot: "umTotal m = total_chunks (umSize m) (umChunkSize m)"
    using assms(1,2) by (auto simp: sound_meta_def sane_limit_def)
  note b = total_chunks_bounds [OF sz cs, folded tot]
  define n where "n = nat (umTotal m)"
  define c where "c = nat (umChunkSize m)"
  have n: "umTotal m = int n" and c: "umChunkSize m = int c" using b(1) cs(1) by (simp_all add: n_def c_def)
  have "slice m data (int k) = take c (drop (k * c) data)" for k
    by (simp add: slice_def c flip: of_nat_mult)
  then have "concat (map (slice m data) [0..umTotal m - 1]) = take (n * c) data"
    unfolding n upto_int by (simp add: comp_def concat_pieces)
  moreover have "length data \<le> n * c" using b(3) assms(3) unfolding n c by (simp flip: of_nat_mult)
  ultimately show ?thesis by simp
qed

text \<open>A destination where the file can be put: a real directory with both names free.\<close>

definition free_target :: "path_env \<Rightarrow> uploadMeta \<Rightarrow> apath \<Rightarrow> string \<Rightarrow> fs \<Rightarrow> bool" where
  "free_target env m ds c f \<longleftrightarrow> safePath f env (umPath m) = Inr ds \<and>
     safePath f env (pathJoin [umPath m, umName m]) = Inr (ds @ [c]) \<and>
     real_dir f ds \<and> ordinary c \<and> rfail f = (\<lambda>_. False) \<and> wfail f = (\<lambda>_. False) \<and>
     (\<forall>r. node_at f (ds @ [c] @ r) = None) \<and> (\<forall>r. node_at f (ds @ [c @ ''.uploading''] @ r) = None)"

lemma free_target_stat:
  assumes "free_target env m ds c f"
  shows "os_Stat f ds = Inr FDir" and "os_Stat f (ds @ [c]) = Inl ENOENT"
proof -
  have rd: "real_dir f ds" and oc: "ordinary c" and fl: "rfail f = (\<lambda>_. False)"
    and free: "\<forall>r. node_at f (ds @ [c] @ r) = None"
    using assms unfolding free_target_def by blast+
  show "os_Stat f ds = Inr FDir" by (rule os_Stat_real_dir [OF rd]) (simp add: fl)
  have "node_at f (ds @ [c]) = None" using free [rule_format, of "[]"] by simp
  then have "lookup_entry f (ds @ [c]) = Inl ENOENT" by (simp add: lookup_entry_def fl)
  then show "os_Stat f (ds @ [c]) = Inl ENOENT" by (rule os_Stat_missing [OF rd oc])
qed

lemma put_file:
  assumes t: "free_target env m ds c f"
  defines "tmp \<equiv> ds @ [c @ ''.uploading'']"
  shows "os_CreateExcl f tmp data = Inr (set_node tmp (FFile data) f)"
    and "os_Rename (set_node tmp (FFile data) f) tmp (ds @ [c]) =
      Inr (move_tree tmp (ds @ [c]) (set_node tmp (FFile data) f))"
    and "node_at (move_tree tmp (ds @ [c]) (set_node tmp (FFile data) f)) q =
      (if q = ds @ [c] then Some (FFile data) else node_at f q)"
proof -
  let ?f1 = "set_node tmp (FFile data) f" and ?dst = "ds @ [c]"
  have rd: "real_dir f ds" and fl: "rfail f = (\<lambda>_. False)" "wfail f = (\<lambda>_. False)"
    and none: "\<And>r. node_at f (?dst @ r) = None" "\<And>r. node_at f (tmp @ r) = None"
    using t by (auto simp: free_target_def tmp_def)
  have ne: "tmp \<noteq> []" "tmp \<noteq> ?dst" and np: "\<not> prefix tmp ?dst" "\<not> prefix ?dst tmp"
    by (auto simp: tmp_def)
  have n1: "node_at ?f1 q = (if q = tmp then Some (FFile data) else node_at f q)" for q
    using ne(1) by (rule node_at_set_node)
  have "lookup_entry ?f1 q = lookup_entry f q" if "prefix q ds" for q
  proof -
    have "q \<noteq> tmp" using that by (auto simp: tmp_def dest: prefix_length_le)
    then show ?thesis by (simp add: lookup_entry_def n1)
  qed
  then have rd1: "real_dir ?f1 ds" using rd by (auto simp: real_dir_def list_all_iff)
  show "os_CreateExcl f tmp data = Inr ?f1"
    using rd none(2) [of "[]"] fl unfolding tmp_def
    by (simp add: os_CreateExcl_def resolve_nofollow_real)
  show "os_Rename ?f1 tmp ?dst = Inr (move_tree tmp ?dst ?f1)"
    using os_Rename_free [OF rd1 rd1, of "c @ ''.uploading''" "FFile data" c] n1 ne(2) none(1) [of "[]"] np(1) fl
    unfolding tmp_def by simp
  consider (d) r where "q = ?dst @ r" | (s) "prefix tmp q" | (o) "\<not> prefix ?dst q" "\<not> prefix tmp q"
    by (auto simp: prefix_def)
  then show "node_at (move_tree tmp ?dst ?f1) q = (if q = ?dst then Some (FFile data) else node_at f q)"
  proof cases
    case d
    then have "node_at (move_tree tmp ?dst ?f1) q = node_at ?f1 (tmp @ r)"
      using node_at_move_tree_dst [of ?dst tmp ?f1 r] ne(1) by simp
    then show ?thesis using d n1 none by auto
  next
    case s
    then have "node_at (move_tree tmp ?dst ?f1) q = None" using ne np by (intro node_at_move_tree_src) auto
    moreover have "node_at f q = None" using s none(2) by (auto simp: prefix_def)
    moreover have "q \<noteq> ?dst" using s np(1) by auto
    ultimately show ?thesis by simp
  next
    case o
    then have "q \<noteq> ?dst" "q \<noteq> tmp" by auto
    then show ?thesis using node_at_move_tree_elsewhere [OF o] n1 by simp
  qed
qed

text \<open>
  C15: An upload survives interruptions. Its client sends the pieces of a file in any order, some
  repeatedly, some failing; other requests, the janitor and restarts come in between, all within
  a day. Once every piece has been acknowledged, completing it puts exactly the file's bytes under the
  announced name and changes no other entry, provided the destination is a directory where
  the name and its temporary name are free.
\<close>

theorem upload_roundtrip:
  assumes "um_init env0 mx now0 mtime0 (Some rnd) mkErr saveErr dest name (int (length data)) cs who (um00, f00) =
      (Inr (m, []), um0, f0)"
    and "length rnd = 32" and "fresh_id (hex_encode (map byte_val rnd)) um00" and "up_inv mx um00"
    and "resumed m data um0 ks um" and "set ks = {0..<umTotal m}"
    and "now - umCreatedAt m \<le> uploadSessionTTL" and "free_target env m ds c f"
  shows "\<exists>um' f'. um_complete env now (umID m) None (um, f) = (Inr (umName m), um', f') \<and>
    (\<forall>q. node_at f' q = (if q = ds @ [c] then Some (FFile data) else node_at f q)) \<and>
    map_of (active um') (umID m) = None"
proof -
  note opened = um_init_opened [OF assms(1-4)]
  have lim: "sane_limit mx" using assms(4) by (simp add: up_inv_def)
  note s = opened(1) lim opened(2)
  have "holds_pieces m data ks um" using resumed_holds [OF assms(5) opened(3) s] .
  then obtain a um1 where a: "acquire now (umID m) um = (Inr a, um1)" "holds_pieces m data ks um1"
    "map_of (active um1) (umID m) = Some a" "a < length (heap um1)"
    using acquire_holds [OF _ assms(7)] by blast
  obtain d where d: "map_of (dirs um1) (umID m) = Some d"
    "\<forall>k b. map_of (sdChunks d) k = Some b \<longrightarrow> 0 \<le> k \<and> k < umTotal m \<and> b = slice m data k"
    "\<forall>k\<in>set ks. map_of (sdChunks d) k \<noteq> None"
    "auMeta (heap um1 ! a) = m" "\<not> aborted (heap um1 ! a)" "distinct (received (heap um1 ! a))"
    "set (received (heap um1 ! a)) = {k. map_of (sdChunks d) k \<noteq> None}"
    using a(2,3) unfolding holds_pieces_def session_view_def by auto
  have all: "map_of (sdChunks d) k = Some (slice m data k)" if "k \<in> {0..<umTotal m}" for k
    using d(2,3) that assms(6) by blast
  have "{k. map_of (sdChunks d) k \<noteq> None} \<subseteq> {0..<umTotal m}"
  proof
    fix k
    assume "k \<in> {k. map_of (sdChunks d) k \<noteq> None}"
    then obtain b where "map_of (sdChunks d) k = Some b" by blast
    with d(2) [rule_format, of k b] show "k \<in> {0..<umTotal m}" by simp
  qed
  then have "set (received (heap um1 ! a)) = {0..<umTotal m}" using d(7) all by blast
  then have len: "int (length (received (heap um1 ! a))) = umTotal m"
    using distinct_card [OF d(6)] total_nonneg [OF s(1,2)] by simp
  have asm: "assemble um1 (umID m) [0..umTotal m - 1] = Inr data"
    using assemble_all [of "[0..umTotal m - 1]" um1 "umID m" "slice m data"] all d(1)
    by (simp add: chunks_of_def concat_slices [OF s])
  let ?tmp = "ds @ [c @ ''.uploading'']"
  note st = free_target_stat [OF assms(8)]
  have sp: "safePath f env (umPath m) = Inr ds" "safePath f env (pathJoin [umPath m, umName m]) = Inr (ds @ [c])"
    using assms(8) unfolding free_target_def by blast+
  have tmp: "uploading_path (ds @ [c]) = ?tmp" by (simp add: uploading_path_def)
  note pf = put_file [OF assms(8)]
  let ?um' = "removeSession (umID m) (um1\<lparr>heap := (heap um1)[a := (heap um1 ! a)\<lparr>aborted := True\<rparr>],
      active := adel (umID m) (active um1)\<rparr>)"
  have "um_complete env now (umID m) None (um, f) =
      (Inr (umName m), ?um', move_tree ?tmp (ds @ [c]) (set_node ?tmp (FFile data) f))"
    using a(1) d(4,5) len st sp asm pf(1,2) opened(2)
    by (simp add: um_complete_def complete_locked_def Let_def tmp)
  moreover have "map_of (active ?um') (umID m) = None" by (simp add: removeSession_def)
  ultimately show ?thesis using pf(3) by blast
qed

subsection \<open>After the end\<close>

definition ended :: "nat \<Rightarrow> uploadManager \<Rightarrow> bool" where
  "ended a um \<longleftrightarrow> a < length (heap um) \<and> aborted (heap um ! a)"

lemma heap_removeSession [simp]: "heap (removeSession i um) = heap um"
  by (simp add: removeSession_def)

lemma heap_reapExpired [simp]: "heap (reapExpired now mtime um) = heap um"
proof -
  have "heap (fold (\<lambda>e u. if reap_dir now mtime e
      then removeSession (fst e) (u\<lparr>active := adel (fst e) (active u)\<rparr>) else u) es u) = heap u" for es u
    by (induction es arbitrary: u) auto
  then show ?thesis by (simp add: reapExpired_def)
qed

lemma ended_append: "ended a um \<Longrightarrow> heap um' = heap um @ h \<Longrightarrow> ended a um'"
  by (auto simp: ended_def nth_append)

lemma ended_update:
  "ended a um \<Longrightarrow> heap um' = (heap um)[b := v] \<Longrightarrow> aborted (heap um ! b) \<longrightarrow> aborted v \<Longrightarrow> ended a um'"
  by (cases "a = b") (auto simp: ended_def)

lemma heap_acquire: "acquire now i um = (r, um') \<Longrightarrow> \<exists>h. heap um' = heap um @ h"
  by (auto simp: acquire_def Let_def split: if_splits option.splits sum.splits)

lemma heap_um_open:
  "um_open now mtime rnd mkErr saveErr destRel base sz cs who um = (r, um') \<Longrightarrow> \<exists>h. heap um' = heap um @ h"
  by (auto simp: um_open_def Let_def split: option.splits sum.splits)

lemma heap_um_init:
  assumes "um_init env mx now mtime rnd mkErr saveErr dest name sz cs who (um, f) = (r, um', f')"
  shows "\<exists>h. heap um' = heap um @ h"
  using assms by (cases rule: um_init_cases) (auto dest: heap_um_open)

lemma heap_complete_locked:
  assumes "complete_locked env i a outErr (um, f) = (r, um', f')"
  shows "heap um' = (if isl r then heap um else (heap um)[a := (heap um ! a)\<lparr>aborted := True\<rparr>])"
  using assms by (cases "assemble um i [0..umTotal (auMeta (heap um ! a)) - 1]")
    (auto simp: complete_locked_def Let_def dest: arg_cong [of "Inl _" _ isl]
       split: if_splits option.splits sum.splits)

lemma heap_um_abort:
  assumes "um_abort i um = (r, um')"
  shows "\<exists>b. heap um' = heap um \<or> heap um' = (heap um)[b := (heap um ! b)\<lparr>aborted := True\<rparr>]"
  using assms by (auto simp: um_abort_def Let_def split: if_splits option.splits)

lemma heap_writeChunk_locked:
  assumes "writeChunk_locked i b k r declared io um = (res, um')"
  shows "heap um' = heap um \<or> (\<exists>x. heap um' = (heap um)[b := (heap um ! b)\<lparr>received := x\<rparr>])"
  using assms by (cases rule: writeChunk_locked_cases) auto

lemma ended_step: "up_step mx um l um' \<Longrightarrow> l = UpOp \<Longrightarrow> ended a um \<Longrightarrow> ended a um'"
proof (induction rule: up_step.induct)
  case (step_init env now mtime rnd mkErr saveErr dest name sz cs who um f r um' f')
  then show ?case using heap_um_init [OF step_init(1)] by (blast intro: ended_append)
next
  case (step_acquire now i um ra um')
  then show ?case using heap_acquire [OF step_acquire(1)] by (blast intro: ended_append)
next
  case (step_chunk b um i k body declared io rc um')
  from heap_writeChunk_locked [OF step_chunk(3)] step_chunk.prems show ?case
    by (metis ended_def ended_update activeUpload.select_convs(3) activeUpload.surjective activeUpload.update_convs(2))
next
  case (step_complete b um i env outErr f rs um' f')
  from heap_complete_locked [OF step_complete(3)] step_complete.prems show ?case
    by (cases "isl rs"; cases "a = b") (auto simp: ended_def)
next
  case (step_abort i um ru um')
  obtain b where "heap um' = heap um \<or> heap um' = (heap um)[b := (heap um ! b)\<lparr>aborted := True\<rparr>]"
    using heap_um_abort [OF step_abort(1)] by blast
  with step_abort.prems show ?case by (cases "a = b") (auto simp: ended_def)
next
  case (step_reap um now mtime)
  then show ?case by (simp add: ended_def)
qed simp

interpretation upend: invariant_machine "\<lambda>s l t. l = UpOp \<and> up_step mx s l t" "ended a" for mx a
  by unfold_locales (use ended_step in blast)


definition demo_init :: "(uploadMeta \<times> int list) result \<times> uploadManager \<times> fs" where
  "demo_init = um_init demo_env 100 0 (\<lambda>_. None) (Some demo_rnd) None None ''docs'' ''/x'' 3 2 ''root''
     (noUploads [''d''], demo_fs)"

definition demo_um :: uploadManager where "demo_um = fst (snd demo_init)"

definition demo_meta :: uploadMeta where
  "demo_meta = \<lparr>umID = concat (replicate 32 ''78''), umPath = ''docs'', umName = ''x'', umSize = 3,
     umChunkSize = 2, umTotal = 2, umCreatedAt = 0, umCreatedBy = ''root''\<rparr>"

definition demo_um1 :: uploadManager where
  "demo_um1 = snd (writeChunk 5 (umID demo_meta) 1 (slice demo_meta ''abc'' 1, None) 1 io_ok demo_um)"

definition demo_um2 :: uploadManager where
  "demo_um2 = snd (writeChunk 6 (umID demo_meta) 0 (slice demo_meta ''abc'' 0, None) (-1) io_ok demo_um1)"

lemma demo_init_eq: "demo_init = (Inr (demo_meta, []), demo_um, snd (snd demo_init))"
proof -
  have "fst demo_init = Inr (demo_meta, [])" by code_simp
  then show ?thesis by (metis demo_um_def prod.collapse)
qed

lemma demo_puts:
  "writeChunk 5 (umID demo_meta) 1 (slice demo_meta ''abc'' 1, None) 1 io_ok demo_um = (Inr (), demo_um1)"
  "writeChunk 6 (umID demo_meta) 0 (slice demo_meta ''abc'' 0, None) (-1) io_ok demo_um1 = (Inr (), demo_um2)"
proof -
  have "fst (writeChunk 5 (umID demo_meta) 1 (slice demo_meta ''abc'' 1, None) 1 io_ok demo_um) = Inr ()"
    by code_simp
  then show "writeChunk 5 (umID demo_meta) 1 (slice demo_meta ''abc'' 1, None) 1 io_ok demo_um = (Inr (), demo_um1)"
    unfolding demo_um1_def by (metis prod.collapse)
  have "fst (writeChunk 6 (umID demo_meta) 0 (slice demo_meta ''abc'' 0, None) (-1) io_ok demo_um1) = Inr ()"
    by code_simp
  then show "writeChunk 6 (umID demo_meta) 0 (slice demo_meta ''abc'' 0, None) (-1) io_ok demo_um1 = (Inr (), demo_um2)"
    unfolding demo_um2_def by (metis prod.collapse)
qed

text \<open>
  A chunk of the right size is accepted: while the session holds pieces and is younger than a day,
  a piece of the file in range is acknowledged whether or not its length was declared, and whether
  or not it was sent before, and afterwards it counts as received.
\<close>

theorem upload_chunk_accepted:
  assumes "holds_pieces m data ks um" and "sound_meta mx m" "sane_limit mx" "umSize m = int (length data)"
    and "now - umCreatedAt m \<le> uploadSessionTTL" and "0 \<le> k" "k < umTotal m"
    and "declared < 0 \<or> declared = int (length (slice m data k))"
  shows "\<exists>um' got um''. writeChunk now (umID m) k (slice m data k, None) declared io_ok um = (Inr (), um') \<and>
    um_status now (umID m) um' = (Inr (m, got), um'') \<and> k \<in> set got"
proof -
  obtain a um1 where a: "acquire now (umID m) um = (Inr a, um1)" "holds_pieces m data ks um1"
    "map_of (active um1) (umID m) = Some a" "a < length (heap um1)"
    using acquire_holds [OF assms(1,5)] by blast
  obtain d where d: "map_of (dirs um1) (umID m) = Some d" and au: "auMeta (heap um1 ! a) = m" "\<not> aborted (heap um1 ! a)"
    and v: "validShareToken (umID m)"
    using a(2,3) unfolding holds_pieces_def session_view_def by auto
  have len: "int (length (slice m data k)) = expected_size m k" by (rule length_slice [OF assms(2-4,6,7)])
  have b: "0 \<le> expected_size m k" "expected_size m k \<le> maxChunkSize"
    using expected_size_bounds [OF assms(2,3), of k] assms(2) by (auto simp: sound_meta_def)
  have i64: "int64 (expected_size m k + 1) = expected_size m k + 1"
    using b by (intro int64_id) (auto simp: maxChunkSize_def)
  have cp: "copy_limited (slice m data k, None) (expected_size m k + 1) None = Inr (slice m data k)"
    using len by (simp add: copy_limited_def)
  let ?um' = "um1\<lparr>dirs := aput (umID m) (d\<lparr>sdChunks := aput k (slice m data k) (sdChunks d)\<rparr>) (dirs um1),
      heap := (heap um1)[a := (heap um1 ! a)\<lparr>received := List.insert k (received (heap um1 ! a))\<rparr>]\<rparr>"
  have "writeChunk now (umID m) k (slice m data k, None) declared io_ok um = (Inr (), ?um')"
    using a(1) d au len b i64 cp assms(6-8)
    by (auto simp: writeChunk_def writeChunk_locked_def Let_def io_ok_def)
  moreover have "um_status now (umID m) ?um' = (Inr (m, receivedList ?um' a), ?um')"
    using a(3,4) v au assms(5) by (simp add: um_status_def acquire_def)
  moreover have "k \<in> set (receivedList ?um' a)"
    using a(4) au assms(6,7) by (simp add: receivedList_def)
  ultimately show ?thesis by blast
qed

subsection \<open>One upload, run\<close>

lemma demo_fresh: "fresh_id (hex_encode (map byte_val demo_rnd)) (noUploads [''d''])"
  by (simp add: fresh_id_def noUploads_def)

lemma demo_inv: "up_inv 100 (noUploads [''d''])"
  by (rule noUploads_inv) (simp add: sane_limit_def)

lemma demo_rnd_len: "length demo_rnd = 32"
  by (simp add: demo_rnd_def)

lemma demo_holds: "holds_pieces demo_meta ''abc'' [] demo_um"
  by (rule um_init_opened(3) [OF _ demo_rnd_len demo_fresh demo_inv])
    (use demo_init_eq [unfolded demo_init_def] in simp)

lemma demo_resumed: "resumed demo_meta ''abc'' demo_um [0, 1] demo_um2"
  using resumed_put [OF resumed_put [OF resumed_start _ demo_puts(1)] _ demo_puts(2)]
  by (simp add: demo_meta_def uploadSessionTTL_def)

lemma demo_free: "free_target demo_env demo_meta [''s'', ''docs''] ''x'' demo_fs"
  unfolding free_target_def
proof (intro conjI allI)
  show "safePath demo_fs demo_env (umPath demo_meta) = Inr [''s'', ''docs'']"
    "safePath demo_fs demo_env (pathJoin [umPath demo_meta, umName demo_meta]) = Inr ([''s'', ''docs''] @ [''x''])"
    "real_dir demo_fs [''s'', ''docs'']" "ordinary ''x''" by code_simp+
qed (simp_all add: demo_fs_def node_at_def)

theorem upload_roundtrip_witness:
  "\<exists>um' f'. um_complete demo_env 7 (umID demo_meta) None (demo_um2, demo_fs) = (Inr ''x'', um', f') \<and>
     node_at f' [''s'', ''docs'', ''x''] = Some (FFile ''abc'')"
proof -
  have t: "7 - umCreatedAt demo_meta \<le> uploadSessionTTL" by (simp add: demo_meta_def uploadSessionTTL_def)
  have i: "um_init demo_env 100 0 (\<lambda>_. None) (Some demo_rnd) None None ''docs'' ''/x'' (int (length ''abc'')) 2 ''root''
     (noUploads [''d''], demo_fs) = (Inr (demo_meta, []), demo_um, snd (snd demo_init))"
    using demo_init_eq unfolding demo_init_def [symmetric] by (simp add: demo_init_def)
  have "set [0, 1] = {0..<umTotal demo_meta}" by (auto simp: demo_meta_def)
  from upload_roundtrip [OF i demo_rnd_len demo_fresh demo_inv demo_resumed this t demo_free]
  show ?thesis by (auto simp: demo_meta_def)
qed

theorem upload_chunk_accepted_witness:
  "\<exists>um'. writeChunk 5 (umID demo_meta) 1 (slice demo_meta ''abc'' 1, None) 1 io_ok demo_um = (Inr (), um')"
proof -
  have "sound_meta 100 demo_meta" "sane_limit 100" by code_simp+
  moreover have "umSize demo_meta = int (length ''abc'')" "5 - umCreatedAt demo_meta \<le> uploadSessionTTL"
    "(1::int) < umTotal demo_meta" "(1::int) = int (length (slice demo_meta ''abc'' 1))"
    by (simp_all add: demo_meta_def uploadSessionTTL_def slice_def)
  ultimately show ?thesis using upload_chunk_accepted [OF demo_holds, of 100 5 1 1] by auto
qed

lemma demo_trace: "trace (up_step 100) (noUploads [''d'']) [(UpOp, demo_um)]"
  using step_init [of demo_env 100 0 "\<lambda>_. None" "Some demo_rnd" None None "''docs''" "''/x''" 3 2 "''root''"
      "noUploads [''d'']" demo_fs] demo_init_eq demo_fresh
  by (auto simp: demo_init_def)


definition demo_completed :: "string result \<times> uploadManager \<times> fs" where
  "demo_completed = complete_locked demo_env (umID demo_meta) 0 None (demo_um2, demo_fs)"


end
