(* ===== verification/Totp.thy ===== *)
theory Totp
  imports Users
begin

text \<open>
  The state of two-factor sign-in (\<open>totp.go\<close>): logins whose password was right and that wait for a
  code, secrets that wait to be confirmed, recovery codes. \<open>totp.Validate\<close> (the package
  github.com/pquerna/otp) is a parameter: it maps the time, the code and the secret to a boolean.
  Main results: a waiting login is used at most once; every generated recovery code works, once.
\<close>

subsection \<open>State\<close>

definition totpPendingTTL :: duration where "totpPendingTTL = 5 * minute_ns"
definition totpRecoveryN :: nat where "totpRecoveryN = 8"

record pendingLogin =
  plUsername :: string
  plRole :: string
  plExpiresAt :: gotime

record pendingTOTPSetup =
  psSecret :: string
  psExpiresAt :: gotime

record pendings =
  pendingLogins :: "(string \<times> pendingLogin) list"
  pendingSetups :: "(string \<times> pendingTOTPSetup) list"

type_synonym totp_validate = "gotime \<Rightarrow> string \<Rightarrow> string \<Rightarrow> bool"

text \<open>\<open>base64.RawURLEncoding\<close>: the standard alphabet with two characters replaced.\<close>

definition b64_url_encode :: "string \<Rightarrow> string" where
  "b64_url_encode s = map (\<lambda>c. if c = CHR ''+'' then CHR ''-'' else if c = slash then CHR ''_'' else c) (b64_encode s)"

definition newPendingToken :: "string option \<Rightarrow> string result" where
  "newPendingToken rnd = (case rnd of None \<Rightarrow> Inl ''rand: read failed'' | Some b \<Rightarrow> Inr (b64_url_encode b))"

subsection \<open>Operations\<close>

definition putPendingLogin ::
  "gotime \<Rightarrow> string option \<Rightarrow> string \<Rightarrow> string \<Rightarrow> pendings \<Rightarrow> string result \<times> pendings"
where
  "putPendingLogin now rnd username role p =
     (case newPendingToken rnd of
        Inl e \<Rightarrow> (Inl e, p)
      | Inr tok \<Rightarrow>
          (Inr tok, p\<lparr>pendingLogins := aput tok
             \<lparr>plUsername = username, plRole = role, plExpiresAt = now + totpPendingTTL\<rparr>
             (filter (\<lambda>e. \<not> now > plExpiresAt (snd e)) (pendingLogins p))\<rparr>))"

definition takePendingLogin :: "gotime \<Rightarrow> string \<Rightarrow> pendings \<Rightarrow> pendingLogin option \<times> pendings" where
  "takePendingLogin now tok p =
     (case map_of (pendingLogins p) tok of
        None \<Rightarrow> (None, p)
      | Some l \<Rightarrow>
          (if now > plExpiresAt l then None else Some l, p\<lparr>pendingLogins := adel tok (pendingLogins p)\<rparr>))"

definition putPendingSetup :: "unicode \<Rightarrow> gotime \<Rightarrow> string \<Rightarrow> string \<Rightarrow> pendings \<Rightarrow> pendings" where
  "putPendingSetup U now username secret p =
     p\<lparr>pendingSetups := aput (ToLower U username)
        \<lparr>psSecret = secret, psExpiresAt = now + totpPendingTTL\<rparr> (pendingSetups p)\<rparr>"

definition takePendingSetup :: "unicode \<Rightarrow> gotime \<Rightarrow> string \<Rightarrow> pendings \<Rightarrow> string option \<times> pendings" where
  "takePendingSetup U now username p =
     (let key = ToLower U username in
      case map_of (pendingSetups p) key of
        None \<Rightarrow> (None, p)
      | Some s \<Rightarrow>
          (if now > psExpiresAt s then None else Some (psSecret s),
           p\<lparr>pendingSetups := adel key (pendingSetups p)\<rparr>))"

definition peekPendingSetup :: "unicode \<Rightarrow> gotime \<Rightarrow> string \<Rightarrow> pendings \<Rightarrow> string option" where
  "peekPendingSetup U now username p =
     (case map_of (pendingSetups p) (ToLower U username) of
        None \<Rightarrow> None
      | Some s \<Rightarrow> (if now > psExpiresAt s then None else Some (psSecret s)))"

text \<open>The loop over the codes; the argument lists what the random source returned for each.\<close>

fun recovery_code_loop :: "unicode \<Rightarrow> string option list \<Rightarrow> (string list \<times> string list) result" where
  "recovery_code_loop U [] = Inr ([], [])"
| "recovery_code_loop U (None # rs) = Inl ''rand: read failed''"
| "recovery_code_loop U (Some b # rs) =
     (let code = hex_encode (map byte_val b) in
      case recovery_code_loop U rs of
        Inl e \<Rightarrow> Inl e
      | Inr (plain, hashes) \<Rightarrow> Inr (code # plain, hashRecoveryCode U code # hashes))"

definition generateRecoveryCodes :: "unicode \<Rightarrow> (nat \<Rightarrow> string option) \<Rightarrow> (string list \<times> string list) result" where
  "generateRecoveryCodes U rnd = recovery_code_loop U (map rnd [0..<totpRecoveryN])"

definition verifyTOTPOrRecovery ::
  "unicode \<Rightarrow> totp_validate \<Rightarrow> gotime \<Rightarrow> bool \<Rightarrow> string \<Rightarrow> string \<Rightarrow> userStore \<Rightarrow> bool \<times> userStore"
where
  "verifyTOTPOrRecovery U V now ok username code0 s =
     (case totpSecret U username s of
        None \<Rightarrow> (False, s)
      | Some (secret, _) \<Rightarrow>
          (let code = TrimSpace code0 in
           if code = [] then (False, s)
           else if V now code secret then (True, s)
           else if length code \<ge> 12 then consumeRecoveryCode U ok username code s
           else (False, s)))"

subsection \<open>A waiting login is used once\<close>

datatype pending_op =
    PutLogin gotime "string option" string string
  | TakeLogin gotime string

fun run_pending_op :: "pending_op \<Rightarrow> pendings \<Rightarrow> pendings" where
  "run_pending_op (PutLogin now rnd u r) p = snd (putPendingLogin now rnd u r p)"
| "run_pending_op (TakeLogin now tok) p = snd (takePendingLogin now tok p)"

text \<open>The random bytes a step draws are not those of the token.\<close>

definition draws_other :: "string \<Rightarrow> pending_op \<Rightarrow> bool" where
  "draws_other tok a = (case a of PutLogin now rnd u r \<Rightarrow> newPendingToken rnd \<noteq> Inr tok | TakeLogin _ _ \<Rightarrow> True)"

lemma run_pending_absent:
  "draws_other tok a \<Longrightarrow> map_of (pendingLogins p) tok = None \<Longrightarrow>
     map_of (pendingLogins (run_pending_op a p)) tok = None"
  by (cases a) (auto simp: putPendingLogin_def takePendingLogin_def draws_other_def
      split: sum.splits option.splits intro: map_of_filter_None)

text \<open>
  The token of a login that waits for its second factor works at most once and only within
  five minutes: when it is taken, the login was put under this token at most five minutes
  before; whatever happens next, short of the random source repeating itself, it is refused.
\<close>

theorem pending_login_once:
  assumes "putPendingLogin now0 rnd u r p0 = (Inr tok, p1)"
    and "takePendingLogin now tok p1 = (Some l, p2)"
    and "\<forall>a\<in>set as. draws_other tok a"
  shows "plUsername l = u \<and> plRole l = r \<and> now \<le> now0 + totpPendingTTL \<and>
    fst (takePendingLogin now' tok (fold run_pending_op as p2)) = None"
proof -
  have "map_of (pendingLogins p2) tok = None"
    using assms(2) by (auto simp: takePendingLogin_def split: option.splits)
  then have "map_of (pendingLogins (fold run_pending_op as p2)) tok = None"
    using assms(3) by (induction as arbitrary: p2) (auto simp: run_pending_absent)
  moreover have "map_of (pendingLogins p1) tok =
      Some \<lparr>plUsername = u, plRole = r, plExpiresAt = now0 + totpPendingTTL\<rparr>"
    using assms(1) by (auto simp: putPendingLogin_def split: sum.splits)
  ultimately show ?thesis
    using assms(2) by (auto simp: takePendingLogin_def split: if_splits)
qed

theorem pending_login_once_witness:
  "fst (takePendingLogin 3 ''eHg'' (fold run_pending_op [PutLogin 2 (Some ''yy'') ''eve'' ''admin'']
     (snd (takePendingLogin 1 ''eHg'' (snd (putPendingLogin 0 (Some ''xx'') ''root'' ''admin''
       \<lparr>pendingLogins = [], pendingSetups = []\<rparr>)))))) = None"
proof -
  let ?p1 = "snd (putPendingLogin 0 (Some ''xx'') ''root'' ''admin'' \<lparr>pendingLogins = [], pendingSetups = []\<rparr>)"
  have "fst (putPendingLogin 0 (Some ''xx'') ''root'' ''admin'' \<lparr>pendingLogins = [], pendingSetups = []\<rparr>) =
      Inr ''eHg''" by code_simp
  then have p: "putPendingLogin 0 (Some ''xx'') ''root'' ''admin'' \<lparr>pendingLogins = [], pendingSetups = []\<rparr> =
      (Inr ''eHg'', ?p1)" by (metis prod.collapse)
  have "fst (takePendingLogin 1 ''eHg'' ?p1) =
      Some \<lparr>plUsername = ''root'', plRole = ''admin'', plExpiresAt = totpPendingTTL\<rparr>" by code_simp
  then have t: "takePendingLogin 1 ''eHg'' ?p1 =
      (Some \<lparr>plUsername = ''root'', plRole = ''admin'', plExpiresAt = totpPendingTTL\<rparr>, snd (takePendingLogin 1 ''eHg'' ?p1))"
    by (metis prod.collapse)
  have "\<forall>a\<in>set [PutLogin 2 (Some ''yy'') ''eve'' ''admin'']. draws_other ''eHg'' a" by code_simp
  from pending_login_once [OF p t this] show ?thesis by blast
qed

subsection \<open>Recovery codes\<close>

lemma recovery_code_loop_ok:
  "recovery_code_loop U rs = Inr (plain, hashes) \<Longrightarrow>
     hashes = map (hashRecoveryCode U) plain \<and>
     plain = map (\<lambda>r. hex_encode (map byte_val (the r))) rs \<and> (\<forall>r\<in>set rs. r \<noteq> None)"
  by (induction U rs arbitrary: plain hashes rule: recovery_code_loop.induct)
    (auto simp: Let_def split: sum.splits prod.splits)

lemma recovery_code_loop_total: "\<forall>r\<in>set rs. r \<noteq> None \<Longrightarrow> \<exists>p h. recovery_code_loop U rs = Inr (p, h)"
  by (induction rs) (auto simp: Let_def)

lemma generateRecoveryCodes_ok:
  assumes "generateRecoveryCodes U rnd = Inr (plain, hashes)"
  shows "length plain = 8" "hashes = map (hashRecoveryCode U) plain"
    "\<And>i. i < 8 \<Longrightarrow> \<exists>b. rnd i = Some b \<and> plain ! i = hex_encode (map byte_val b)"
proof -
  note r = recovery_code_loop_ok [OF assms [unfolded generateRecoveryCodes_def totpRecoveryN_def]]
  show "length plain = 8" "hashes = map (hashRecoveryCode U) plain" using r by simp_all
  fix i :: nat
  assume i: "i < 8"
  then obtain b where "rnd i = Some b" using r by fastforce
  then show "\<exists>b. rnd i = Some b \<and> plain ! i = hex_encode (map byte_val b)" using r i by simp
qed

lemma enableTOTP_ok:
  assumes "enableTOTP U ok n secret hashes s = (Inr (), s')" and "secret \<noteq> []"
  shows "totpSecret U n s' = Some (secret, hashes)" and "recovery_hashes U n s' = hashes"
proof -
  obtain i where i: "find_index (same_user U n) (Users s) = Some i" "Role (Users s ! i) = roleAdmin"
    and us: "Users s' = (Users s)[i := (Users s ! i)\<lparr>TOTPSecret := secret, TOTPEnabled := True, TOTPRecoveryHash := hashes\<rparr>]"
    using assms(1) by (auto simp: enableTOTP_def save_def split: option.splits if_splits)
  have "same_user U n (Users s ! i)" using i(1) by (rule find_index_SomeD(2))
  then have "List.find (same_user U n) (Users s') =
      Some ((Users s ! i)\<lparr>TOTPSecret := secret, TOTPEnabled := True, TOTPRecoveryHash := hashes\<rparr>)"
    unfolding us by (intro find_update [OF i(1)]) (simp add: same_user_def)
  then show "totpSecret U n s' = Some (secret, hashes)" "recovery_hashes U n s' = hashes"
    using i(2) assms(2) by (simp_all add: totpSecret_def totp_active_def recovery_hashes_def byUsername_def)
qed

text \<open>
  C17: Once two-factor sign-in is enabled with freshly generated recovery codes, each of the
  eight codes signs in even when no authenticator code would, and using it spends it: its
  hash is removed from the account, whether or not the file could be written.
\<close>

theorem recovery_code_works:
  assumes "generateRecoveryCodes U rnd = Inr (plain, hashes)"
    and "\<forall>i<8. \<forall>b. rnd i = Some b \<longrightarrow> length b = 8"
    and "enableTOTP U ok n secret hashes s = (Inr (), s1)" and "secret \<noteq> []" and "i < 8"
  shows "\<exists>s2. verifyTOTPOrRecovery U (\<lambda>_ _ _. False) now ok' n (plain ! i) s1 = (True, s2) \<and>
    recovery_hashes U n s2 = remove1 (hashRecoveryCode U (plain ! i)) (recovery_hashes U n s1)"
proof -
  note g = generateRecoveryCodes_ok [OF assms(1)]
  note e = enableTOTP_ok [OF assms(3,4)]
  obtain b where b: "rnd i = Some b" "plain ! i = hex_encode (map byte_val b)" using g(3) assms(5) by blast
  then have len: "length b = 8" using assms(2,5) by blast
  then have "b \<noteq> []" by auto
  then have T: "TrimSpace (plain ! i) = plain ! i" using TrimSpace_hex [of b] b(2) by simp
  have l16: "length (plain ! i) = 16" using len b(2) by simp
  obtain ac s2 where c: "consumeRecoveryCode U ok' n (plain ! i) s1 = (ac, s2)" by (metis prod.collapse)
  have "hashRecoveryCode U (plain ! i) \<in> set (recovery_hashes U n s1)"
    using e(2) g(1,2) assms(5) by simp
  with consumeRecoveryCode_spends [OF c] have "ac"
    "recovery_hashes U n s2 = remove1 (hashRecoveryCode U (plain ! i)) (recovery_hashes U n s1)" by auto
  moreover have "verifyTOTPOrRecovery U (\<lambda>_ _ _. False) now ok' n (plain ! i) s1 =
      consumeRecoveryCode U ok' n (plain ! i) s1"
    using e(1) l16 unfolding verifyTOTPOrRecovery_def by (auto simp: T Let_def)
  ultimately show ?thesis using c by auto
qed

theorem recovery_code_works_witness:
  "\<exists>plain hashes s1 s2. generateRecoveryCodes basic_unicode (\<lambda>i. Some (replicate 8 (char_of i))) = Inr (plain, hashes) \<and>
     enableTOTP basic_unicode True ''root'' ''S2'' hashes demo_totp_users = (Inr (), s1) \<and>
     verifyTOTPOrRecovery basic_unicode (\<lambda>_ _ _. False) 0 True ''root'' (plain ! 3) s1 = (True, s2) \<and>
     length (recovery_hashes basic_unicode ''root'' s2) < length (recovery_hashes basic_unicode ''root'' s1)"
proof -
  let ?rnd = "\<lambda>i. Some (replicate 8 (char_of i)) :: string option"
  obtain plain hashes where g: "generateRecoveryCodes basic_unicode ?rnd = Inr (plain, hashes)"
    using recovery_code_loop_total [of "map ?rnd [0..<8]" basic_unicode]
    by (auto simp: generateRecoveryCodes_def totpRecoveryN_def)
  obtain s1 where e: "enableTOTP basic_unicode True ''root'' ''S2'' hashes demo_totp_users = (Inr (), s1)"
    by (auto simp: enableTOTP_def demo_totp_users_def same_user_def new_user_def save_def)
  from recovery_code_works [OF g _ e, of 3 0 True] obtain s2 where
    v: "verifyTOTPOrRecovery basic_unicode (\<lambda>_ _ _. False) 0 True ''root'' (plain ! 3) s1 = (True, s2)" and
    h: "recovery_hashes basic_unicode ''root'' s2 =
      remove1 (hashRecoveryCode basic_unicode (plain ! 3)) (recovery_hashes basic_unicode ''root'' s1)"
    by auto
  have "hashRecoveryCode basic_unicode (plain ! 3) \<in> set hashes" using generateRecoveryCodes_ok(1,2) [OF g] by simp
  then have "length (recovery_hashes basic_unicode ''root'' s2) < length (recovery_hashes basic_unicode ''root'' s1)"
    using h enableTOTP_ok(2) [OF e] by (simp add: length_remove1) (metis Suc_pred length_pos_if_in_set lessI)
  with g e v show ?thesis by blast
qed

end
