(* ===== verification/Activity.thy ===== *)
theory Activity
  imports Http
begin

text \<open>
  The activity log (\<open>activity.go\<close>): a file of one JSON object per line, written only when enabled,
  pruned after every line to the last two weeks and 5000 lines, read newest first. A line is
  modelled as what a reader makes of it. Main result: after a line was logged the file is
  bounded and fresh, ends with that line, and holds no address unless addresses are enabled.
\<close>

definition activityDefaultRetention :: duration where "activityDefaultRetention = 14 * 24 * hour_ns"
definition activityMaxLines :: nat where "activityMaxLines = 5000"
definition activityListLimit :: nat where "activityListLimit = 200"

text \<open>\<open>aeTS\<close> is the parsed time stamp, in whole seconds as RFC 3339 text holds it; \<open>None\<close> when it does not parse.\<close>

record activityEntry =
  aeTS :: "gotime option"
  aeUser :: string
  aeAction :: string
  aePath :: string
  aeIP :: string

datatype logLine = LogEntry activityEntry | LogBlank | LogJunk

record activityLog =
  activityEnabled :: bool
  activityLogIP :: bool
  activityLines :: "logLine list option" \<comment> \<open>\<open>None\<close>: there is no file\<close>

definition rfc3339_seconds :: "gotime \<Rightarrow> gotime" where
  "rfc3339_seconds t = t div second_ns * second_ns"

definition line_fresh :: "gotime \<Rightarrow> logLine \<Rightarrow> bool" where
  "line_fresh cutoff l =
     (case l of LogEntry e \<Rightarrow> (case aeTS e of None \<Rightarrow> False | Some ts \<Rightarrow> \<not> ts < cutoff)
      | _ \<Rightarrow> False)"

text \<open>\<open>kept[len(kept)-n:]\<close> when there are more than \<open>n\<close>.\<close>

definition last_n :: "nat \<Rightarrow> 'a list \<Rightarrow> 'a list" where
  "last_n n xs = drop (length xs - n) xs"

definition pruneActivityLocked :: "gotime \<Rightarrow> bool \<Rightarrow> logLine list \<Rightarrow> logLine list" where
  "pruneActivityLocked now ok ls =
     (let kept = last_n activityMaxLines (filter (line_fresh (now - activityDefaultRetention)) ls)
      in if length kept = length ls then ls else if ok then kept else ls)"

text \<open>
  \<open>auditLog\<close>; \<open>okWrite\<close> and \<open>okPrune\<close> are the outcomes of opening the file to append and of
  rewriting it.
\<close>

definition auditLog ::
  "gotime \<Rightarrow> gotime \<Rightarrow> bool \<Rightarrow> bool \<Rightarrow> bool \<Rightarrow> string \<Rightarrow> string \<Rightarrow> string \<Rightarrow> request \<Rightarrow> activityLog \<Rightarrow> activityLog"
where
  "auditLog now now2 okWrite okPrune trustProxy user action path r g =
     (if \<not> activityEnabled g then g
      else let e = \<lparr>aeTS = Some (rfc3339_seconds now), aeUser = user, aeAction = action,
                    aePath = Trim path ''/'',
                    aeIP = (if activityLogIP g then clientIP trustProxy r else [])\<rparr>;
               ls = (case activityLines g of None \<Rightarrow> [] | Some ls \<Rightarrow> ls)
           in if \<not> okWrite then g
              else g\<lparr>activityLines := Some (pruneActivityLocked now2 okPrune (ls @ [LogEntry e]))\<rparr>)"

fun line_entry :: "logLine \<Rightarrow> activityEntry option" where
  "line_entry (LogEntry e) = Some e"
| "line_entry _ = None"

text \<open>\<open>readErr\<close>: opening or scanning the file fails with an error other than "does not exist".\<close>

definition readActivityRecent :: "error option \<Rightarrow> int \<Rightarrow> activityLog \<Rightarrow> activityEntry list result" where
  "readActivityRecent readErr limit0 g =
     (if \<not> activityEnabled g then Inr []
      else case readErr of Some e \<Rightarrow> Inl e | None \<Rightarrow> Inr (
      let limit = (if limit0 \<le> 0 \<or> limit0 > int activityListLimit then activityListLimit else nat limit0);
               ls = (case activityLines g of None \<Rightarrow> [] | Some ls \<Rightarrow> ls)
           in rev (last_n limit (List.map_filter line_entry ls))))"

definition actorName :: "request \<Rightarrow> string" where
  "actorName r = (case rSession r of None \<Rightarrow> [] | Some s \<Rightarrow> sUsername s)"

subsection \<open>The log is bounded, fresh and silent about addresses\<close>

lemma last_n_props:
  "length (last_n n xs) \<le> n" "set (last_n n xs) \<subseteq> set xs"
  "0 < n \<Longrightarrow> last_n n (xs @ [x]) = last_n (n - 1) xs @ [x]"
  by (auto simp: last_n_def dest: in_set_dropD split: nat_diff_split)

lemma last_n_all: "length xs \<le> n \<Longrightarrow> last_n n xs = xs"
  by (simp add: last_n_def)

definition no_addresses :: "activityLog \<Rightarrow> bool" where
  "no_addresses g \<longleftrightarrow> (\<forall>e. LogEntry e \<in> set (case activityLines g of None \<Rightarrow> [] | Some ls \<Rightarrow> ls) \<longrightarrow> aeIP e = [])"

lemma pruned_keeps_last:
  assumes "line_fresh (now - activityDefaultRetention) l"
  shows "pruneActivityLocked now True (ls @ [l]) =
    last_n (activityMaxLines - 1) (filter (line_fresh (now - activityDefaultRetention)) ls) @ [l]"
proof -
  let ?P = "line_fresh (now - activityDefaultRetention)"
  have k: "last_n activityMaxLines (filter ?P (ls @ [l])) = last_n (activityMaxLines - 1) (filter ?P ls) @ [l]"
    using assms last_n_props(3) [of activityMaxLines] by (simp add: activityMaxLines_def)
  show ?thesis
  proof (cases "length (last_n activityMaxLines (filter ?P (ls @ [l]))) = length (ls @ [l])")
    case True
    then have len: "length (filter ?P (ls @ [l])) \<ge> length (ls @ [l])" by (simp add: last_n_def)
    then have "filter ?P (ls @ [l]) = ls @ [l]"
      by (metis antisym length_filter_le filter_id_conv length_filter_less nat_less_le)
    moreover from True this have "length (ls @ [l]) \<le> activityMaxLines"
      by (metis last_n_props(1))
    ultimately have "last_n activityMaxLines (filter ?P (ls @ [l])) = ls @ [l]" by (simp add: last_n_all)
    then show ?thesis using k True unfolding pruneActivityLocked_def Let_def by simp
  next
    case False
    then show ?thesis using k unfolding pruneActivityLocked_def Let_def by simp
  qed
qed

text \<open>
  C18: After an action was logged with both writes succeeding, the file holds at most 5000 lines,
  every one an entry of the last fourteen days; the listing starts with the new entry; and a log
  kept without addresses still has none. While logging is disabled nothing is written or listed.
\<close>

theorem activity_log_bounded:
  assumes "now2 - now < activityDefaultRetention - second_ns"
    and "g' = auditLog now now2 True True trustProxy user action path r g"
  shows "(activityEnabled g \<longrightarrow> (\<exists>ls. activityLines g' = Some ls \<and> length ls \<le> activityMaxLines \<and>
       (\<forall>l\<in>set ls. line_fresh (now2 - activityDefaultRetention) l) \<and>
       (\<exists>e rest. readActivityRecent None limit g' = Inr (e # rest) \<and> aeUser e = user \<and> aeAction e = action \<and>
          aePath e = Trim path ''/'' \<and> length rest < activityListLimit))) \<and>
    (\<not> activityEnabled g \<longrightarrow> g' = g \<and> readActivityRecent readErr limit g' = Inr []) \<and>
    (\<not> activityLogIP g \<and> no_addresses g \<longrightarrow> no_addresses g')"
proof -
  define e where "e = \<lparr>aeTS = Some (rfc3339_seconds now), aeUser = user, aeAction = action,
      aePath = Trim path ''/'', aeIP = (if activityLogIP g then clientIP trustProxy r else [])\<rparr>"
  define ls where "ls = (case activityLines g of None \<Rightarrow> [] | Some ls \<Rightarrow> ls)"
  define kept where "kept = last_n (activityMaxLines - 1)
      (filter (line_fresh (now2 - activityDefaultRetention)) ls) @ [LogEntry e]"
  have "now - rfc3339_seconds now < second_ns"
    using pos_mod_bound [of second_ns now] minus_mult_div_eq_mod [of now second_ns]
    by (simp add: rfc3339_seconds_def mult.commute)
  then have f: "line_fresh (now2 - activityDefaultRetention) (LogEntry e)"
    using assms(1) by (simp add: line_fresh_def e_def)
  have g': "activityEnabled g \<Longrightarrow> g' = g\<lparr>activityLines := Some kept\<rparr>"
    using pruned_keeps_last [OF f, of ls]
    by (simp add: assms(2) auditLog_def Let_def kept_def e_def ls_def)
  have sub: "set kept \<subseteq> insert (LogEntry e) (set ls)"
    using last_n_props(2) [of _ "filter _ ls"] by (fastforce simp: kept_def)
  have len: "length kept \<le> activityMaxLines"
    using last_n_props(1) [of "activityMaxLines - 1"] by (simp add: kept_def activityMaxLines_def le_diff_conv)
  have fresh: "\<forall>l\<in>set kept. line_fresh (now2 - activityDefaultRetention) l"
    using f last_n_props(2) [of "activityMaxLines - 1" "filter _ ls"] by (fastforce simp: kept_def)
  have listed: "\<exists>rest. readActivityRecent None limit (g\<lparr>activityLines := Some kept\<rparr>) = Inr (e # rest) \<and>
      length rest < activityListLimit" if "activityEnabled g"
  proof -
    define n where "n = (if limit \<le> 0 \<or> limit > int activityListLimit then activityListLimit else nat limit)"
    have n: "0 < n" "n \<le> activityListLimit" by (auto simp: n_def activityListLimit_def)
    have mf: "List.map_filter line_entry kept = List.map_filter line_entry (butlast kept) @ [e]"
      by (simp add: kept_def List.map_filter_def)
    have "readActivityRecent None limit (g\<lparr>activityLines := Some kept\<rparr>) =
        Inr (e # rev (last_n (n - 1) (List.map_filter line_entry (butlast kept))))"
      using that last_n_props(3) [OF n(1)] by (simp add: readActivityRecent_def mf n_def [symmetric])
    moreover have "length (rev (last_n (n - 1) (List.map_filter line_entry (butlast kept)))) < activityListLimit"
      using last_n_props(1) [of "n - 1" "List.map_filter line_entry (butlast kept)"] n by simp
    ultimately show ?thesis by blast
  qed
  have ip: "no_addresses g'" if "\<not> activityLogIP g" "no_addresses g"
  proof (cases "activityEnabled g")
    case True
    have old: "aeIP x = []" if "LogEntry x \<in> set ls" for x
      using \<open>no_addresses g\<close> that by (simp add: no_addresses_def ls_def)
    have new: "aeIP e = []" using that(1) by (simp add: e_def)
    show ?thesis
      unfolding no_addresses_def g' [OF True] using sub old new by auto
  next
    case False
    with that show ?thesis by (simp add: assms(2) auditLog_def)
  qed
  have "e = e \<and> aeUser e = user \<and> aeAction e = action \<and> aePath e = Trim path ''/''" by (simp add: e_def)
  moreover have "g' = g \<and> readActivityRecent readErr limit g' = Inr []" if "\<not> activityEnabled g"
    using that by (simp add: assms(2) auditLog_def readActivityRecent_def)
  ultimately show ?thesis using len fresh listed ip g' by auto
qed

text \<open>A log with one old line, one broken line and an entry of today.\<close>

definition demo_request :: request where
  "demo_request = \<lparr>rMethod = ''POST'', rPath = ''/admin/mkdir'', rRequestURI = ''/admin/mkdir'',
     rQuery = (\<lambda>_. []), rHeader = (\<lambda>_. []), rCookies = [], rRemoteAddr = ''10.0.0.9:1234'',
     rHost = ''box'', rTLS = False, rBody = BodyInvalid, rForm = FormBad, rRaw = None,
     rSession = None, rAuthVia = []\<rparr>"

definition demo_log :: activityLog where
  "demo_log = \<lparr>activityEnabled = True, activityLogIP = False, activityLines = Some [LogJunk,
     LogEntry \<lparr>aeTS = Some 1, aeUser = ''root'', aeAction = ''login'', aePath = [], aeIP = []\<rparr>]\<rparr>"

theorem activity_log_bounded_witness:
  "\<exists>ls. activityLines (auditLog (15 * 24 * hour_ns) (15 * 24 * hour_ns) True True False ''root'' ''mkdir'' ''/docs'' demo_request demo_log) =
     Some ls \<and> length ls \<le> activityMaxLines \<and> LogJunk \<notin> set ls"
proof -
  have "15 * 24 * hour_ns - 15 * 24 * hour_ns < activityDefaultRetention - second_ns"
    by (simp add: activityDefaultRetention_def)
  from activity_log_bounded [OF this refl, where g = demo_log and r = demo_request and trustProxy = False and
      user = "''root''" and action = "''mkdir''" and path = "''/docs''"]
  obtain ls where ls: "activityLines (auditLog (15 * 24 * hour_ns) (15 * 24 * hour_ns) True True False ''root'' ''mkdir'' ''/docs'' demo_request demo_log) =
     Some ls" "length ls \<le> activityMaxLines"
    "\<forall>l\<in>set ls. line_fresh (15 * 24 * hour_ns - activityDefaultRetention) l"
    by (auto simp: demo_log_def)
  then show ?thesis by (fastforce simp: line_fresh_def)
qed

end
