(* ===== verification/Config.thy ===== *)
theory Config
  imports Users Http SafePath
begin

text \<open>
  The configuration: the environment variables and flags \<open>main\<close> reads (\<open>main.go\<close>), the identity
  of a reverse proxy (\<open>proxy_auth.go\<close>) and the choice of the storage directory (\<open>storage.go\<close>). The
  environment is a function from names to values, empty for a variable that is not set.
  Main results: identity headers count only when both switches are set, and then name an
  existing account; the upload limit is what the variable says as long as the shift does not overflow.
\<close>

record config =
  cfg_useTLS :: bool
  cfg_secureCookie :: bool
  cfg_publicOpen :: bool
  cfg_trustProxy :: bool
  cfg_proxyAuthEnabled :: bool
  cfg_proxyAuthHeader :: string
  cfg_webdavEnabled :: bool
  cfg_activityEnabled :: bool
  cfg_activityLogIP :: bool
  cfg_maxUploadBytes :: int

type_synonym environment = "string \<Rightarrow> string"

subsection \<open>Environment variables\<close>

definition envTruthy :: "unicode \<Rightarrow> environment \<Rightarrow> string \<Rightarrow> bool" where
  "envTruthy U getenv key =
     (let v = TrimSpace (ToLower U (getenv key)) in v = ''1'' \<or> v = ''true'' \<or> v = ''yes'' \<or> v = ''on'')"

definition defaultMaxUploadBytes :: int where "defaultMaxUploadBytes = 500 * 2 ^ 20"

definition loadMaxUploadBytes :: "environment \<Rightarrow> int" where
  "loadMaxUploadBytes getenv =
     (let v = TrimSpace (getenv ''MAX_UPLOAD_MB'') in
      if v = [] then defaultMaxUploadBytes
      else case scan_int 64 v of
        None \<Rightarrow> defaultMaxUploadBytes
      | Some (mb, _) \<Rightarrow> (if mb < 1 then defaultMaxUploadBytes else int64 (mb * 2 ^ 20)))"

definition configureProxyAuth :: "unicode \<Rightarrow> environment \<Rightarrow> bool \<Rightarrow> bool \<times> string" where
  "configureProxyAuth U getenv trustProxy =
     (let want = envTruthy U getenv ''PROXY_AUTH''; hdr = TrimSpace (getenv ''PROXY_AUTH_HEADER'') in
      if want \<and> \<not> trustProxy then (False, hdr) else (want, hdr))"

definition configureWebDAV :: "unicode \<Rightarrow> environment \<Rightarrow> bool" where
  "configureWebDAV U getenv = envTruthy U getenv ''WEBDAV''"

text \<open>The first part of \<open>main\<close>: everything that depends on flags and environment only.\<close>

definition load_config :: "unicode \<Rightarrow> environment \<Rightarrow> string \<Rightarrow> string \<Rightarrow> config result" where
  "load_config U getenv certFlag keyFlag =
     (let cert = (if getenv ''TLS_CERT'' \<noteq> [] \<and> certFlag = [] then getenv ''TLS_CERT'' else certFlag);
          key = (if getenv ''TLS_KEY'' \<noteq> [] \<and> keyFlag = [] then getenv ''TLS_KEY'' else keyFlag)
      in if (cert = []) \<noteq> (key = [])
         then Inl ''Config error: -tls-cert and -tls-key must both be set, or both omitted''
         else let useTLS = (cert \<noteq> [] \<and> key \<noteq> []);
                  secure0 = (if TrimSpace (getenv ''COOKIE_SECURE'') \<noteq> [] then envTruthy U getenv ''COOKIE_SECURE'' else True);
                  secure = (if useTLS then True else secure0);
                  trust = envTruthy U getenv ''TRUST_PROXY'';
                  proxy = configureProxyAuth U getenv trust
              in Inr \<lparr>cfg_useTLS = useTLS, cfg_secureCookie = secure,
                      cfg_publicOpen = envTruthy U getenv ''PUBLIC_OPEN'', cfg_trustProxy = trust,
                      cfg_proxyAuthEnabled = fst proxy, cfg_proxyAuthHeader = snd proxy,
                      cfg_webdavEnabled = configureWebDAV U getenv,
                      cfg_activityEnabled = envTruthy U getenv ''ACTIVITY_LOG'',
                      cfg_activityLogIP = envTruthy U getenv ''ACTIVITY_LOG_IP'',
                      cfg_maxUploadBytes = loadMaxUploadBytes getenv\<rparr>)"

subsection \<open>The identity a reverse proxy vouches for\<close>

definition sanitizeProxyUsername :: "string \<Rightarrow> string" where
  "sanitizeProxyUsername raw0 =
     (let raw1 = TrimSpace raw0 in
      if raw1 = [] then []
      else let raw2 = (case index_of (CHR ''@'') raw1 of None \<Rightarrow> raw1 | Some i \<Rightarrow> if i > 0 then take i raw1 else raw1);
               raw = TrimSpace raw2
           in if raw = [] \<or> length raw > 64 then []
              else if list_ex (\<lambda>c. c \<in> {slash, backslash, nul, CHR 0x0D, CHR 0x0A}) raw then []
              else raw)"

definition proxyUsername :: "config \<Rightarrow> request \<Rightarrow> string" where
  "proxyUsername cfg r =
     (if \<not> cfg_proxyAuthEnabled cfg then []
      else sanitizeProxyUsername
        (if cfg_proxyAuthHeader cfg \<noteq> [] then rHeader r (cfg_proxyAuthHeader cfg)
         else case List.find (\<lambda>h. rHeader r h \<noteq> []) [''Remote-User'', ''X-Remote-User'', ''X-Forwarded-User''] of
           None \<Rightarrow> [] | Some h \<Rightarrow> rHeader r h))"

definition sessionFromProxy :: "unicode \<Rightarrow> config \<Rightarrow> gotime \<Rightarrow> request \<Rightarrow> userStore \<Rightarrow> session option" where
  "sessionFromProxy U cfg now r us =
     (let name = proxyUsername cfg r in
      if name = [] then None
      else case byUsername U name us of
        None \<Rightarrow> None
      | Some u \<Rightarrow> Some \<lparr>sUsername = Username u, sRole = Role u, sExpiresAt = now + 24 * hour_ns\<rparr>)"

lemma sanitizeProxyUsername_clean:
  "set (sanitizeProxyUsername raw) \<inter> {slash, backslash, nul, CHR 0x0D, CHR 0x0A} = {} \<and>
   length (sanitizeProxyUsername raw) \<le> 64"
  by (auto simp: sanitizeProxyUsername_def Let_def list_ex_iff)

text \<open>
  C19: Headers never make an identity up. Under any configuration the program accepts: unless
  TRUST_PROXY and PROXY_AUTH are both switched on, no request carries an identity from its
  headers and the address used for rate limiting is the connection's; and when they are on, the
  identity is one of the local accounts, with that account's role.
\<close>

theorem proxy_identity_gated:
  assumes "load_config U getenv certFlag keyFlag = Inr cfg"
  shows "(\<not> (envTruthy U getenv ''TRUST_PROXY'' \<and> envTruthy U getenv ''PROXY_AUTH'') \<longrightarrow>
      sessionFromProxy U cfg now r us = None) \<and>
    (\<not> envTruthy U getenv ''TRUST_PROXY'' \<longrightarrow>
      (\<forall>r'. rRemoteAddr r' = rRemoteAddr r \<longrightarrow> clientIP (cfg_trustProxy cfg) r' = clientIP (cfg_trustProxy cfg) r)) \<and>
    (\<forall>s. sessionFromProxy U cfg now r us = Some s \<longrightarrow>
      (\<exists>u\<in>set (Users us). sUsername s = Username u \<and> sRole s = Role u \<and>
         EqualFold U (Username u) (proxyUsername cfg r)))"
proof (intro conjI impI allI)
  assume off: "\<not> (envTruthy U getenv ''TRUST_PROXY'' \<and> envTruthy U getenv ''PROXY_AUTH'')"
  then have "\<not> cfg_proxyAuthEnabled cfg"
    using assms by (auto simp: load_config_def configureProxyAuth_def Let_def split: if_splits)
  then show "sessionFromProxy U cfg now r us = None"
    by (simp add: sessionFromProxy_def proxyUsername_def)
next
  fix r' :: request
  assume "\<not> envTruthy U getenv ''TRUST_PROXY''" and same: "rRemoteAddr r' = rRemoteAddr r"
  then have "\<not> cfg_trustProxy cfg" using assms by (auto simp: load_config_def Let_def split: if_splits)
  then show "clientIP (cfg_trustProxy cfg) r' = clientIP (cfg_trustProxy cfg) r"
    using clientIP_untrusted [OF same] by simp
next
  fix s
  assume "sessionFromProxy U cfg now r us = Some s"
  then obtain u where "byUsername U (proxyUsername cfg r) us = Some u" "sUsername s = Username u" "sRole s = Role u"
    by (auto simp: sessionFromProxy_def Let_def split: if_splits option.splits)
  then show "\<exists>u\<in>set (Users us). sUsername s = Username u \<and> sRole s = Role u \<and>
      EqualFold U (Username u) (proxyUsername cfg r)"
    using find_in_set [of "same_user U (proxyUsername cfg r)" "Users us" u]
    by (auto simp: byUsername_def same_user_def)
qed

definition proxy_env :: environment where
  "proxy_env k = (if k = ''PROXY_AUTH'' then ''yes'' else [])"

definition spoofing_request :: request where
  "spoofing_request = \<lparr>rMethod = ''GET'', rPath = ''/admin'', rRequestURI = ''/admin'',
     rQuery = (\<lambda>_. []), rHeader = (\<lambda>h. if h = ''Remote-User'' then ''root'' else []), rCookies = [],
     rRemoteAddr = ''10.0.0.9:1234'', rHost = ''box'', rTLS = False, rBody = BodyInvalid, rForm = FormBad,
     rRaw = None, rSession = None, rAuthVia = []\<rparr>"

lemma envTruthy_unset: "getenv key = [] \<Longrightarrow> \<not> envTruthy U getenv key"
  by (simp add: envTruthy_def ToLower_def)

theorem proxy_identity_gated_witness:
  "\<exists>cfg. load_config basic_unicode proxy_env [] [] = Inr cfg \<and>
     sessionFromProxy basic_unicode cfg 0 spoofing_request demo_users = None"
proof -
  obtain cfg where cfg: "load_config basic_unicode proxy_env [] [] = Inr cfg"
    by (simp add: load_config_def proxy_env_def Let_def)
  have "\<not> envTruthy basic_unicode proxy_env ''TRUST_PROXY''"
    by (rule envTruthy_unset) (simp add: proxy_env_def)
  with proxy_identity_gated [OF cfg, of 0 spoofing_request demo_users] cfg show ?thesis by blast
qed

subsection \<open>The upload limit\<close>

text \<open>
  The upload limit is what MAX_UPLOAD_MB says, in megabytes, when the variable starts with a number
  from 1 to 8796093022207, and the default when it is empty, does not start with a number of 64 bits or is not
  positive. Larger numbers leave the 64-bit range: 17592186044416 gives a limit of 0.
\<close>

theorem loadMaxUploadBytes_correct:
  "(\<forall>mb rest. TrimSpace (getenv ''MAX_UPLOAD_MB'') \<noteq> [] \<and>
      scan_int 64 (TrimSpace (getenv ''MAX_UPLOAD_MB'')) = Some (mb, rest) \<and> 1 \<le> mb \<and> mb < 2 ^ 43 \<longrightarrow>
      loadMaxUploadBytes getenv = mb * 2 ^ 20) \<and>
   (TrimSpace (getenv ''MAX_UPLOAD_MB'') = [] \<or> scan_int 64 (TrimSpace (getenv ''MAX_UPLOAD_MB'')) = None \<or>
      (\<exists>mb rest. scan_int 64 (TrimSpace (getenv ''MAX_UPLOAD_MB'')) = Some (mb, rest) \<and> mb < 1) \<longrightarrow>
      loadMaxUploadBytes getenv = defaultMaxUploadBytes) \<and>
   loadMaxUploadBytes (\<lambda>_. ''17592186044416'') = 0"
proof (intro conjI allI impI)
  have T: "TrimSpace ''17592186044416'' = ''17592186044416''" by (rule TrimSpace_id) (simp_all add: graphic_def)
  show "loadMaxUploadBytes (\<lambda>_. ''17592186044416'') = 0"
    by (simp add: loadMaxUploadBytes_def T scan_blanks_digit scan_simps int64_def signed_take_bit_def Let_def)
qed (auto simp: loadMaxUploadBytes_def Let_def int64_id split: option.splits)

theorem loadMaxUploadBytes_correct_witness:
  "loadMaxUploadBytes (\<lambda>_. ''3'') = 3 * 2 ^ 20 \<and> loadMaxUploadBytes (\<lambda>_. []) = defaultMaxUploadBytes"
proof -
  have T: "TrimSpace ''3'' = ''3''" by (rule TrimSpace_id) (simp_all add: graphic_def)
  have "scan_int 64 ''3'' = Some (3, [])" by (simp add: scan_blanks_digit scan_simps)
  with loadMaxUploadBytes_correct [of "\<lambda>_. ''3''"] loadMaxUploadBytes_correct [of "\<lambda>_. []"] T
  show ?thesis by simp
qed

subsection \<open>The storage directory\<close>

text \<open>
  \<open>resolveStorageDir\<close>. The probe file is written and removed; writing fails where the directory
  cannot be changed or the name is taken by a directory, the outcome of the removal is not looked at.
\<close>

definition write_probe :: "fs \<Rightarrow> apath \<Rightarrow> oserr option \<times> fs" where
  "write_probe f p =
     (case os_WriteFile f p [] of
        Inl e \<Rightarrow> (Some e, f)
      | Inr f1 \<Rightarrow> (None, snd (os_RemoveAll f1 p)))"

definition resolveStorageDir ::
  "unicode \<Rightarrow> environment \<Rightarrow> apath option \<Rightarrow> string \<Rightarrow> fs \<Rightarrow> apath result \<times> fs"
where
  "resolveStorageDir U getenv cwd flagVal f =
     (let dir0 = TrimSpace flagVal;
          dir1 = (if dir0 = [] then TrimSpace (getenv ''DINGBAP_STORAGE_DIR'') else dir0);
          dir = (if dir1 = [] then ''storage'' else dir1)
      in case path_Abs cwd dir of
        None \<Rightarrow> (Inl (''resolve storage dir '' @ Quote U dir), f)
      | Some p \<Rightarrow>
          (let made = (case os_Stat f p of
                 Inl e \<Rightarrow>
                   (if e \<noteq> ENOENT then (Inl (''stat storage dir '' @ apath_str p @ '': '' @ path_error ''stat'' p e), f)
                    else case os_MkdirAll f p of
                      (Some e, f1) \<Rightarrow> (Inl (''create storage dir '' @ apath_str p @ '': '' @ path_error ''mkdir'' p e), f1)
                    | (None, f1) \<Rightarrow> (Inr (), f1))
               | Inr n \<Rightarrow>
                   (if \<not> is_dir n then (Inl (''storage path '' @ apath_str p @ '' exists but is not a directory''), f)
                    else (Inr (), f)))
           in case made of
             (Inl e, f1) \<Rightarrow> (Inl e, f1)
           | (Inr _, f1) \<Rightarrow>
               (case write_probe f1 (join_abs p ''.dingbap-write-test'') of
                  (Some e, f2) \<Rightarrow> (Inl (''storage dir '' @ apath_str p @ '' is not writable: '' @
                     path_error ''open'' (join_abs p ''.dingbap-write-test'') e), f2)
                | (None, f2) \<Rightarrow> (Inr p, f2))))"

end
