(* ===== verification/Server.thy ===== *)
theory Server
  imports Config Activity Totp Trash Upload Cache
begin

text \<open>
  The state all handlers share and the middleware of \<open>middleware.go\<close>. The package variables of
  the program (\<open>users\<close>, \<open>sessions\<close>, \<open>shares\<close>, \<open>trash\<close>, \<open>uploads\<close>, \<open>dirCache\<close>, the disk usage cache, the
  pending logins, the activity log) and the file system are the fields of one record; what never
  changes after the start is in \<open>genv\<close>. A handler maps a request and the state to a response and the
  state. Main results: the guards let exactly the right requests through, whatever they guard.
\<close>

subsection \<open>State\<close>

record diskUsage =
  UsedBytes :: int
  FreeBytes :: int
  TotalBytes :: int

record diskUsageState =
  diskUsageCache :: diskUsage
  diskUsageAt :: gotime
  diskUsageValid :: bool

record server =
  srvUsers :: userStore
  srvSessions :: sessionManager
  srvPending :: pendings
  srvShares :: shareStore
  srvTrash :: trashStore
  srvUploads :: uploadManager
  srvCache :: listingCache
  srvDisk :: diskUsageState
  srvLog :: activityLog
  srvFs :: fs

text \<open>What is fixed after the start: tables and packages outside the program, and the configuration.\<close>

record genv =
  gU :: unicode
  gArgon :: argon2
  gTotp :: totp_validate
  gPaths :: path_env
  gConf :: config

text \<open>
  What a handler reads from outside, beyond the clock, the random source and the outcomes of saves:
  the secret and URL \<open>totp.Generate\<close> returns, the numbers of \<open>statfs\<close>, outcomes of file operations
  (\<open>x_err\<close>: the error, \<open>x_cut\<close>: how many bytes a write that fails got out).
  The clock and the random source are indexed by the place in the handler that reads them.
\<close>

record extern = ext +
  x_totp_key :: "string \<Rightarrow> (string \<times> string) option"
  x_statfs :: "(int \<times> int \<times> int) option"
  x_err :: "nat \<Rightarrow> error option"
  x_cut :: "nat \<Rightarrow> nat"
  x_mtime :: "string \<Rightarrow> gotime option"

type_synonym shandler = "genv \<Rightarrow> extern \<Rightarrow> request \<Rightarrow> server \<Rightarrow> response \<times> server"

definition with_users :: "(userStore \<Rightarrow> 'a \<times> userStore) \<Rightarrow> server \<Rightarrow> 'a \<times> server" where
  "with_users op s = (let (a, u) = op (srvUsers s) in (a, s\<lparr>srvUsers := u\<rparr>))"

definition with_shares :: "(shareStore \<Rightarrow> 'a \<times> shareStore) \<Rightarrow> server \<Rightarrow> 'a \<times> server" where
  "with_shares op s = (let (a, sh) = op (srvShares s) in (a, s\<lparr>srvShares := sh\<rparr>))"

definition with_trash :: "(trashStore \<times> fs \<Rightarrow> 'a \<times> trashStore \<times> fs) \<Rightarrow> server \<Rightarrow> 'a \<times> server" where
  "with_trash op s =
     (let (a, t, f) = op (srvTrash s, srvFs s) in (a, s\<lparr>srvTrash := t, srvFs := f\<rparr>))"

definition with_uploads :: "(uploadManager \<Rightarrow> 'a \<times> uploadManager) \<Rightarrow> server \<Rightarrow> 'a \<times> server" where
  "with_uploads op s = (let (a, u) = op (srvUploads s) in (a, s\<lparr>srvUploads := u\<rparr>))"

definition on_sessions :: "(sessionManager \<Rightarrow> sessionManager) \<Rightarrow> server \<Rightarrow> server" where
  "on_sessions op s = s\<lparr>srvSessions := op (srvSessions s)\<rparr>"

definition invalidateDiskUsageCache :: "diskUsageState \<Rightarrow> diskUsageState" where
  "invalidateDiskUsageCache d = d\<lparr>diskUsageValid := False\<rparr>"

definition invalidateListingCache :: "server \<Rightarrow> server" where
  "invalidateListingCache s =
     s\<lparr>srvCache := cache_invalidate (srvCache s), srvDisk := invalidateDiskUsageCache (srvDisk s)\<rparr>"

text \<open>\<open>auditLog\<close> as the handlers call it.\<close>

definition audit :: "genv \<Rightarrow> extern \<Rightarrow> string \<Rightarrow> string \<Rightarrow> string \<Rightarrow> request \<Rightarrow> server \<Rightarrow> server" where
  "audit G x user action path r s =
     s\<lparr>srvLog := auditLog (x_now x 90) (x_now x 91) (x_save x 90) (x_save x 91)
        (cfg_trustProxy (gConf G)) user action path r (srvLog s)\<rparr>"

lemma server_frames [simp]:
  "srvUsers (audit G x u a p r s) = srvUsers s" "srvSessions (audit G x u a p r s) = srvSessions s"
  "srvPending (audit G x u a p r s) = srvPending s" "srvShares (audit G x u a p r s) = srvShares s"
  "srvTrash (audit G x u a p r s) = srvTrash s" "srvUploads (audit G x u a p r s) = srvUploads s"
  "srvCache (audit G x u a p r s) = srvCache s" "srvDisk (audit G x u a p r s) = srvDisk s"
  "srvFs (audit G x u a p r s) = srvFs s"
  "srvUsers (invalidateListingCache s) = srvUsers s" "srvSessions (invalidateListingCache s) = srvSessions s"
  "srvPending (invalidateListingCache s) = srvPending s" "srvShares (invalidateListingCache s) = srvShares s"
  "srvTrash (invalidateListingCache s) = srvTrash s" "srvUploads (invalidateListingCache s) = srvUploads s"
  "srvFs (invalidateListingCache s) = srvFs s"
  "srvUsers (on_sessions f s) = srvUsers s" "srvSessions (on_sessions f s) = f (srvSessions s)"
  "srvPending (on_sessions f s) = srvPending s" "srvShares (on_sessions f s) = srvShares s"
  "srvTrash (on_sessions f s) = srvTrash s" "srvUploads (on_sessions f s) = srvUploads s"
  "srvFs (on_sessions f s) = srvFs s"
  by (simp_all add: audit_def invalidateListingCache_def on_sessions_def)

subsection \<open>Middleware\<close>

text \<open>Source expressions of a Content-Security-Policy stand in single quotes.\<close>

definition csp_source :: "string \<Rightarrow> string" where
  "csp_source w = CHR 0x27 # w @ [CHR 0x27]"

definition csp_default :: string where
  "csp_default = ''default-src '' @ csp_source ''none'' @ ''; base-uri '' @ csp_source ''none''
     @ ''; frame-ancestors '' @ csp_source ''none'' @ ''; form-action '' @ csp_source ''self''
     @ ''; script-src '' @ csp_source ''unsafe-inline'' @ ''; style-src '' @ csp_source ''unsafe-inline''
     @ ''; img-src '' @ csp_source ''self'' @ '' blob: data:; media-src '' @ csp_source ''self''
     @ '' blob:; frame-src '' @ csp_source ''self'' @ ''; connect-src '' @ csp_source ''self''
     @ ''; font-src '' @ csp_source ''self'' @ ''; object-src '' @ csp_source ''none''"

definition security_headers :: "(string \<times> string) list" where
  "security_headers = [(''X-Content-Type-Options'', ''nosniff''), (''X-Frame-Options'', ''DENY''),
     (''Referrer-Policy'', ''no-referrer''), (''Content-Security-Policy'', csp_default)]"

text \<open>Headers set first, then those the handler sets on top.\<close>

definition over_headers :: "(string \<times> string) list \<Rightarrow> response \<Rightarrow> response" where
  "over_headers hs resp =
     resp\<lparr>respHeaders := foldl (\<lambda>acc h. set_header (fst h) (snd h) acc) hs (respHeaders resp)\<rparr>"

definition withSession :: "shandler \<Rightarrow> shandler" where
  "withSession h G x r s =
     (let ran = (case sessionFromProxy (gU G) (gConf G) (x_now x 0) r (srvUsers s) of
          Some ses \<Rightarrow> h G x (r\<lparr>rSession := Some ses, rAuthVia := ''proxy''\<rparr>) s
        | None \<Rightarrow>
            (case fromRequest (x_now x 0) (x_now x 1) (x_save x 0) r (srvSessions s) of
               (Some ses, sm) \<Rightarrow>
                 h G x (r\<lparr>rSession := Some ses, rAuthVia := ''session''\<rparr>) (s\<lparr>srvSessions := sm\<rparr>)
             | (None, sm) \<Rightarrow> h G x (r\<lparr>rSession := None, rAuthVia := []\<rparr>) (s\<lparr>srvSessions := sm\<rparr>)))
      in (over_headers security_headers (fst ran), snd ran))"

definition requireCSRF :: "shandler \<Rightarrow> shandler" where
  "requireCSRF h G x r s =
     (if \<not> sameOrigin (gU G) r then (jsonErr 403 ''Invalid origin'', s) else h G x r s)"

definition shouldRedirectToLogin :: "request \<Rightarrow> bool" where
  "shouldRedirectToLogin r =
     (if rMethod r \<noteq> ''GET'' \<and> rMethod r \<noteq> ''HEAD'' then False
      else if HasPrefix (rPath r) ''/api/'' \<or> HasPrefix (rPath r) ''/download/'' \<or> HasPrefix (rPath r) ''/preview/''
      then False
      else if HasPrefix (rPath r) ''/admin/'' then False
      else let accept = rHeader r ''Accept''
           in accept = [] \<or> Contains accept ''text/html'' \<or> Contains accept ''*/*'')"

definition denyAuth :: "request \<Rightarrow> response" where
  "denyAuth r =
     (if shouldRedirectToLogin r then redirect (''/login?next='' @ QueryEscape (rRequestURI r)) 302
      else jsonErr 401 ''Authentication required'')"

definition requireAdmin :: "shandler \<Rightarrow> shandler" where
  "requireAdmin h G x r s =
     (case rSession r of
        None \<Rightarrow> (denyAuth r, s)
      | Some ses \<Rightarrow>
          (if sRole ses \<noteq> roleAdmin
           then (if shouldRedirectToLogin r then redirect ''/'' 302 else jsonErr 403 ''Admin access required'', s)
           else h G x r s))"

definition requireViewerOrOpen :: "shandler \<Rightarrow> shandler" where
  "requireViewerOrOpen h G x r s =
     (if cfg_publicOpen (gConf G) then h G x r s
      else case rSession r of None \<Rightarrow> (denyAuth r, s) | Some _ \<Rightarrow> h G x r s)"

subsection \<open>Where a login leads\<close>

definition safeNextPath :: "string \<Rightarrow> string \<Rightarrow> string" where
  "safeNextPath nxt role =
     (if nxt = [] \<or> \<not> HasPrefix nxt ''/'' \<or> HasPrefix nxt ''//''
      then (if role = roleAdmin then ''/admin'' else ''/'')
      else if HasPrefix nxt ''/admin'' \<and> role \<noteq> roleAdmin then ''/''
      else nxt)"

text \<open>
  After a login the browser stays on this host as far as slashes go, and only an admin is sent to the
  admin pages: the target is a rooted path that does not start with two slashes, it starts
  with /admin only for an admin, and a target that satisfies all this is not changed. A backslash
  in second place is let through, though browsers read it as a slash.
\<close>

theorem safeNextPath_local:
  "HasPrefix (safeNextPath nxt role) ''/'' \<and> \<not> HasPrefix (safeNextPath nxt role) ''//'' \<and>
   (HasPrefix (safeNextPath nxt role) ''/admin'' \<longrightarrow> role = roleAdmin) \<and>
   safeNextPath (safeNextPath nxt role) role = safeNextPath nxt role \<and>
   (HasPrefix nxt ''/'' \<and> \<not> HasPrefix nxt ''//'' \<and> (HasPrefix nxt ''/admin'' \<longrightarrow> role = roleAdmin) \<longrightarrow>
      safeNextPath nxt role = nxt) \<and>
   safeNextPath (slash # backslash # ''evil.example'') roleViewer = slash # backslash # ''evil.example''"
  by (auto simp: safeNextPath_def)

theorem safeNextPath_local_witness:
  "safeNextPath ''/docs'' roleViewer = ''/docs'' \<and> safeNextPath ''//evil'' roleViewer = ''/'' \<and>
   safeNextPath ''/admin/x'' roleViewer = ''/''"
proof -
  have "safeNextPath ''/docs'' roleViewer = ''/docs''"
    using safeNextPath_local [of "''/docs''" roleViewer] by simp
  then show ?thesis by (simp add: safeNextPath_def roleViewer_def roleAdmin_def)
qed

subsection \<open>The guards\<close>

text \<open>What a guarded handler may assume about the request.\<close>

lemma requireAdmin_runs:
  assumes "requireAdmin h G x r s = (resp, s')"
  shows "(\<exists>ses. rSession r = Some ses \<and> sRole ses = roleAdmin \<and> (resp, s') = h G x r s) \<or>
    (s' = s \<and> respStatus resp \<in> {302, 401, 403})"
  using assms by (auto simp: requireAdmin_def denyAuth_def split: option.splits if_splits)

lemma requireCSRF_runs:
  assumes "requireCSRF h G x r s = (resp, s')"
  shows "(sameOrigin (gU G) r \<and> (resp, s') = h G x r s) \<or> (s' = s \<and> respStatus resp = 403)"
  using assms by (auto simp: requireCSRF_def split: if_splits)

lemma get_header_foldl:
  "get_header (foldl (\<lambda>acc h. set_header (fst h) (snd h) acc) acc hs) k =
     (if k \<in> fst ` set hs then get_header (foldl (\<lambda>acc h. set_header (fst h) (snd h) acc) [] hs) k
      else get_header acc k)"
proof (induction hs rule: rev_induct)
  case (snoc h hs)
  then show ?case by auto
qed simp

subsection \<open>A small server for the examples\<close>

definition demo_conf :: config where
  "demo_conf = \<lparr>cfg_useTLS = False, cfg_secureCookie = True, cfg_publicOpen = False, cfg_trustProxy = False,
     cfg_proxyAuthEnabled = False, cfg_proxyAuthHeader = [], cfg_webdavEnabled = False,
     cfg_activityEnabled = False, cfg_activityLogIP = False, cfg_maxUploadBytes = 100\<rparr>"

definition demo_G :: genv where
  "demo_G = \<lparr>gU = basic_unicode, gArgon = toy_argon, gTotp = (\<lambda>_ code _. code = ''123456''),
     gPaths = demo_env, gConf = demo_conf\<rparr>"

definition demo_x :: extern where
  "demo_x = \<lparr>x_now = (\<lambda>_. 5), x_rand = (\<lambda>_. Some demo_rnd), x_save = (\<lambda>_. True), x_totp_key = (\<lambda>_. None),
     x_statfs = None, x_err = (\<lambda>_. None), x_cut = (\<lambda>_. 0), x_mtime = (\<lambda>_. None)\<rparr>"

definition demo_server :: "user list \<Rightarrow> server" where
  "demo_server us = \<lparr>srvUsers = \<lparr>Users = us, usersDisk = Some us\<rparr>,
     srvSessions = newSessionManager 0 True None True, srvPending = \<lparr>pendingLogins = [], pendingSetups = []\<rparr>,
     srvShares = sharesFrom None, srvTrash = demo_trash, srvUploads = noUploads [''s'', ''.dingbap''],
     srvCache = newListingCache 1000,
     srvDisk = \<lparr>diskUsageCache = \<lparr>UsedBytes = 0, FreeBytes = 0, TotalBytes = 0\<rparr>, diskUsageAt = 0, diskUsageValid = False\<rparr>,
     srvLog = \<lparr>activityEnabled = False, activityLogIP = False, activityLines = None\<rparr>,
     srvFs = demo_trash_fs\<rparr>"

definition fields_of :: "(string \<times> string) list \<Rightarrow> fields" where
  "fields_of kvs = \<lparr>fStr = (\<lambda>k. case map_of kvs k of None \<Rightarrow> [] | Some v \<Rightarrow> v), fBool = (\<lambda>_. False),
     fInt = (\<lambda>_. 0), fStrs = (\<lambda>_. [])\<rparr>"

end
