(* ===== verification/Auth.thy ===== *)
theory Auth
  imports Server
begin

text \<open>
  Signing in and out, two-factor set-up and the account pages (\<open>middleware.go\<close>, \<open>totp.go\<close>,
  \<open>users_admin.go\<close>). Main results: a session exists only for an account whose password, and second
  factor where enabled, was presented; a password reset ends the sessions of the account.
\<close>

subsection \<open>Signing in\<close>

definition login_done :: "string \<Rightarrow> string \<Rightarrow> response" where
  "login_done username role =
     writeJSON 200 (JObj [(''ok'', JBool True), (''role'', JStr role), (''username'', JStr username)])"

definition open_session ::
  "genv \<Rightarrow> extern \<Rightarrow> request \<Rightarrow> string \<Rightarrow> string \<Rightarrow> string \<Rightarrow> server \<Rightarrow> response \<times> server"
where
  "open_session G x r ip username role s =
     (case sm_create (x_now x 10) (x_now x 11) (x_rand x 1) (x_save x 1) username role (srvSessions s) of
        (Inl _, sm) \<Rightarrow> (jsonErr 500 ''Failed to create session'', s\<lparr>srvSessions := sm\<rparr>)
      | (Inr sid, sm) \<Rightarrow>
          (let sm1 = clearFailures ip sm in
           (setCookie sid sm1 (login_done username role),
            audit G x username ''login'' [] r (s\<lparr>srvSessions := sm1\<rparr>))))"

definition finishLoginAfterPassword ::
  "genv \<Rightarrow> extern \<Rightarrow> request \<Rightarrow> string \<Rightarrow> user \<Rightarrow> server \<Rightarrow> response \<times> server"
where
  "finishLoginAfterPassword G x r ip u s =
     (if Role u = roleAdmin \<and> totpEnabled (gU G) (Username u) (srvUsers s)
      then (case putPendingLogin (x_now x 9) (x_rand x 0) (Username u) (Role u) (srvPending s) of
              (Inl _, p) \<Rightarrow> (jsonErr 500 ''Failed to start 2FA step'', s\<lparr>srvPending := p\<rparr>)
            | (Inr tok, p) \<Rightarrow>
                (writeJSON 200 (JObj [(''ok'', JBool True), (''pending_token'', JStr tok), (''totp_required'', JBool True)]),
                 on_sessions (clearFailures ip) (s\<lparr>srvPending := p\<rparr>)))
      else open_session G x r ip (Username u) (Role u) s)"

text \<open>The checks both login handlers begin with.\<close>

definition login_entry ::
  "genv \<Rightarrow> extern \<Rightarrow> request \<Rightarrow> (string \<Rightarrow> fields \<Rightarrow> server \<Rightarrow> response \<times> server) \<Rightarrow> server \<Rightarrow> response \<times> server"
where
  "login_entry G x r k s =
     (if rMethod r \<noteq> ''POST'' then (jsonErr 405 ''POST required'', s)
      else if \<not> sameOrigin (gU G) r then (jsonErr 403 ''Invalid origin'', s)
      else let ip = clientIP (cfg_trustProxy (gConf G)) r in
        case allowLogin (x_now x 2) (x_now x 3) ip (srvSessions s) of
          (False, sm) \<Rightarrow>
            (jsonErr 429 (''Too many failed attempts '' @ emdash @ '' try again in a minute''), s\<lparr>srvSessions := sm\<rparr>)
        | (True, sm) \<Rightarrow>
            decodeJSONBody r (\<lambda>b. k ip b (s\<lparr>srvSessions := sm\<rparr>)) (s\<lparr>srvSessions := sm\<rparr>))"

definition handleLoginAPI :: shandler where
  "handleLoginAPI G x r s =
     login_entry G x r (\<lambda>ip b s.
       (case authenticate (gU G) (gArgon G) (srvUsers s) (fStr b ''username'') (fStr b ''password'') of
          Inl _ \<Rightarrow> (jsonErr 401 ''Invalid username or password'', on_sessions (recordFailure (x_now x 4) (x_now x 5) ip) s)
        | Inr u \<Rightarrow> finishLoginAfterPassword G x r ip u s)) s"

text \<open>The code for a waiting login found under its token: a wrong one puts the login back under a new token.\<close>

definition totp_answer ::
  "genv \<Rightarrow> extern \<Rightarrow> request \<Rightarrow> string \<Rightarrow> fields \<Rightarrow> pendingLogin \<Rightarrow> server \<Rightarrow> response \<times> server"
where
  "totp_answer G x r ip b l s =
     (let (good, us) = verifyTOTPOrRecovery (gU G) (gTotp G) (x_now x 7) (x_save x 2)
            (plUsername l) (fStr b ''code'') (srvUsers s);
          s1 = s\<lparr>srvUsers := us\<rparr>
      in if \<not> good
         then (let s2 = on_sessions (recordFailure (x_now x 4) (x_now x 5) ip) s1 in
               case putPendingLogin (x_now x 8) (x_rand x 0) (plUsername l) (plRole l) (srvPending s2) of
                 (Inr tok, p2) \<Rightarrow>
                   (writeJSON 401 (JObj [(''error'', JStr ''Invalid authenticator code''), (''ok'', JBool False),
                      (''pending_token'', JStr tok), (''totp_required'', JBool True)]), s2\<lparr>srvPending := p2\<rparr>)
               | (Inl _, p2) \<Rightarrow> (jsonErr 401 ''Invalid authenticator code'', s2\<lparr>srvPending := p2\<rparr>))
         else open_session G x r ip (plUsername l) (plRole l) s1)"

definition handleLoginTOTP :: shandler where
  "handleLoginTOTP G x r s =
     login_entry G x r (\<lambda>ip b s.
       (case takePendingLogin (x_now x 6) (fStr b ''pending_token'') (srvPending s) of
          (None, p) \<Rightarrow>
            (jsonErr 401 (''2FA session expired '' @ emdash @ '' sign in again''),
             on_sessions (recordFailure (x_now x 4) (x_now x 5) ip) (s\<lparr>srvPending := p\<rparr>))
        | (Some l, p) \<Rightarrow> totp_answer G x r ip b l (s\<lparr>srvPending := p\<rparr>))) s"

subsection \<open>Login page, logout, who am I\<close>

definition handleLoginPage :: shandler where
  "handleLoginPage G x r s =
     (case rSession r of
        Some ses \<Rightarrow> (redirect (safeNextPath (rQuery r ''next'') (sRole ses)) 302, s)
      | None \<Rightarrow>
          (execTemplate ''login'' [(''Next'', JStr (rQuery r ''next'')), (''PublicOpen'', JBool (cfg_publicOpen (gConf G))),
             (''ProxyAuth'', JBool (cfg_proxyAuthEnabled (gConf G))), (''Error'', JStr (rQuery r ''error''))], s))"

definition handleLogoutAPI :: shandler where
  "handleLogoutAPI G x r s =
     (if rMethod r \<noteq> ''POST'' then (jsonErr 405 ''POST required'', s)
      else let s1 = (case request_cookie r sessionCookieName of
                       None \<Rightarrow> s
                     | Some sid \<Rightarrow> on_sessions (sm_destroy (x_now x 2) (x_save x 1) sid) s)
           in (clearCookie (srvSessions s1) (jsonOK ''Logged out''), s1))"

definition handleMeAPI :: shandler where
  "handleMeAPI G x r s =
     (case rSession r of
        None \<Rightarrow>
          (writeJSON 200 (JObj [(''authenticated'', JBool False), (''ok'', JBool True),
             (''proxyAuth'', JBool (cfg_proxyAuthEnabled (gConf G))), (''publicOpen'', JBool (cfg_publicOpen (gConf G)))]), s)
      | Some ses \<Rightarrow>
          (writeJSON 200 (JObj [(''authVia'', JStr (rAuthVia r)), (''authenticated'', JBool True), (''ok'', JBool True),
             (''proxyAuth'', JBool (cfg_proxyAuthEnabled (gConf G))), (''publicOpen'', JBool (cfg_publicOpen (gConf G))),
             (''role'', JStr (sRole ses)),
             (''totpEnabled'', JBool (sRole ses = roleAdmin \<and> totpEnabled (gU G) (sUsername ses) (srvUsers s))),
             (''username'', JStr (sUsername ses))]), s))"

subsection \<open>Two-factor set-up\<close>

definition admin_session :: "request \<Rightarrow> session option" where
  "admin_session r = (case rSession r of None \<Rightarrow> None | Some ses \<Rightarrow> if sRole ses = roleAdmin then Some ses else None)"

definition handleTOTPStatus :: shandler where
  "handleTOTPStatus G x r s =
     (if rMethod r \<noteq> ''GET'' then (jsonErr 405 ''GET required'', s)
      else case rSession r of
        None \<Rightarrow> (jsonErr 401 ''Not signed in'', s)
      | Some ses \<Rightarrow>
          (writeJSON 200 (JObj [(''admin'', JBool (sRole ses = roleAdmin)),
             (''enabled'', JBool (sRole ses = roleAdmin \<and> totpEnabled (gU G) (sUsername ses) (srvUsers s))),
             (''ok'', JBool True)]), s))"

definition handleTOTPBegin :: shandler where
  "handleTOTPBegin G x r s =
     (if rMethod r \<noteq> ''POST'' then (jsonErr 405 ''POST required'', s)
      else case admin_session r of
        None \<Rightarrow> (jsonErr 403 ''Admin only'', s)
      | Some ses \<Rightarrow>
          (if totpEnabled (gU G) (sUsername ses) (srvUsers s)
           then (jsonErr 409 ''Two-factor authentication is already enabled'', s)
           else case x_totp_key x (sUsername ses) of
             None \<Rightarrow> (jsonErr 500 ''Failed to generate authenticator secret'', s)
           | Some (secret, url) \<Rightarrow>
               (writeJSON 200 (JObj [(''ok'', JBool True), (''secret'', JStr secret), (''uri'', JStr url)]),
                s\<lparr>srvPending := putPendingSetup (gU G) (x_now x 2) (sUsername ses) secret (srvPending s)\<rparr>)))"

definition handleTOTPConfirm :: shandler where
  "handleTOTPConfirm G x r s =
     (if rMethod r \<noteq> ''POST'' then (jsonErr 405 ''POST required'', s)
      else case admin_session r of
        None \<Rightarrow> (jsonErr 403 ''Admin only'', s)
      | Some ses \<Rightarrow> decodeJSONBody r (\<lambda>b.
          (case peekPendingSetup (gU G) (x_now x 2) (sUsername ses) (srvPending s) of
             None \<Rightarrow> (jsonErr 400 (''No setup in progress '' @ emdash @ '' start again''), s)
           | Some secret \<Rightarrow>
               (if \<not> gTotp G (x_now x 3) (TrimSpace (fStr b ''code'')) secret
                then (jsonErr 400 ''Invalid authenticator code'', s)
                else case takePendingSetup (gU G) (x_now x 4) (sUsername ses) (srvPending s) of
                  (None, p) \<Rightarrow> (jsonErr 400 (''Setup expired '' @ emdash @ '' start again''), s\<lparr>srvPending := p\<rparr>)
                | (Some secret2, p) \<Rightarrow>
                    (case generateRecoveryCodes (gU G) (x_rand x) of
                       Inl _ \<Rightarrow> (jsonErr 500 ''Failed to create recovery codes'', s\<lparr>srvPending := p\<rparr>)
                     | Inr (plain, hashes) \<Rightarrow>
                         (case enableTOTP (gU G) (x_save x 1) (sUsername ses) secret2 hashes (srvUsers s) of
                            (Inl e, us) \<Rightarrow> (jsonErr 400 e, s\<lparr>srvPending := p, srvUsers := us\<rparr>)
                          | (Inr _, us) \<Rightarrow>
                              (writeJSON 200 (JObj [(''message'', JStr ''Two-factor authentication enabled''),
                                 (''ok'', JBool True), (''recovery_codes'', JArr (map JStr plain))]),
                               audit G x (sUsername ses) ''totp_enable'' [] r (s\<lparr>srvPending := p, srvUsers := us\<rparr>)))))))
          s)"

definition handleTOTPDisable :: shandler where
  "handleTOTPDisable G x r s =
     (if rMethod r \<noteq> ''POST'' then (jsonErr 405 ''POST required'', s)
      else case admin_session r of
        None \<Rightarrow> (jsonErr 403 ''Admin only'', s)
      | Some ses \<Rightarrow> decodeJSONBody r (\<lambda>b.
          (case authenticate (gU G) (gArgon G) (srvUsers s) (sUsername ses) (fStr b ''password'') of
             Inl _ \<Rightarrow> (jsonErr 401 ''Invalid password'', s)
           | Inr _ \<Rightarrow>
               (let (good, us) = (if totpEnabled (gU G) (sUsername ses) (srvUsers s)
                      then verifyTOTPOrRecovery (gU G) (gTotp G) (x_now x 2) (x_save x 1) (sUsername ses)
                             (fStr b ''code'') (srvUsers s)
                      else (True, srvUsers s));
                    s1 = s\<lparr>srvUsers := us\<rparr>
                in if \<not> good then (jsonErr 401 ''Invalid authenticator or recovery code'', s1)
                   else case with_users (disableTOTP (gU G) (x_save x 2) (sUsername ses)) s1 of
                     (Inl e, s2) \<Rightarrow> (jsonErr 400 e, s2)
                   | (Inr _, s2) \<Rightarrow>
                       (jsonOK ''Two-factor authentication disabled'', audit G x (sUsername ses) ''totp_disable'' [] r s2))))
          s)"

subsection \<open>Accounts\<close>

definition user_json :: "user \<Rightarrow> json" where
  "user_json u = JObj ([(''username'', JStr (Username u)), (''password_hash'', JStr (PasswordHash u)), (''role'', JStr (Role u))]
     @ (if TOTPSecret u = [] then [] else [(''totp_secret'', JStr (TOTPSecret u))])
     @ (if TOTPEnabled u then [(''totp_enabled'', JBool True)] else [])
     @ (if TOTPRecoveryHash u = [] then [] else [(''totp_recovery_hashes'', JArr (map JStr (TOTPRecoveryHash u)))]))"

definition handleUsersList :: shandler where
  "handleUsersList G x r s =
     (if rMethod r \<noteq> ''GET'' then (jsonErr 405 ''GET required'', s)
      else (writeJSON 200 (JObj [(''ok'', JBool True), (''users'', JArr (map user_json (listPublic (srvUsers s))))]), s))"

definition handleUsersCreate :: shandler where
  "handleUsersCreate G x r s = post_json r (\<lambda>b.
     (let role = (if fStr b ''role'' = [] then roleViewer else fStr b ''role'') in
      case with_users (addUser (gU G) (gArgon G) (x_rand x 0) (x_save x 1) (fStr b ''username'') (fStr b ''password'') role) s of
        (Inl e, s1) \<Rightarrow> (jsonErr 400 e, s1)
      | (Inr _, s1) \<Rightarrow> (jsonOK ''User created'', audit G x (actorName r) ''user_create'' (fStr b ''username'') r s1))) s"

definition is_self :: "genv \<Rightarrow> request \<Rightarrow> string \<Rightarrow> bool" where
  "is_self G r name = (case rSession r of None \<Rightarrow> False | Some ses \<Rightarrow> EqualFold (gU G) (sUsername ses) name)"

text \<open>What a change of an account ends with: its sessions are dropped.\<close>

definition account_changed ::
  "genv \<Rightarrow> extern \<Rightarrow> request \<Rightarrow> string \<Rightarrow> string \<Rightarrow> string \<Rightarrow> unit result \<times> server \<Rightarrow> response \<times> server"
where
  "account_changed G x r name msg action res =
     (case res of
        (Inl e, s1) \<Rightarrow> (jsonErr 400 e, s1)
      | (Inr _, s1) \<Rightarrow>
          (jsonOK msg, audit G x (actorName r) action name r
             (on_sessions (destroyByUsername (gU G) (x_now x 2) (x_save x 2) name) s1)))"

definition handleUsersDelete :: shandler where
  "handleUsersDelete G x r s = post_json r (\<lambda>b.
     (if is_self G r (fStr b ''username'')
      then (jsonErr 400 ''Cannot delete your own account while logged in'', s)
      else account_changed G x r (fStr b ''username'') ''User deleted'' ''user_delete''
             (with_users (deleteUser (gU G) (x_save x 1) (fStr b ''username'')) s))) s"

definition handleUsersSetPassword :: shandler where
  "handleUsersSetPassword G x r s = post_json r (\<lambda>b.
     account_changed G x r (fStr b ''username'') (''Password updated '' @ emdash @ '' user must sign in again'') ''user_password''
       (with_users (setPassword (gU G) (gArgon G) (x_rand x 0) (x_save x 1) (fStr b ''username'') (fStr b ''password'')) s)) s"

definition handleUsersSetRole :: shandler where
  "handleUsersSetRole G x r s = post_json r (\<lambda>b.
     (if is_self G r (fStr b ''username'') \<and> fStr b ''role'' \<noteq> roleAdmin
      then (jsonErr 400 ''Cannot demote your own account'', s)
      else account_changed G x r (fStr b ''username'') ''Role updated'' ''user_role''
             (with_users (setRole (gU G) (x_save x 1) (fStr b ''username'') (fStr b ''role'')) s))) s"

definition handleChangeOwnPassword :: shandler where
  "handleChangeOwnPassword G x r s =
     (if rMethod r \<noteq> ''POST'' then (jsonErr 405 ''POST required'', s)
      else case rSession r of
        None \<Rightarrow> (jsonErr 401 ''Not logged in'', s)
      | Some ses \<Rightarrow> decodeJSONBody r (\<lambda>b.
          (case authenticate (gU G) (gArgon G) (srvUsers s) (sUsername ses) (fStr b ''current_password'') of
             Inl _ \<Rightarrow> (jsonErr 400 ''Current password is incorrect'', s)
           | Inr _ \<Rightarrow>
               (case with_users (setPassword (gU G) (gArgon G) (x_rand x 0) (x_save x 1) (sUsername ses) (fStr b ''new_password'')) s of
                  (Inl e, s1) \<Rightarrow> (jsonErr 400 e, s1)
                | (Inr _, s1) \<Rightarrow>
                    (let s2 = on_sessions (destroyByUsername (gU G) (x_now x 2) (x_save x 2) (sUsername ses)) s1 in
                     (clearCookie (srvSessions s2) (jsonOK (''Password updated '' @ emdash @ '' please sign in again'')), s2)))))
          s)"

end
