(* ===== verification/SignIn.thy ===== *)
theory SignIn
  imports Auth
begin

text \<open>
  What the handlers of \<open>Auth\<close> guarantee over any execution of the server: a session stems from a
  right password, and from a right second factor where the account has one; and what resetting a
  password does to the sessions of the account.
\<close>

subsection \<open>What a sign-in request presents\<close>

text \<open>\<open>RightPassword name role b\<close>: \<open>b\<close> tells that the account asks for a second factor.\<close>

datatype auth_event =
    RightPassword string string bool
  | RightCode string string
  | NothingShown

definition needs_code :: "genv \<Rightarrow> user \<Rightarrow> server \<Rightarrow> bool" where
  "needs_code G u s \<longleftrightarrow> Role u = roleAdmin \<and> totpEnabled (gU G) (Username u) (srvUsers s)"

definition password_event :: "genv \<Rightarrow> request \<Rightarrow> server \<Rightarrow> auth_event" where
  "password_event G r s =
     (case rBody r of
        BodyOK b \<Rightarrow>
          (case authenticate (gU G) (gArgon G) (srvUsers s) (fStr b ''username'') (fStr b ''password'') of
             Inl _ \<Rightarrow> NothingShown
           | Inr u \<Rightarrow> RightPassword (Username u) (Role u) (needs_code G u s))
      | _ \<Rightarrow> NothingShown)"

definition code_event :: "genv \<Rightarrow> extern \<Rightarrow> request \<Rightarrow> server \<Rightarrow> auth_event" where
  "code_event G x r s =
     (case rBody r of
        BodyOK b \<Rightarrow>
          (case fst (takePendingLogin (x_now x 6) (fStr b ''pending_token'') (srvPending s)) of
             None \<Rightarrow> NothingShown
           | Some l \<Rightarrow>
               (if fst (verifyTOTPOrRecovery (gU G) (gTotp G) (x_now x 7) (x_save x 2)
                     (plUsername l) (fStr b ''code'') (srvUsers s))
                then RightCode (plUsername l) (plRole l) else NothingShown))
      | _ \<Rightarrow> NothingShown)"

subsection \<open>Steps of the server, as far as sign-in is concerned\<close>

text \<open>
  The two sign-in handlers, the other handlers of \<open>Auth\<close>, the session lookup of \<open>withSession\<close>, the
  hourly reap, a restart, and any step that touches neither sessions nor waiting logins, which
  is every handler of the other components.
\<close>

definition account_handlers :: "shandler list" where
  "account_handlers = [handleLoginPage, handleLogoutAPI, handleMeAPI, handleTOTPStatus, handleTOTPBegin,
     handleTOTPConfirm, handleTOTPDisable, handleUsersList, handleUsersCreate, handleUsersDelete,
     handleUsersSetPassword, handleUsersSetRole, handleChangeOwnPassword]"

definition no_pendings :: pendings where
  "no_pendings = \<lparr>pendingLogins = [], pendingSetups = []\<rparr>"

inductive auth_step :: "genv \<Rightarrow> server \<Rightarrow> auth_event \<Rightarrow> server \<Rightarrow> bool" for G where
  password: "auth_step G s (password_event G r s) (snd (handleLoginAPI G x r s))"
| code: "auth_step G s (code_event G x r s) (snd (handleLoginTOTP G x r s))"
| account: "h \<in> set account_handlers \<Longrightarrow> auth_step G s NothingShown (snd (h G x r s))"
| lookup: "auth_step G s NothingShown (on_sessions (snd \<circ> fromRequest now now2 ok r) s)"
| reaped: "auth_step G s NothingShown (on_sessions (reap now now2 ok) s)"
| restart: "auth_step G s NothingShown
    (s\<lparr>srvSessions := newSessionManager now (smPersistent (srvSessions s)) (smDisk (srvSessions s)) sec,
       srvPending := no_pendings, srvUsers := us\<rparr>)"
| other: "srvSessions s' = srvSessions s \<Longrightarrow> srvPending s' = srvPending s \<Longrightarrow> auth_step G s NothingShown s'"

inductive_cases auth_stepE: "auth_step G s e s'"

subsection \<open>The invariant over histories\<close>

definition justified :: "auth_event list \<Rightarrow> string \<Rightarrow> string \<Rightarrow> bool" where
  "justified es name role \<longleftrightarrow> RightPassword name role False \<in> set es \<or>
     (\<exists>es1 es2. es = es1 @ RightCode name role # es2 \<and> RightPassword name role True \<in> set es1)"

abbreviation justified_entry :: "auth_event list \<Rightarrow> string \<times> session \<Rightarrow> bool" where
  "justified_entry es \<equiv> \<lambda>e. justified es (sUsername (snd e)) (sRole (snd e))"

definition password_shown :: "auth_event list \<Rightarrow> pendings \<Rightarrow> bool" where
  "password_shown es p \<longleftrightarrow>
     (\<forall>e\<in>set (pendingLogins p). RightPassword (plUsername (snd e)) (plRole (snd e)) True \<in> set es)"

definition signed_in :: "auth_event list \<Rightarrow> server \<Rightarrow> bool" where
  "signed_in es s \<longleftrightarrow> all_entries (justified_entry es) (srvSessions s) \<and> password_shown es (srvPending s)"

lemma justified_later: "justified es n r \<Longrightarrow> justified (es @ [e]) n r"
  unfolding justified_def by (metis Un_iff append.assoc append_Cons set_append)

lemma justified_code: "RightPassword n r True \<in> set es \<Longrightarrow> justified (es @ [RightCode n r]) n r"
  unfolding justified_def by blast

lemma signed_in_later: "signed_in es s \<Longrightarrow> signed_in (es @ [e]) s"
  unfolding signed_in_def all_entries_def password_shown_def
  by (auto simp: justified_later split: option.splits)

lemma signed_in_cong:
  "signed_in es s \<Longrightarrow> srvSessions s' = srvSessions s \<Longrightarrow> srvPending s' = srvPending s \<Longrightarrow> signed_in es s'"
  by (simp add: signed_in_def)

lemma signed_in_sess_op:
  assumes "signed_in es s" "case created a of None \<Rightarrow> True | Some e \<Rightarrow> justified_entry es e"
    and "srvSessions s' = run_sess_op U a (srvSessions s)" "srvPending s' = srvPending s"
  shows "signed_in es s'"
  using assms run_sess_op_entries [of "justified_entry es" "srvSessions s" a U] by (simp add: signed_in_def)

lemma signed_in_failure: "signed_in es s \<Longrightarrow> signed_in es (on_sessions (recordFailure now now2 ip) s)"
  by (erule signed_in_sess_op [where a = "SoFail now now2 ip"]) simp_all

lemma signed_in_clear: "signed_in es s \<Longrightarrow> signed_in es (on_sessions (clearFailures ip) s)"
  by (erule signed_in_sess_op [where a = "SoClear ip"]) simp_all

lemma signed_in_destroyed: "signed_in es s \<Longrightarrow> signed_in es (on_sessions (destroyByUsername U now ok n) s)"
  by (erule signed_in_sess_op [where a = "SoDestroyUser now ok n" and U = U]) simp_all

lemma signed_in_destroy: "signed_in es s \<Longrightarrow> signed_in es (on_sessions (sm_destroy now ok i) s)"
  by (erule signed_in_sess_op [where a = "SoDestroy now ok i"]) simp_all

lemma signed_in_pending_sub:
  "signed_in es s \<Longrightarrow> set (pendingLogins p) \<subseteq> set (pendingLogins (srvPending s)) \<Longrightarrow>
     signed_in es (s\<lparr>srvPending := p\<rparr>)"
  by (auto simp: signed_in_def password_shown_def)

lemma signed_in_users [simp]: "signed_in es (s\<lparr>srvUsers := us\<rparr>) = signed_in es s"
  by (simp add: signed_in_def)

lemma signed_in_audit [simp]: "signed_in es (audit G x u a p r s) = signed_in es s"
  by (simp add: signed_in_def)

lemma signed_in_put_login:
  assumes "signed_in es s" "RightPassword n r True \<in> set es"
    and "putPendingLogin now rnd n r (srvPending s) = (res, p)"
  shows "signed_in es (s\<lparr>srvPending := p\<rparr>)"
  using assms set_aput [of _ _ "filter (\<lambda>e. \<not> now > plExpiresAt (snd e)) (pendingLogins (srvPending s))"]
  by (fastforce simp: putPendingLogin_def signed_in_def password_shown_def split: sum.splits)

lemma take_login_sub:
  "takePendingLogin now tok p = (res, p') \<Longrightarrow> set (pendingLogins p') \<subseteq> set (pendingLogins p)"
  using set_adel [of tok "pendingLogins p"] by (auto simp: takePendingLogin_def split: option.splits)

lemma take_login_Some:
  "takePendingLogin now tok p = (Some l, p') \<Longrightarrow> (tok, l) \<in> set (pendingLogins p)"
  by (auto simp: takePendingLogin_def split: option.splits if_splits dest: map_of_SomeD)

subsection \<open>The handlers keep it\<close>

lemma open_session_signed_in:
  assumes "signed_in es s" "justified es n role"
  shows "signed_in es (snd (open_session G x r ip n role s))"
proof -
  let ?a = "SoCreate (x_now x 10) (x_now x 11) (x_rand x 1) (x_save x 1) n role"
  obtain res sm where c: "sm_create (x_now x 10) (x_now x 11) (x_rand x 1) (x_save x 1) n role (srvSessions s) = (res, sm)"
    by (meson surj_pair)
  have "signed_in es (s\<lparr>srvSessions := sm\<rparr>)"
    by (rule signed_in_sess_op [OF assms(1), where a = ?a])
      (use assms(2) c in \<open>auto split: sum.splits\<close>)
  then show ?thesis using signed_in_clear [of es "s\<lparr>srvSessions := sm\<rparr>" ip]
    by (auto simp: open_session_def c [simplified] on_sessions_def Let_def split: sum.splits)
qed

lemma finish_signed_in:
  assumes "signed_in es s" "RightPassword (Username u) (Role u) (needs_code G u s) \<in> set es"
  shows "signed_in es (snd (finishLoginAfterPassword G x r ip u s))"
proof (cases "needs_code G u s")
  case True
  then have r: "Role u = roleAdmin" by (simp add: needs_code_def)
  obtain res p where p: "putPendingLogin (x_now x 9) (x_rand x 0) (Username u) roleAdmin (srvPending s) = (res, p)"
    by (meson surj_pair)
  from signed_in_put_login [OF assms(1) _ p] assms(2) True r have "signed_in es (s\<lparr>srvPending := p\<rparr>)" by simp
  then show ?thesis using True signed_in_clear [of es "s\<lparr>srvPending := p\<rparr>" ip]
    by (auto simp: finishLoginAfterPassword_def needs_code_def p split: sum.splits)
next
  case False
  then have "justified es (Username u) (Role u)" using assms(2) by (simp add: justified_def)
  from open_session_signed_in [OF assms(1) this, of G x r ip] False show ?thesis
    by (auto simp: finishLoginAfterPassword_def needs_code_def)
qed

lemma login_entry_cases:
  obtains (refused) resp where "login_entry G x r k s = (resp, s)" "respStatus resp \<in> {403, 405}"
  | (locked) resp sm where "login_entry G x r k s = (resp, s\<lparr>srvSessions := sm\<rparr>)" "respStatus resp = 429"
      "sm = snd (allowLogin (x_now x 2) (x_now x 3) (clientIP (cfg_trustProxy (gConf G)) r) (srvSessions s))"
  | (bad_body) resp sm where "login_entry G x r k s = (resp, s\<lparr>srvSessions := sm\<rparr>)" "respStatus resp \<in> {400, 413}"
      "sm = snd (allowLogin (x_now x 2) (x_now x 3) (clientIP (cfg_trustProxy (gConf G)) r) (srvSessions s))"
  | (run) b sm where "rBody r = BodyOK b"
      "login_entry G x r k s = k (clientIP (cfg_trustProxy (gConf G)) r) b (s\<lparr>srvSessions := sm\<rparr>)"
      "sm = snd (allowLogin (x_now x 2) (x_now x 3) (clientIP (cfg_trustProxy (gConf G)) r) (srvSessions s))"
proof (cases "rMethod r \<noteq> ''POST'' \<or> \<not> sameOrigin (gU G) r")
  case True
  then show ?thesis by (cases "rMethod r \<noteq> ''POST''") (auto simp: login_entry_def intro: refused)
next
  case False
  let ?ip = "clientIP (cfg_trustProxy (gConf G)) r"
  obtain a sm where al: "allowLogin (x_now x 2) (x_now x 3) ?ip (srvSessions s) = (a, sm)" by (meson surj_pair)
  show ?thesis
  proof (cases a)
    case True
    with False al show ?thesis
      by (cases "rBody r") (auto simp: login_entry_def decodeJSONBody_def intro: bad_body run)
  next
    case False': False
    with False al show ?thesis by (intro locked) (auto simp: login_entry_def)
  qed
qed

lemma signed_in_allow:
  "signed_in es s \<Longrightarrow> signed_in es (s\<lparr>srvSessions := snd (allowLogin now now2 ip (srvSessions s))\<rparr>)"
  by (erule signed_in_sess_op [where a = "SoAllow now now2 ip"]) simp_all

lemma login_api_signed_in:
  assumes "signed_in es s"
  shows "signed_in (es @ [password_event G r s]) (snd (handleLoginAPI G x r s))"
proof (cases rule: login_entry_cases [of G x r "\<lambda>ip b s.
       (case authenticate (gU G) (gArgon G) (srvUsers s) (fStr b ''username'') (fStr b ''password'') of
          Inl _ \<Rightarrow> (jsonErr 401 ''Invalid username or password'', on_sessions (recordFailure (x_now x 4) (x_now x 5) ip) s)
        | Inr u \<Rightarrow> finishLoginAfterPassword G x r ip u s)" s])
  case refused
  then show ?thesis using assms by (simp add: handleLoginAPI_def signed_in_later)
next
  case locked
  then show ?thesis using assms signed_in_allow by (simp add: handleLoginAPI_def signed_in_later)
next
  case bad_body
  then show ?thesis using assms signed_in_allow by (simp add: handleLoginAPI_def signed_in_later)
next
  case (run b sm)
  let ?s = "s\<lparr>srvSessions := sm\<rparr>"
  let ?es = "es @ [password_event G r s]"
  have i: "signed_in ?es ?s" using assms signed_in_allow run(3) by (simp add: signed_in_later)
  show ?thesis
  proof (cases "authenticate (gU G) (gArgon G) (srvUsers s) (fStr b ''username'') (fStr b ''password'')")
    case (Inl e)
    then show ?thesis using run i by (simp add: handleLoginAPI_def signed_in_failure)
  next
    case (Inr u)
    have "password_event G r s = RightPassword (Username u) (Role u) (needs_code G u ?s)"
      using run(1) Inr by (simp add: password_event_def needs_code_def)
    then have "RightPassword (Username u) (Role u) (needs_code G u ?s) \<in> set ?es" by simp
    from finish_signed_in [OF i this] Inr run show ?thesis by (simp add: handleLoginAPI_def)
  qed
qed

lemma totp_answer_signed_in:
  assumes i: "signed_in es s" and "RightPassword (plUsername l) (plRole l) True \<in> set es"
    and j: "fst (verifyTOTPOrRecovery (gU G) (gTotp G) (x_now x 7) (x_save x 2) (plUsername l) (fStr b ''code'') (srvUsers s)) \<Longrightarrow>
      justified es (plUsername l) (plRole l)"
  shows "signed_in es (snd (totp_answer G x r ip b l s))"
proof -
  obtain good us where v: "verifyTOTPOrRecovery (gU G) (gTotp G) (x_now x 7) (x_save x 2)
      (plUsername l) (fStr b ''code'') (srvUsers s) = (good, us)" by (meson surj_pair)
  let ?s1 = "s\<lparr>srvUsers := us\<rparr>"
  let ?s2 = "on_sessions (recordFailure (x_now x 4) (x_now x 5) ip) ?s1"
  have i1: "signed_in es ?s1" and i2: "signed_in es ?s2" using i signed_in_failure [of es ?s1] by simp_all
  obtain res p2 where p: "putPendingLogin (x_now x 8) (x_rand x 0) (plUsername l) (plRole l) (srvPending s) = (res, p2)"
    by (meson surj_pair)
  have "signed_in es (?s2\<lparr>srvPending := p2\<rparr>)" using signed_in_put_login [OF i2 assms(2)] p by simp
  then show ?thesis using v p j open_session_signed_in [OF i1, of "plUsername l" "plRole l" G x r ip]
    by (cases good; cases res) (simp_all add: totp_answer_def)
qed

lemma login_totp_signed_in:
  assumes "signed_in es s"
  shows "signed_in (es @ [code_event G x r s]) (snd (handleLoginTOTP G x r s))"
proof (cases rule: login_entry_cases [of G x r "\<lambda>ip b s.
       (case takePendingLogin (x_now x 6) (fStr b ''pending_token'') (srvPending s) of
          (None, p) \<Rightarrow>
            (jsonErr 401 (''2FA session expired '' @ emdash @ '' sign in again''),
             on_sessions (recordFailure (x_now x 4) (x_now x 5) ip) (s\<lparr>srvPending := p\<rparr>))
        | (Some l, p) \<Rightarrow> totp_answer G x r ip b l (s\<lparr>srvPending := p\<rparr>))" s])
  case refused
  then show ?thesis using assms by (simp add: handleLoginTOTP_def signed_in_later)
next
  case locked
  then show ?thesis using assms signed_in_allow by (simp add: handleLoginTOTP_def signed_in_later)
next
  case bad_body
  then show ?thesis using assms signed_in_allow by (simp add: handleLoginTOTP_def signed_in_later)
next
  case (run b sm)
  let ?s = "s\<lparr>srvSessions := sm\<rparr>"
  let ?es = "es @ [code_event G x r s]"
  obtain res p where t: "takePendingLogin (x_now x 6) (fStr b ''pending_token'') (srvPending s) = (res, p)"
    by (meson surj_pair)
  have i0: "signed_in es ?s" using assms signed_in_allow run(3) by simp
  have i: "signed_in ?es (?s\<lparr>srvPending := p\<rparr>)"
    using signed_in_pending_sub [OF i0, of p] take_login_sub [OF t] by (simp add: signed_in_later)
  show ?thesis
  proof (cases res)
    case None
    then show ?thesis using run i t by (simp add: handleLoginTOTP_def signed_in_failure)
  next
    case (Some l)
    have shown: "RightPassword (plUsername l) (plRole l) True \<in> set es"
      using take_login_Some t Some assms by (force simp: signed_in_def password_shown_def)
    show ?thesis using totp_answer_signed_in [OF i, of l G x b r "clientIP (cfg_trustProxy (gConf G)) r"] shown run t Some
      by (auto simp: handleLoginTOTP_def code_event_def justified_code split: if_splits)
  qed
qed

lemma signed_in_with_users: "with_users op s = (a, s') \<Longrightarrow> signed_in es s' = signed_in es s"
  by (auto simp: with_users_def split: prod.splits)

lemma signed_in_setup:
  "signed_in es s \<Longrightarrow> pendingLogins p = pendingLogins (srvPending s) \<Longrightarrow> signed_in es (s\<lparr>srvPending := p\<rparr>)"
  by (simp add: signed_in_pending_sub)

lemma setup_logins [simp]:
  "pendingLogins (putPendingSetup U now n secret p) = pendingLogins p"
  "takePendingSetup U now n p = (res, p') \<Longrightarrow> pendingLogins p' = pendingLogins p"
  by (auto simp: putPendingSetup_def takePendingSetup_def Let_def split: option.splits)

lemma account_changed_signed_in:
  assumes "signed_in es s"
  shows "signed_in es (snd (account_changed G x r n msg act (with_users op s)))"
proof -
  obtain a s1 where w: "with_users op s = (a, s1)" by (meson surj_pair)
  have "signed_in es s1" using assms signed_in_with_users [OF w] by simp
  then show ?thesis by (cases a) (simp_all add: account_changed_def w signed_in_destroyed)
qed

lemma decoded_signed_in:
  assumes "signed_in es s" "\<And>b. rBody r = BodyOK b \<Longrightarrow> signed_in es (snd (k b))"
  shows "signed_in es (snd (decodeJSONBody r k s))"
  using assms by (simp add: decodeJSONBody_def split: json_body.splits)

lemma posted_signed_in:
  assumes "signed_in es s" "\<And>b. rBody r = BodyOK b \<Longrightarrow> signed_in es (snd (k b))"
  shows "signed_in es (snd (post_json r k s))"
  using decoded_signed_in [OF assms] assms(1) by (simp add: post_json_def requirePOST_def)

lemma confirm_signed_in:
  assumes "signed_in es s"
  shows "signed_in es (snd (handleTOTPConfirm G x r s))"
proof -
  have k: "signed_in es (s\<lparr>srvPending := p\<rparr>)" if "takePendingSetup U now n (srvPending s) = (res, p)" for U now n res p
    using signed_in_setup [OF assms] setup_logins(2) [OF that] by simp
  have k2: "signed_in es (s\<lparr>srvPending := p, srvUsers := us\<rparr>)" if "takePendingSetup U now n (srvPending s) = (res, p)" for U now n res p us
    using k [OF that] by simp
  show ?thesis
    unfolding handleTOTPConfirm_def
    by (auto simp: assms k intro!: decoded_signed_in split: option.splits prod.splits sum.splits if_splits)
qed

lemma disable_signed_in:
  assumes "signed_in es s"
  shows "signed_in es (snd (handleTOTPDisable G x r s))"
  unfolding handleTOTPDisable_def
  by (auto simp: assms Let_def signed_in_with_users intro!: decoded_signed_in split: option.splits prod.splits sum.splits if_splits)

lemma own_password_signed_in:
  assumes "signed_in es s"
  shows "signed_in es (snd (handleChangeOwnPassword G x r s))"
proof -
  have w: "signed_in es s1" if "with_users op s = (a, s1)" for op :: "userStore \<Rightarrow> unit result \<times> userStore" and a s1
    using assms signed_in_with_users [OF that] by simp
  show ?thesis
    unfolding handleChangeOwnPassword_def
    by (auto simp: assms Let_def w signed_in_destroyed intro!: decoded_signed_in split: option.splits prod.splits sum.splits)
qed

lemma account_signed_in:
  assumes "h \<in> set account_handlers" "signed_in es s"
  shows "signed_in es (snd (h G x r s))"
proof -
  have w: "signed_in es s1" if "with_users op s = (a, s1)" for op :: "userStore \<Rightarrow> unit result \<times> userStore" and a s1
    using assms(2) signed_in_with_users [OF that] by simp
  have "signed_in es (snd (handleLoginPage G x r s))" "signed_in es (snd (handleMeAPI G x r s))"
    "signed_in es (snd (handleTOTPStatus G x r s))" "signed_in es (snd (handleUsersList G x r s))"
    using assms(2) by (auto simp: handleLoginPage_def handleMeAPI_def handleTOTPStatus_def handleUsersList_def split: option.splits)
  moreover have "signed_in es (snd (handleLogoutAPI G x r s))"
    using assms(2) by (auto simp: handleLogoutAPI_def Let_def signed_in_destroy split: option.splits)
  moreover have "signed_in es (snd (handleTOTPBegin G x r s))"
    using assms(2) by (auto simp: handleTOTPBegin_def intro!: signed_in_setup split: option.splits)
  moreover have "signed_in es (snd (handleUsersCreate G x r s))"
    unfolding handleUsersCreate_def
    by (rule posted_signed_in [OF assms(2)]) (auto simp: Let_def w split: prod.splits sum.splits)
  moreover have "signed_in es (snd (handleUsersDelete G x r s))" "signed_in es (snd (handleUsersSetPassword G x r s))"
    "signed_in es (snd (handleUsersSetRole G x r s))"
    unfolding handleUsersDelete_def handleUsersSetPassword_def handleUsersSetRole_def
    by (rule posted_signed_in [OF assms(2)]; simp add: assms(2) account_changed_signed_in)+
  ultimately show ?thesis
    using assms confirm_signed_in disable_signed_in own_password_signed_in
    unfolding account_handlers_def by simp (elim disjE; simp)
qed

subsection \<open>Where sessions come from\<close>

lemma auth_step_signed_in:
  assumes "auth_step G s e t" "signed_in es s"
  shows "signed_in (es @ [e]) t"
  using assms(1)
proof cases
  case (password r x)
  then show ?thesis using login_api_signed_in [OF assms(2)] by simp
next
  case (code x r)
  then show ?thesis using login_totp_signed_in [OF assms(2)] by simp
next
  case (account h x r)
  then show ?thesis using account_signed_in assms(2) by (simp add: signed_in_later)
next
  case (lookup now now2 ok r)
  have "signed_in es t"
  proof (cases "request_cookie r sessionCookieName")
    case None
    then show ?thesis using assms(2) lookup by (simp add: fromRequest_def signed_in_def)
  next
    case (Some i)
    show ?thesis
      by (rule signed_in_sess_op [OF assms(2), where a = "SoGet now now2 ok i"])
        (use lookup Some in \<open>simp_all add: fromRequest_def\<close>)
  qed
  then show ?thesis by (rule signed_in_later)
next
  case (reaped now now2 ok)
  have "signed_in es t"
    by (rule signed_in_sess_op [OF assms(2), where a = "SoReap now now2 ok"]) (use reaped in simp_all)
  then show ?thesis by (rule signed_in_later)
next
  case (restart us now sec)
  have "all_entries (justified_entry es) (srvSessions t)"
    using run_sess_op_entries [of "justified_entry es" "srvSessions s" "SoRestart now sec"] assms(2) restart
    by (simp add: signed_in_def)
  then have "signed_in es t" using restart by (simp add: signed_in_def password_shown_def no_pendings_def)
  then show ?thesis by (rule signed_in_later)
next
  case other
  then show ?thesis using signed_in_cong [OF assms(2)] by (simp add: signed_in_later)
qed

interpretation signin: history_machine "auth_step G" signed_in for G
  by unfold_locales (rule auth_step_signed_in)

text \<open>
  C20: Nobody is signed in without the right password, nor, for an account with a second factor, without
  the code after it. Start with no session and no waiting login and run any sequence of sign-ins,
  code checks, account and two-factor operations, reaps, restarts (with any account file) and other requests: if a
  request's cookie is accepted as a session of a user, then in that sequence the right password
  of the user was presented for exactly that name and role, and either the account asked for no code, or
  a right code or recovery code for the same name and role came later.
\<close>

theorem two_factor_enforced:
  assumes "trace (auth_step G) s tr"
    and "smSessions (srvSessions s) = []" and "smDisk (srvSessions s) = None" and "pendingLogins (srvPending s) = []"
    and "fromRequest now now2 ok r (srvSessions (final_state s tr)) = (Some ses, sm)"
  shows "justified (map fst tr) (sUsername ses) (sRole ses)"
proof -
  have "signed_in [] s" using assms(2-4) by (simp add: signed_in_def all_entries_def password_shown_def)
  from signin.trace_hinv [OF assms(1) this] have "all_entries (justified_entry (map fst tr)) (srvSessions (final_state s tr))"
    by (simp add: signed_in_def)
  then show ?thesis using assms(5)
    by (auto simp: fromRequest_def dest!: sm_get_Some all_entriesD split: option.splits)
qed

subsection \<open>Resetting a password\<close>

lemma setPassword_found:
  assumes "setPassword U A rnd ok n pw us = (Inr (), us')"
  obtains salt h i where "rnd = Some salt" "hashPassword A (Some salt) pw = Inr h" "TrimSpace n \<noteq> []" "ok"
    "find_index (same_user U (TrimSpace n)) (Users us) = Some i"
    "Users us' = (Users us)[i := (Users us ! i)\<lparr>PasswordHash := h\<rparr>]"
  using assms by (cases rnd)
    (auto simp: setPassword_def Let_def save_def hashPassword_def split: if_splits sum.splits option.splits)

lemma setPassword_memory:
  assumes "setPassword U A rnd True n pw us = (Inr (), us1)"
  shows "\<exists>e us2. setPassword U A rnd False n pw us = (Inl e, us2) \<and> Users us2 = Users us1 \<and> usersDisk us2 = usersDisk us"
  using assms by (auto simp: setPassword_def Let_def save_def split: if_splits sum.splits option.splits)

lemma authenticate_cong: "Users us = Users us' \<Longrightarrow> authenticate U A us n pw = authenticate U A us' n pw"
  by (simp add: authenticate_def)

lemma setPassword_authenticates:
  assumes "\<And>p s t m th k. length (A p s t m th k) = k"
    and "setPassword U A rnd ok n pw us = (Inr (), us')"
  shows "\<exists>u. authenticate U A us' (TrimSpace n) pw = Inr u"
proof -
  obtain salt h i where *: "hashPassword A (Some salt) pw = Inr h"
    "find_index (same_user U (TrimSpace n)) (Users us) = Some i"
    "Users us' = (Users us)[i := (Users us ! i)\<lparr>PasswordHash := h\<rparr>]"
    using setPassword_found [OF assms(2)] by metis
  have "List.find (same_user U (TrimSpace n)) (Users us') = Some ((Users us ! i)\<lparr>PasswordHash := h\<rparr>)"
    unfolding *(3) by (intro find_update [OF *(2)]) (use find_index_SomeD(2) [OF *(2)] in \<open>simp add: same_user_def\<close>)
  then show ?thesis using verify_stored [OF assms(1) *(1), of pw] by (simp add: authenticate_def)
qed

lemma destroyed_sessions:
  assumes "TrimSpace n \<noteq> []"
  shows "smSessions (destroyByUsername U now ok n sm) = filter (\<lambda>e. \<not> owned_by U (TrimSpace n) e) (smSessions sm)"
  using assms by (auto simp: destroyByUsername_def Let_def persist_def list_ex_iff filter_id_conv)

text \<open>
  C21: When the handler that resets a password answers 200, the account (found by the trimmed name in any
  letter case) signs in with the new password, exactly the sessions of the account are gone
  from memory, and the sessions of everybody else are as they were.
\<close>

theorem password_reset_ends_sessions:
  assumes "\<And>p s t m th k. length (gArgon G p s t m th k) = k"
    and "handleUsersSetPassword G x r s = (resp, s')" and "respStatus resp = 200" and "rBody r = BodyOK b"
  shows "smSessions (srvSessions s') = filter (\<lambda>e. \<not> EqualFold (gU G) (sUsername (snd e)) (TrimSpace (fStr b ''username'')))
      (smSessions (srvSessions s)) \<and>
    (\<exists>u. authenticate (gU G) (gArgon G) (srvUsers s') (TrimSpace (fStr b ''username'')) (fStr b ''password'') = Inr u)"
proof -
  obtain res us where p: "setPassword (gU G) (gArgon G) (x_rand x 0) (x_save x 1) (fStr b ''username'') (fStr b ''password'')
      (srvUsers s) = (res, us)" by (meson surj_pair)
  have post: "rMethod r = ''POST''"
    using assms(2,3) by (auto simp: handleUsersSetPassword_def post_json_def requirePOST_def split: if_splits)
  then have ok: "res = Inr ()" and
    s': "srvUsers s' = us" "srvSessions s' = destroyByUsername (gU G) (x_now x 2) (x_save x 2) (fStr b ''username'') (srvSessions s)"
    using assms(2-4) p [simplified]
    by (auto simp: handleUsersSetPassword_def post_json_def requirePOST_def decodeJSONBody_def account_changed_def
        with_users_def on_sessions_def split: sum.splits)
  have "TrimSpace (fStr b ''username'') \<noteq> []" using setPassword_found [OF p [unfolded ok]] by metis
  then show ?thesis
    using setPassword_authenticates [OF assms(1) p [unfolded ok]] s' destroyed_sessions
    by (simp add: owned_by_def)
qed

text \<open>
  C22: When the account file cannot be written, the same handler answers 400 and leaves every session alone, although the
  new password already signs in: a reset meant to lock somebody out fails on the side of the
  old sessions, and the next restart brings the old password back.
\<close>

theorem failed_reset_keeps_sessions:
  assumes "\<And>p s t m th k. length (gArgon G p s t m th k) = k"
    and "rMethod r = ''POST''" and "rBody r = BodyOK b" and "\<not> x_save x 1"
    and "setPassword (gU G) (gArgon G) (x_rand x 0) True (fStr b ''username'') (fStr b ''password'') (srvUsers s) = (Inr (), us)"
  shows "\<exists>resp s' u. handleUsersSetPassword G x r s = (resp, s') \<and> respStatus resp = 400 \<and>
    srvSessions s' = srvSessions s \<and> usersDisk (srvUsers s') = usersDisk (srvUsers s) \<and>
    authenticate (gU G) (gArgon G) (srvUsers s') (TrimSpace (fStr b ''username'')) (fStr b ''password'') = Inr u"
proof -
  obtain e us2 where f: "setPassword (gU G) (gArgon G) (x_rand x 0) False (fStr b ''username'') (fStr b ''password'')
      (srvUsers s) = (Inl e, us2)" "Users us2 = Users us" "usersDisk us2 = usersDisk (srvUsers s)"
    using setPassword_memory [OF assms(5)] by blast
  obtain u where "authenticate (gU G) (gArgon G) us (TrimSpace (fStr b ''username'')) (fStr b ''password'') = Inr u"
    using setPassword_authenticates [OF assms(1,5)] by blast
  then have "authenticate (gU G) (gArgon G) us2 (TrimSpace (fStr b ''username'')) (fStr b ''password'') = Inr u"
    using authenticate_cong [OF f(2)] by simp
  moreover have "handleUsersSetPassword G x r s = (jsonErr 400 e, s\<lparr>srvUsers := us2\<rparr>)"
    using assms(2-4) f(1) [simplified]
    by (simp add: handleUsersSetPassword_def post_json_def requirePOST_def decodeJSONBody_def account_changed_def with_users_def)
  ultimately show ?thesis using f(3) by auto
qed

subsection \<open>Examples\<close>

text \<open>A viewer and an admin with a second factor; the password of both is the name followed by a word.\<close>

definition demo_accounts :: "user list" where
  "demo_accounts =
     [new_user ''ann'' (projr (hashPassword toy_argon (Some ''salt'') ''ann-longenough'')) roleViewer,
      (new_user ''root'' (projr (hashPassword toy_argon (Some ''salt'') ''root-longenough'')) roleAdmin)
        \<lparr>TOTPSecret := ''S'', TOTPEnabled := True\<rparr>]"

definition demo_post :: "(string \<times> string) list \<Rightarrow> request" where
  "demo_post kvs = demo_request\<lparr>rBody := BodyOK (fields_of kvs)\<rparr>"

definition demo_login :: request where
  "demo_login = demo_post [(''username'', ''ann''), (''password'', ''ann-longenough'')]"

lemma demo_same_user:
  "same_user basic_unicode ''ann'' (new_user ''ann'' h role)" "same_user basic_unicode ''root'' (new_user ''root'' h role)"
  "\<not> same_user basic_unicode ''root'' (new_user ''ann'' h role)"
proof -
  have "\<not> EqualFold basic_unicode ''ann'' ''root''" by code_simp
  then show "\<not> same_user basic_unicode ''root'' (new_user ''ann'' h role)" by (simp add: same_user_def new_user_def)
qed (simp_all add: same_user_def new_user_def)

lemma demo_authenticate:
  "authenticate basic_unicode toy_argon (srvUsers (demo_server demo_accounts)) ''ann'' ''ann-longenough'' = Inr (demo_accounts ! 0)"
proof -
  obtain h where h: "hashPassword toy_argon (Some ''salt'') ''ann-longenough'' = Inr h"
    by (simp add: hashPassword_def Let_def)
  have "verifyPassword toy_argon h ''ann-longenough'' = Inr True" using verify_stored [OF toy_argon_length h, of "''ann-longenough''"] by simp
  then show ?thesis
    by (simp add: authenticate_def demo_server_def demo_accounts_def demo_same_user h) (simp add: new_user_def)
qed

lemma demo_login_runs:
  "\<exists>s'. snd (handleLoginAPI demo_G demo_x demo_login (demo_server demo_accounts)) = s' \<and>
     map_of (smSessions (srvSessions s')) (hex_encode (map byte_val demo_rnd)) =
       Some \<lparr>sUsername = ''ann'', sRole = roleViewer, sExpiresAt = 5 + sessionTTL\<rparr>"
proof -
  have "\<not> roleViewer = roleAdmin" by (simp add: roleViewer_def roleAdmin_def)
  moreover have "rMethod demo_login = ''POST''" "sameOrigin basic_unicode demo_login"
    "rBody demo_login = BodyOK (fields_of [(''username'', ''ann''), (''password'', ''ann-longenough'')])"
    by (simp_all add: demo_login_def demo_post_def demo_request_def sameOrigin_def)
  moreover have "attempt ip (srvSessions (demo_server demo_accounts)) = zeroAttempt" for ip
    by (simp add: demo_server_def attempt_def newSessionManager_def sm_load_def)
  ultimately show ?thesis
    using demo_authenticate
    by (simp add: handleLoginAPI_def login_entry_def allowLogin_def zeroAttempt_def Let_def decodeJSONBody_def fields_of_def
        demo_G_def demo_x_def finishLoginAfterPassword_def open_session_def sm_create_def randomToken_def persist_def
        demo_accounts_def new_user_def clearFailures_def demo_server_def newSessionManager_def sm_load_def)
qed

theorem two_factor_enforced_witness:
  "justified [password_event demo_G demo_login (demo_server demo_accounts)] ''ann'' roleViewer \<and>
   password_event demo_G demo_login (demo_server demo_accounts) = RightPassword ''ann'' roleViewer False"
proof -
  let ?s = "demo_server demo_accounts"
  let ?e = "password_event demo_G demo_login ?s"
  let ?tok = "hex_encode (map byte_val demo_rnd)"
  let ?ses = "\<lparr>sUsername = ''ann'', sRole = roleViewer, sExpiresAt = 5 + sessionTTL\<rparr>"
  obtain s' where s': "snd (handleLoginAPI demo_G demo_x demo_login ?s) = s'"
    "map_of (smSessions (srvSessions s')) ?tok = Some ?ses" using demo_login_runs by blast
  have tr: "trace (auth_step demo_G) ?s [(?e, s')]"
    using auth_step.password [of demo_G ?s demo_login demo_x] s'(1) by simp
  have "length ?tok = 64" by (simp add: demo_rnd_def)
  then have "?tok \<noteq> []" by force
  then have "fromRequest 6 6 True (demo_login\<lparr>rCookies := [(sessionCookieName, ?tok)]\<rparr>)
      (srvSessions (final_state ?s [(?e, s')])) = (Some ?ses, srvSessions s')"
    using s'(2) by (simp add: fromRequest_def request_cookie_def sm_get_def expired_def sessionTTL_def)
  from two_factor_enforced [OF tr _ _ _ this] have "justified [?e] ''ann'' roleViewer"
    by (simp add: demo_server_def newSessionManager_def sm_load_def)
  then show ?thesis by (auto simp: justified_def append_eq_Cons_conv Cons_eq_append_conv)
qed

text \<open>A server on which Ann is signed in, and the request that resets her password.\<close>

definition demo_ann_session :: "string \<times> session" where
  "demo_ann_session = (''t'', \<lparr>sUsername = ''ann'', sRole = roleViewer, sExpiresAt = 100\<rparr>)"

definition demo_signed_in :: server where
  "demo_signed_in = on_sessions (\<lambda>sm. sm\<lparr>smSessions := [demo_ann_session]\<rparr>) (demo_server demo_accounts)"

definition demo_reset :: request where
  "demo_reset = demo_post [(''username'', ''ann''), (''password'', ''new-password'')]"

lemma TrimSpace_ann: "TrimSpace ''ann'' = ''ann''"
  by (rule TrimSpace_id) (simp_all add: graphic_def)

lemma demo_reset_saved:
  "\<exists>us. setPassword basic_unicode toy_argon (Some demo_rnd) True ''ann'' ''new-password'' (srvUsers demo_signed_in) = (Inr (), us)"
  by (simp add: setPassword_def TrimSpace_ann Let_def hashPassword_def demo_signed_in_def demo_server_def demo_accounts_def
      demo_same_user save_def)

lemma demo_reset_fields:
  "rMethod demo_reset = ''POST''" "rBody demo_reset = BodyOK (fields_of [(''username'', ''ann''), (''password'', ''new-password'')])"
  by (simp_all add: demo_reset_def demo_post_def demo_request_def)

theorem password_reset_ends_sessions_witness:
  "\<exists>resp s'. handleUsersSetPassword demo_G demo_x demo_reset demo_signed_in = (resp, s') \<and>
     respStatus resp = 200 \<and> smSessions (srvSessions s') = []"
proof -
  obtain us where us: "setPassword basic_unicode toy_argon (Some demo_rnd) True ''ann'' ''new-password'' (srvUsers demo_signed_in) = (Inr (), us)"
    using demo_reset_saved by blast
  obtain resp s' where h: "handleUsersSetPassword demo_G demo_x demo_reset demo_signed_in = (resp, s')" by (meson surj_pair)
  then have "respStatus resp = 200"
    using us by (auto simp: handleUsersSetPassword_def post_json_def requirePOST_def decodeJSONBody_def demo_reset_fields
        fields_of_def demo_G_def demo_x_def account_changed_def with_users_def)
  moreover from this password_reset_ends_sessions [OF _ h _ demo_reset_fields(2)] have "smSessions (srvSessions s') = []"
    by (simp add: fields_of_def TrimSpace_ann demo_G_def toy_argon_length demo_signed_in_def demo_ann_session_def)
  ultimately show ?thesis using h by blast
qed

theorem failed_reset_keeps_sessions_witness:
  "\<exists>resp s'. handleUsersSetPassword demo_G (demo_x\<lparr>x_save := \<lambda>_. False\<rparr>) demo_reset demo_signed_in = (resp, s') \<and>
     respStatus resp = 400 \<and> smSessions (srvSessions s') = [demo_ann_session]"
proof -
  obtain us where us: "setPassword basic_unicode toy_argon (Some demo_rnd) True ''ann'' ''new-password'' (srvUsers demo_signed_in) = (Inr (), us)"
    using demo_reset_saved by blast
  have "\<exists>resp s' u. handleUsersSetPassword demo_G (demo_x\<lparr>x_save := \<lambda>_. False\<rparr>) demo_reset demo_signed_in = (resp, s') \<and>
     respStatus resp = 400 \<and> srvSessions s' = srvSessions demo_signed_in \<and>
     usersDisk (srvUsers s') = usersDisk (srvUsers demo_signed_in) \<and>
     authenticate (gU demo_G) (gArgon demo_G) (srvUsers s') (TrimSpace (fStr (fields_of [(''username'', ''ann''), (''password'', ''new-password'')]) ''username''))
       (fStr (fields_of [(''username'', ''ann''), (''password'', ''new-password'')]) ''password'') = Inr u"
    by (rule failed_reset_keeps_sessions [OF _ demo_reset_fields, where us = us])
      (use us in \<open>simp_all add: demo_G_def demo_x_def fields_of_def toy_argon_length\<close>)
  then show ?thesis by (fastforce simp: demo_signed_in_def)
qed

end
