(* ===== verification/Dirs.thy ===== *)
theory Dirs
  imports Server "HOL-Library.List_Lexorder" "HOL-Library.Char_ord"
begin

text \<open>
  More of Go's \<open>os\<close> package on the file system of \<open>FileSys\<close>: reading directories and files, removing
  one entry, names that hold a NUL byte, and the writing of an uploaded file. Main results: what each
  call leaves alone.
\<close>

subsection \<open>Calls\<close>

text \<open>\<open>os.Stat\<close> of a name that came from outside: a NUL byte is refused before the kernel sees it.\<close>

definition go_Stat :: "fs \<Rightarrow> apath \<Rightarrow> oserr + fnode" where
  "go_Stat f p = (if list_ex (\<lambda>c. nul \<in> set c) p then Inl EINVAL else os_Stat f p)"

text \<open>\<open>os.ReadDir\<close>: the names sorted by bytes, each with its entry (not followed).\<close>

definition os_ReadDir :: "fs \<Rightarrow> apath \<Rightarrow> oserr + (string \<times> fnode) list" where
  "os_ReadDir f p =
     (case walk f kernel_links [] p of
        Inl e \<Rightarrow> Inl e
      | Inr q \<Rightarrow>
          (case lookup_entry f q of
             Inl e \<Rightarrow> Inl e
           | Inr n \<Rightarrow>
               (if \<not> is_dir n then Inl ENOTDIR
                else Inr (List.map_filter (\<lambda>c. map_option (Pair c) (node_at f (q @ [c])))
                  (sort (remdups (children f q)))))))"

text \<open>\<open>os.Remove\<close>: one entry, a directory only when it is empty.\<close>

definition os_Remove :: "fs \<Rightarrow> apath \<Rightarrow> oserr + fs" where
  "os_Remove f p =
     (case resolve_nofollow f p of
        Inl e \<Rightarrow> Inl e
      | Inr q \<Rightarrow>
          (case node_at f q of
             None \<Rightarrow> Inl ENOENT
           | Some n \<Rightarrow>
               (if wfail f q then Inl EIO
                else if n = FDir \<and> children f q \<noteq> [] then Inl ENOTEMPTY
                else if q = [] then Inl EINVAL
                else Inr (del_tree q f))))"

definition removed :: "fs \<Rightarrow> apath \<Rightarrow> fs" where
  "removed f p = (case os_Remove f p of Inl _ \<Rightarrow> f | Inr f' \<Rightarrow> f')"

text \<open>\<open>strconv.Atoi\<close> and \<open>strconv.ParseInt(s, 10, 64)\<close>.\<close>

definition parse_int64 :: "string \<Rightarrow> int option" where
  "parse_int64 s =
     (let neg = HasPrefix s ''-''; u = (if neg \<or> HasPrefix s ''+'' then drop 1 s else s);
          i = (if neg then - int (dec_val u) else int (dec_val u))
      in if u = [] \<or> \<not> list_all is_digit u \<or> i < - (2 ^ 63) \<or> i \<ge> 2 ^ 63 then None else Some i)"

subsection \<open>Storing an uploaded file\<close>

text \<open>
  What both upload handlers do with the file: open the new entry exclusively, copy at most one byte
  more than the limit, and remove the entry again when that fails or is too much. \<open>stop\<close>: how many
  bytes arrive before the copy fails, if it does.
\<close>

datatype stored = Stored | OpenExists | OpenFails | CopyFails | TooLarge

definition store_new_file :: "int \<Rightarrow> nat option \<Rightarrow> apath \<Rightarrow> string option \<Rightarrow> fs \<Rightarrow> stored \<times> fs" where
  "store_new_file limit stop dest content f =
     (let bytes = (case content of None \<Rightarrow> [] | Some b \<Rightarrow> take (nat (int64 (limit + 1))) b);
          failed = (content = None \<or> stop \<noteq> None);
          arrived = (case stop of Some k \<Rightarrow> take k bytes | None \<Rightarrow> bytes)
      in case os_CreateExcl f dest arrived of
           Inl e \<Rightarrow> (if e = EEXIST then OpenExists else OpenFails, f)
         | Inr f1 \<Rightarrow>
             (if failed then (CopyFails, removed f1 dest)
              else if int (length arrived) > limit then (TooLarge, removed f1 dest)
              else (Stored, f1)))"

subsection \<open>Well-formed file systems\<close>

text \<open>Every entry has an ordinary path and lies in a directory.\<close>

definition wf_fs :: "fs \<Rightarrow> bool" where
  "wf_fs f \<longleftrightarrow> (\<forall>p. node_at f p \<noteq> None \<longrightarrow> p = [] \<or> ordinary (last p) \<and> node_at f (butlast p) = Some FDir)"

lemma wf_fs_list:
  "list_all (\<lambda>e. fst e = [] \<or> ordinary (last (fst e)) \<and> node_at f (butlast (fst e)) = Some FDir) (nodes f) \<Longrightarrow> wf_fs f"
  unfolding wf_fs_def
proof (intro allI impI)
  fix p
  assume l: "list_all (\<lambda>e. fst e = [] \<or> ordinary (last (fst e)) \<and> node_at f (butlast (fst e)) = Some FDir) (nodes f)"
    and "node_at f p \<noteq> None"
  then have "p = [] \<or> (\<exists>n. (p, n) \<in> set (nodes f))" by (auto simp: node_at_def split: if_splits dest: map_of_SomeD)
  then show "p = [] \<or> ordinary (last p) \<and> node_at f (butlast p) = Some FDir"
    using l by (fastforce simp: list_all_iff)
qed

lemma wf_fsD: "wf_fs f \<Longrightarrow> node_at f (p @ [c]) \<noteq> None \<Longrightarrow> ordinary c \<and> node_at f p = Some FDir"
  unfolding wf_fs_def by (metis butlast_snoc last_snoc snoc_eq_iff_butlast)

lemma wf_fs_parent:
  assumes "wf_fs f" "node_at f (p @ r) \<noteq> None" "r \<noteq> []"
  shows "node_at f p = Some FDir"
  using assms(2,3)
proof (induction r rule: rev_induct)
  case (snoc c r)
  from snoc.prems(1) wf_fsD [OF assms(1), of "p @ r" c] have "node_at f (p @ r) = Some FDir" by simp
  then show ?case using snoc.IH by (cases r) auto
qed simp

lemma wf_fs_ordinary: "wf_fs f \<Longrightarrow> node_at f p \<noteq> None \<Longrightarrow> ordinary_path p"
proof (induction p rule: rev_induct)
  case (snoc c p)
  then show ?case using wf_fsD [OF snoc.prems(1,2)] by simp
qed simp

lemma wf_fs_missing_below: "wf_fs f \<Longrightarrow> node_at f p = None \<Longrightarrow> node_at f (p @ r) = None"
  by (cases "r = []") (auto dest: wf_fs_parent)

lemma wf_fs_set_node:
  assumes "wf_fs f" "node_at f (d @ [c]) = None" "node_at f d = Some FDir" "ordinary c"
  shows "wf_fs (set_node (d @ [c]) n f)"
  unfolding wf_fs_def
proof (intro allI impI)
  fix p
  assume p: "node_at (set_node (d @ [c]) n f) p \<noteq> None"
  show "p = [] \<or> ordinary (last p) \<and> node_at (set_node (d @ [c]) n f) (butlast p) = Some FDir"
  proof (cases "p = d @ [c]")
    case True
    then show ?thesis using assms by (auto simp: node_at_set_node)
  next
    case False
    then have "node_at f p \<noteq> None" using p by (simp add: node_at_set_node)
    then have "p = [] \<or> ordinary (last p) \<and> node_at f (butlast p) = Some FDir"
      using assms(1) by (auto simp: wf_fs_def)
    moreover have "butlast p \<noteq> d @ [c]" if "p \<noteq> []" "node_at f (butlast p) = Some FDir" using that assms(2) by auto
    ultimately show ?thesis by (auto simp: node_at_set_node)
  qed
qed

lemma prefix_butlast: "prefix q (butlast p) \<Longrightarrow> prefix q p"
  by (metis prefix_order.trans prefixeq_butlast)

lemma wf_fs_del_tree: "wf_fs f \<Longrightarrow> q \<noteq> [] \<Longrightarrow> wf_fs (del_tree q f)"
  unfolding wf_fs_def by (auto simp: node_at_del_tree split: if_splits dest: prefix_butlast)

lemma node_at_child: "node_at f (p @ [c]) = None \<longleftrightarrow> c \<notin> set (children f p)"
  by (force simp: node_at_def children_def map_of_eq_None_iff image_iff)

lemma map_filter_eq: "List.map_filter g xs = map (the \<circ> g) (filter (\<lambda>x. g x \<noteq> None) xs)"
  by (rule List.map_filter_def)

text \<open>
  In a well-formed file system the path of a directory leads, if reading does not fail on the way, to
  that directory: no link can be on it.
\<close>

lemma walk_dir_from:
  assumes "wf_fs f"
  shows "node_at f (d @ p) = Some FDir \<Longrightarrow> walk f l d p = Inr (d @ p) \<or> (\<exists>e. walk f l d p = Inl e)"
proof (induction p arbitrary: d)
  case (Cons c p)
  have dc: "node_at f (d @ [c]) = Some FDir"
    using Cons.prems wf_fs_parent [OF assms, of "d @ [c]" p] by (cases p) auto
  then have "ordinary c" using wf_fsD [OF assms, of d c] by simp
  then have "walk f l d (c # p) = (if rfail f (d @ [c]) then Inl EIO else walk f l (d @ [c]) p)"
    using dc by (simp add: walk_ordinary lookup_entry_def)
  then show ?case using Cons.IH [of "d @ [c]"] Cons.prems by simp
qed (simp add: walk.simps)

lemma walk_dir:
  assumes "wf_fs f" "node_at f p = Some FDir"
  shows "walk f l [] p = Inr p \<or> (\<exists>e. walk f l [] p = Inl e)"
  using walk_dir_from [OF assms(1), of "[]" p l] assms(2) by simp

lemma resolve_in_dir:
  assumes "wf_fs f" "node_at f d = Some FDir"
  shows "resolve_nofollow f (d @ [c]) = Inr (d @ [c]) \<or> (\<exists>e. resolve_nofollow f (d @ [c]) = Inl e)"
  using walk_dir [OF assms, of kernel_links] assms(2) by (auto simp: resolve_nofollow_def)

lemma Mkdir_in_dir:
  assumes "wf_fs f" "node_at f d = Some FDir" "os_Mkdir f (d @ [c]) = Inr f'"
  shows "node_at f (d @ [c]) = None \<and> f' = set_node (d @ [c]) FDir f"
  using resolve_in_dir [OF assms(1,2), of c] assms(3) by (auto simp: os_Mkdir_def split: option.splits if_splits)

lemma CreateExcl_in_dir:
  assumes "wf_fs f" "node_at f d = Some FDir" "os_CreateExcl f (d @ [c]) b = Inr f'"
  shows "node_at f (d @ [c]) = None \<and> f' = set_node (d @ [c]) (FFile b) f"
  using resolve_in_dir [OF assms(1,2), of c] assms(3) by (auto simp: os_CreateExcl_def split: option.splits if_splits)

lemma Lstat_in_dir:
  assumes "wf_fs f" "node_at f d = Some FDir" "os_Lstat f (d @ [c]) = Inr n"
  shows "node_at f (d @ [c]) = Some n"
  using resolve_in_dir [OF assms(1,2), of c] assms(3)
  by (auto simp: os_Lstat_def lookup_entry_def split: option.splits if_splits)

lemma Lstat_dir:
  assumes "wf_fs f" "node_at f p = Some FDir" "os_Lstat f p = Inr n"
  shows "n = FDir"
proof (cases p rule: rev_cases)
  case Nil
  then show ?thesis using assms(3) by (auto simp: os_Lstat_def resolve_nofollow_def lookup_entry_def node_at_def split: if_splits)
next
  case (snoc d c)
  then show ?thesis using assms wf_fsD [OF assms(1), of d c] Lstat_in_dir [OF assms(1), of d c n] by auto
qed

text \<open>A plain file in a directory, opened by its path.\<close>

lemma Stat_in_dir:
  assumes "wf_fs f" "node_at f d = Some FDir" "node_at f (d @ [c]) = Some (FFile b)" "os_Stat f (d @ [c]) = Inr n"
  shows "n = FFile b"
proof -
  have o: "ordinary c" using wf_fsD [OF assms(1), of d c] assms(3) by simp
  have ap: "walk f l d (p @ q) = (case walk f l d p of Inl e \<Rightarrow> Inl e | Inr d' \<Rightarrow> walk f l d' q)"
    if "node_at f (d @ p) = Some FDir" for l d p q
    using that
  proof (induction p arbitrary: d)
    case (Cons a p)
    have da: "node_at f (d @ [a]) = Some FDir"
      using Cons.prems wf_fs_parent [OF assms(1), of "d @ [a]" p] by (cases p) auto
    then have "ordinary a" using wf_fsD [OF assms(1), of d a] by simp
    then show ?case using da Cons.IH [of "d @ [a]"] Cons.prems by (simp add: walk_ordinary lookup_entry_def)
  qed (simp add: walk.simps)
  show ?thesis
    using walk_dir [OF assms(1,2), of kernel_links] ap [of "[]" d kernel_links "[c]"] assms o
    by (auto simp: os_Stat_def walk_ordinary lookup_entry_def walk.simps split: if_splits)
qed

lemma os_ReadDir_dir:
  assumes "wf_fs f" "node_at f p = Some FDir" "os_ReadDir f p = Inr es"
  shows "distinct (map fst es)" and "\<And>c. c \<in> set (map fst es) \<longleftrightarrow> node_at f (p @ [c]) \<noteq> None"
    and "\<And>c n. (c, n) \<in> set es \<Longrightarrow> node_at f (p @ [c]) = Some n"
proof -
  let ?g = "\<lambda>c. map_option (Pair c) (node_at f (p @ [c]))"
  have es: "es = List.map_filter ?g (sort (remdups (children f p)))"
    using walk_dir [OF assms(1,2), of kernel_links] assms(3) by (auto simp: os_ReadDir_def split: sum.splits if_splits)
  have m: "map fst es = filter (\<lambda>c. node_at f (p @ [c]) \<noteq> None) (sort (remdups (children f p)))"
    unfolding es map_filter_eq map_map by (simp, rule map_idI) auto
  show "distinct (map fst es)" unfolding m by simp
  show "c \<in> set (map fst es) \<longleftrightarrow> node_at f (p @ [c]) \<noteq> None" for c
    unfolding m by (auto simp: node_at_child)
  show "node_at f (p @ [c]) = Some n" if "(c, n) \<in> set es" for c n
    using that unfolding es map_filter_eq by auto
qed

lemma ReadDir_ordinary:
  assumes "wf_fs f" "os_ReadDir f p = Inr es" "c \<in> set (map fst es)"
  shows "ordinary c"
proof -
  obtain q where "node_at f (q @ [c]) \<noteq> None"
    using assms(2,3) by (force simp: os_ReadDir_def map_filter_eq split: sum.splits if_splits)
  then show ?thesis using wf_fsD [OF assms(1)] by blast
qed

lemma wf_demo_fs: "wf_fs demo_fs"
  by (rule wf_fs_list) code_simp

subsection \<open>The depth of a tree\<close>

text \<open>The bound a walk over the file system runs with: no entry lies deeper.\<close>

definition tree_depth :: "fs \<Rightarrow> nat" where
  "tree_depth f = foldr (\<lambda>e. max (length (fst e))) (nodes f) 0"

lemma tree_depth_le: "node_at f p \<noteq> None \<Longrightarrow> length p \<le> tree_depth f"
proof -
  have "p \<in> fst ` set xs \<Longrightarrow> length p \<le> foldr (\<lambda>e. max (length (fst e))) xs 0" for xs :: "(apath \<times> fnode) list"
    by (induction xs) (force simp: le_max_iff_disj)+
  then have "p \<in> fst ` set (nodes f) \<Longrightarrow> length p \<le> tree_depth f" by (simp add: tree_depth_def)
  then show "node_at f p \<noteq> None \<Longrightarrow> length p \<le> tree_depth f"
    by (auto simp: node_at_def split: if_splits dest!: map_of_SomeD) (metis fst_conv image_eqI)
qed

definition height_below :: "fs \<Rightarrow> apath \<Rightarrow> nat \<Rightarrow> bool" where
  "height_below f p n \<longleftrightarrow> (\<forall>r. node_at f (p @ r) \<noteq> None \<longrightarrow> length r < n)"

lemma height_below_child: "height_below f p (Suc n) \<Longrightarrow> height_below f (p @ [c]) n"
  unfolding height_below_def by (metis Suc_less_eq append.assoc append_Cons append_Nil length_Cons)

end
