(* ===== verification/Copying.thy ===== *)
theory Copying
  imports Dirs
begin

text \<open>
  Copying files and folders (\<open>copy.go\<close>): \<open>copyPath\<close> with its limits on the number of files and bytes.
  Main results: a copy changes nothing outside its destination, the bound on the recursion never
  matters, and a copy that succeeds holds exactly the visible plain files and folders of the source.
\<close>

subsection \<open>Limits and errors\<close>

definition copyMaxFiles :: nat where "copyMaxFiles = 5000"
definition copyMaxBytes :: int where "copyMaxBytes = 4 * 2 ^ 30"

text \<open>
  The counters of one copy: files and bytes so far. The writes that fail are given by the number of
  files copied before: the error, and how many bytes got out.
\<close>

type_synonym copyCount = "nat \<times> int"
type_synonym copyFault = "nat \<Rightarrow> (error \<times> nat) option"

definition copyFile :: "copyFault \<Rightarrow> apath \<Rightarrow> apath \<Rightarrow> copyCount \<Rightarrow> fs \<Rightarrow> unit result \<times> copyCount \<times> fs" where
  "copyFile w src dst c f =
     (let (files, bytes) = c in
      if files \<ge> copyMaxFiles then (Inl (''copy exceeds '' @ itoa copyMaxFiles @ '' files''), c, f)
      else case os_Stat f src of
        Inl e \<Rightarrow> (Inl (path_error ''open'' src e), c, f)
      | Inr n \<Rightarrow>
          (if bytes + node_size n > copyMaxBytes then (Inl ''copy exceeds size limit'', c, f)
           else let content = (case n of FFile b \<Rightarrow> b | _ \<Rightarrow> []);
                    wrote = (case w files of None \<Rightarrow> content | Some (e, k) \<Rightarrow> take k content)
                in case os_CreateExcl f dst wrote of
                     Inl e \<Rightarrow> (Inl (path_error ''open'' dst e), c, f)
                   | Inr f1 \<Rightarrow>
                       (case w files of
                          Some (e, k) \<Rightarrow> (Inl e, c, f1)
                        | None \<Rightarrow>
                            (if is_dir n then (Inl (''read '' @ apath_str src @ '': is a directory''), c, f1)
                             else (Inr (), (files + 1, bytes + int (length content)), f1)))))"

text \<open>
  \<open>copyDir\<close>. The first number bounds the depth of the recursion; \<open>copyPath\<close> starts with more than
  the tree can need.
\<close>

fun copyDir :: "copyFault \<Rightarrow> nat \<Rightarrow> apath \<Rightarrow> apath \<Rightarrow> copyCount \<Rightarrow> fs \<Rightarrow> unit result \<times> copyCount \<times> fs"
  and copy_entries :: "copyFault \<Rightarrow> nat \<Rightarrow> apath \<Rightarrow> apath \<Rightarrow> string list \<Rightarrow> copyCount \<Rightarrow> fs \<Rightarrow> unit result \<times> copyCount \<times> fs"
where
  "copyDir w 0 src dst c f = (Inl ''too deep'', c, f)"
| "copyDir w (Suc n) src dst c f =
     (case os_Mkdir f dst of
        Inl e \<Rightarrow> (Inl (''create directory: '' @ path_error ''mkdir'' dst e), c, f)
      | Inr f1 \<Rightarrow>
          (case os_ReadDir f1 src of
             Inl e \<Rightarrow> (Inl (path_error ''open'' src e), c, f1)
           | Inr es \<Rightarrow> copy_entries w n src dst (map fst es) c f1))"
| "copy_entries w n src dst [] c f = (Inr (), c, f)"
| "copy_entries w n src dst (name # names) c f =
     (if HasPrefix name ''.'' then copy_entries w n src dst names c f
      else case os_Lstat f (join_abs src name) of
        Inl e \<Rightarrow> (Inl (path_error ''lstat'' (join_abs src name) e), c, f)
      | Inr (FLink t) \<Rightarrow> copy_entries w n src dst names c f
      | Inr FDir \<Rightarrow>
          (case copyDir w n (join_abs src name) (join_abs dst name) c f of
             (Inl e, c1, f1) \<Rightarrow> (Inl e, c1, f1)
           | (Inr _, c1, f1) \<Rightarrow> copy_entries w n src dst names c1 f1)
      | Inr (FFile b) \<Rightarrow>
          (case copyFile w (join_abs src name) (join_abs dst name) c f of
             (Inl e, c1, f1) \<Rightarrow> (Inl e, c1, f1)
           | (Inr _, c1, f1) \<Rightarrow> copy_entries w n src dst names c1 f1))"

definition copyPath :: "copyFault \<Rightarrow> apath \<Rightarrow> apath \<Rightarrow> fnode \<Rightarrow> fs \<Rightarrow> unit result \<times> fs" where
  "copyPath w src dst info f =
     (let (r, c, f1) = (if is_dir info then copyDir w (tree_depth f + 2) src dst (0, 0) f else copyFile w src dst (0, 0) f)
      in (r, f1))"

subsection \<open>A copy touches only its destination\<close>

text \<open>
  \<open>framed p f f'\<close>: the two agree on everything that is not \<open>p\<close> or below it, and the second is
  well formed.
\<close>

definition same_faults :: "fs \<Rightarrow> fs \<Rightarrow> bool" where
  "same_faults f f' \<longleftrightarrow> rfail f' = rfail f \<and> wfail f' = wfail f"

definition framed :: "apath \<Rightarrow> fs \<Rightarrow> fs \<Rightarrow> bool" where
  "framed p f f' \<longleftrightarrow> same_faults f f' \<and> wf_fs f' \<and> (\<forall>q. \<not> prefix p q \<longrightarrow> node_at f' q = node_at f q)"

lemma framed_refl: "wf_fs f \<Longrightarrow> framed p f f"
  by (simp add: framed_def same_faults_def)

lemma framed_trans: "framed p f f1 \<Longrightarrow> framed p f1 f2 \<Longrightarrow> framed p f f2"
  by (auto simp: framed_def same_faults_def)

lemma framed_weaken: "framed (p @ r) f f' \<Longrightarrow> framed p f f'"
  by (auto simp: framed_def dest: append_prefixD)

lemma framed_node: "framed p f f' \<Longrightarrow> \<not> prefix p q \<Longrightarrow> node_at f' q = node_at f q"
  by (simp add: framed_def)

lemma framed_wf: "framed p f f' \<Longrightarrow> wf_fs f'"
  by (simp add: framed_def)

text \<open>Making one entry.\<close>

lemma framed_created:
  assumes "wf_fs f" "node_at f d = Some FDir" "ordinary c" "node_at f (d @ [c]) = None"
  shows "framed (d @ [c]) f (set_node (d @ [c]) n f)"
  using wf_fs_set_node [OF assms(1,4,2,3)] by (auto simp: framed_def same_faults_def node_at_set_node)

lemma created_below:
  assumes "wf_fs f" "node_at f (d @ [c]) = None"
  shows "node_at (set_node (d @ [c]) n f) (d @ c # r) = (if r = [] then Some n else None)"
  using wf_fs_missing_below [OF assms, of r] by (simp add: node_at_set_node)

lemma copyFile_cases:
  assumes "copyFile w src (d @ [c]) cc f = (r, cc', f')" "wf_fs f" "node_at f d = Some FDir"
  obtains (nothing) e where "r = Inl e" "f' = f"
  | (partly) e b where "r = Inl e" "node_at f (d @ [c]) = None" "f' = set_node (d @ [c]) (FFile b) f"
  | (whole) n b where "r = Inr ()" "os_Stat f src = Inr n" "b = (case n of FFile b \<Rightarrow> b | _ \<Rightarrow> [])"
      "node_at f (d @ [c]) = None" "f' = set_node (d @ [c]) (FFile b) f"
proof -
  have "(isl r \<and> f' = f) \<or> (\<exists>b. os_CreateExcl f (d @ [c]) b = Inr f' \<and>
      (isl r \<or> r = Inr () \<and> (\<exists>n. os_Stat f src = Inr n \<and> b = (case n of FFile b \<Rightarrow> b | _ \<Rightarrow> []))))"
    using assms(1) by (auto simp: copyFile_def Let_def split: if_splits sum.splits option.splits prod.splits)
  then show ?thesis
  proof (elim disjE conjE exE)
    assume *: "isl r" "f' = f"
    then obtain e where "r = Inl e" by (cases r) auto
    then show ?thesis using *(2) by (rule nothing)
  next
    fix b
    assume c: "os_CreateExcl f (d @ [c]) b = Inr f'" and "isl r"
    then obtain e where "r = Inl e" by (cases r) auto
    then show ?thesis using CreateExcl_in_dir [OF assms(2,3) c] partly by blast
  next
    fix b n
    assume c: "os_CreateExcl f (d @ [c]) b = Inr f'"
      and "r = Inr ()" "os_Stat f src = Inr n" "b = (case n of FFile b \<Rightarrow> b | _ \<Rightarrow> [])"
    then show ?thesis using CreateExcl_in_dir [OF assms(2,3) c] whole by blast
  qed
qed

lemma copyFile_framed:
  assumes "copyFile w src (d @ [c]) cc f = (r, cc', f')" "wf_fs f" "node_at f d = Some FDir" "ordinary c"
  shows "framed (d @ [c]) f f'"
  using assms(1-3)
  by (cases rule: copyFile_cases) (use assms in \<open>auto simp: framed_created framed_refl\<close>)

lemma dir_framed: "framed (d @ [c]) f f' \<Longrightarrow> node_at f d = Some FDir \<Longrightarrow> node_at f' d = Some FDir"
  by (simp add: framed_def)

lemma copy_framed:
  "copyDir w n src dst cc f = (r, cc', f') \<Longrightarrow> dst = d @ [c] \<Longrightarrow> wf_fs f \<Longrightarrow> node_at f d = Some FDir \<Longrightarrow> ordinary c \<Longrightarrow>
     framed dst f f'"
  "copy_entries w n src dst names cc f = (r, cc', f') \<Longrightarrow> wf_fs f \<Longrightarrow> node_at f dst = Some FDir \<Longrightarrow>
     \<forall>c\<in>set names. ordinary c \<Longrightarrow> framed dst f f' \<and> node_at f' dst = Some FDir"
proof (induction w n src dst cc f and w n src dst names cc f arbitrary: d c r cc' f' and r cc' f'
    rule: copyDir_copy_entries.induct)
  case (1 w src dst cc f)
  then show ?case by (simp add: framed_refl)
next
  case (2 w n src dst cc f)
  show ?case
  proof (cases "os_Mkdir f dst")
    case (Inl e)
    then show ?thesis using 2 by (simp add: framed_refl)
  next
    case mk: (Inr f1)
    then have m: "node_at f dst = None" "f1 = set_node dst FDir f"
      using Mkdir_in_dir [OF "2.prems"(3,4)] "2.prems"(2) by auto
    have fr: "framed dst f f1" unfolding m(2) "2.prems"(2)
      by (rule framed_created) (use "2.prems" m(1) in auto)
    have d1: "node_at f1 dst = Some FDir" using m(2) "2.prems"(2) by (simp add: node_at_set_node)
    show ?thesis
    proof (cases "os_ReadDir f1 src")
      case (Inl e)
      then show ?thesis using fr mk "2.prems"(1) by simp
    next
      case (Inr es)
      have "copy_entries w n src dst (map fst es) cc f1 = (r, cc', f')" using "2.prems"(1) mk Inr by simp
      then have "framed dst f1 f'"
        using "2.IH" [OF mk Inr _ framed_wf [OF fr] d1] ReadDir_ordinary [OF framed_wf [OF fr] Inr] by blast
      then show ?thesis using framed_trans [OF fr] by blast
    qed
  qed
next
  case (3 w n src dst cc f)
  then show ?case by (simp add: framed_refl)
next
  case (4 w n src dst name names cc f)
  have ord: "ordinary name" and ords: "\<forall>c\<in>set names. ordinary c" using "4.prems"(4) by auto
  note rest = "4.prems"(2,3) ords
  have join: "join_abs dst name = dst @ [name]" "join_abs src name = src @ [name]"
    using ord by (simp_all add: join_abs_ordinary_name)
  show ?case
  proof (cases "HasPrefix name ''.''")
    case True
    then show ?thesis using "4.IH"(1) [OF True _ rest] "4.prems"(1) by simp
  next
    case False
    show ?thesis
    proof (cases "os_Lstat f (join_abs src name)")
      case (Inl e)
      then show ?thesis using "4.prems" False by (simp add: framed_refl)
    next
      case st: (Inr node)
      show ?thesis
      proof (cases node)
        case FDir
        obtain r1 c1 f1 where cd: "copyDir w n (join_abs src name) (join_abs dst name) cc f = (r1, c1, f1)" by (metis prod.collapse)
        have fr: "framed (dst @ [name]) f f1"
          using "4.IH"(2) [OF False st FDir _ join(1) "4.prems"(2,3) ord] cd join by metis
        show ?thesis
        proof (cases r1)
          case (Inl e)
          then show ?thesis using "4.prems"(1) False st FDir cd framed_weaken [OF fr] dir_framed [OF fr "4.prems"(3)] by simp
        next
          case (Inr u)
          have "copy_entries w n src dst names c1 f1 = (r, cc', f')" using "4.prems"(1) False st FDir cd Inr by simp
          then have "framed dst f1 f' \<and> node_at f' dst = Some FDir"
            using "4.IH"(3) [OF False st FDir cd [symmetric] Inr refl] framed_wf [OF fr] dir_framed [OF fr "4.prems"(3)] ords by blast
          then show ?thesis using framed_weaken [OF fr] framed_trans by blast
        qed
      next
        case (FFile b)
        obtain r1 c1 f1 where cd: "copyFile w (join_abs src name) (join_abs dst name) cc f = (r1, c1, f1)" by (metis prod.collapse)
        have fr: "framed (dst @ [name]) f f1"
          using copyFile_framed cd "4.prems"(2,3) ord join by metis
        show ?thesis
        proof (cases r1)
          case (Inl e)
          then show ?thesis using "4.prems"(1) False st FFile cd framed_weaken [OF fr] dir_framed [OF fr "4.prems"(3)] by simp
        next
          case (Inr u)
          have "copy_entries w n src dst names c1 f1 = (r, cc', f')" using "4.prems"(1) False st FFile cd Inr by simp
          then have "framed dst f1 f' \<and> node_at f' dst = Some FDir"
            using "4.IH"(4) [OF False st FFile cd [symmetric] Inr refl] framed_wf [OF fr] dir_framed [OF fr "4.prems"(3)] ords by blast
          then show ?thesis using framed_weaken [OF fr] framed_trans by blast
        qed
      next
        case (FLink t)
        then show ?thesis using "4.IH"(5) [OF False st FLink _ rest] "4.prems"(1) False st by simp
      qed
    qed
  qed
qed

subsection \<open>What a successful copy holds\<close>

text \<open>The entry a copy has at \<open>r\<close>: hidden names and links are left out, with all they hold.\<close>

definition copied :: "fs \<Rightarrow> apath \<Rightarrow> apath \<Rightarrow> fnode option" where
  "copied f src r =
     (if list_all (\<lambda>c. \<not> HasPrefix c ''.'') r
      then (case node_at f (src @ r) of Some (FLink _) \<Rightarrow> None | x \<Rightarrow> x) else None)"

definition apart :: "apath \<Rightarrow> apath \<Rightarrow> bool" where
  "apart p q \<longleftrightarrow> \<not> prefix p q \<and> \<not> prefix q p"

lemma apart_app: "apart p q \<Longrightarrow> apart (p @ r) (q @ s)"
  unfolding apart_def by (metis append_prefixD prefixI prefix_same_cases)

lemma apart_sym: "apart p q \<Longrightarrow> apart q p"
  by (simp add: apart_def)

lemma copied_framed:
  assumes "framed q f f'" "apart q src"
  shows "copied f' src = copied f src"
proof
  fix r
  have "\<not> prefix q (src @ r)" using apart_app [OF assms(2), of "[]" r] by (simp add: apart_def)
  then show "copied f' src r = copied f src r" using framed_node [OF assms(1)] by (simp add: copied_def)
qed

lemma copied_Cons: "\<not> HasPrefix c ''.'' \<Longrightarrow> copied f src (c # r) = copied f (src @ [c]) r"
  by (simp add: copied_def)

lemma copied_link:
  assumes "wf_fs f" "node_at f (src @ [c]) = Some (FLink t)"
  shows "copied f src (c # r) = None"
proof (cases r)
  case (Cons a s)
  then have "node_at f (src @ c # r) = None" using wf_fs_parent [OF assms(1), of "src @ [c]" r] assms(2) by fastforce
  then show ?thesis by (simp add: copied_def)
qed (use assms in \<open>simp add: copied_def\<close>)

lemma copied_file:
  assumes "wf_fs f" "node_at f (src @ [c]) = Some (FFile b)" "\<not> HasPrefix c ''.''"
  shows "copied f src (c # r) = (if r = [] then Some (FFile b) else None)"
proof (cases r)
  case (Cons a s)
  then have "node_at f (src @ c # r) = None" using wf_fs_parent [OF assms(1), of "src @ [c]" r] assms(2) by fastforce
  then show ?thesis using Cons by (simp add: copied_def)
qed (use assms in \<open>simp add: copied_def\<close>)

lemma copy_exact:
  "copyDir w n src dst cc f = (Inr (), cc', f') \<Longrightarrow> dst = d @ [c] \<Longrightarrow> wf_fs f \<Longrightarrow> node_at f d = Some FDir \<Longrightarrow> ordinary c \<Longrightarrow>
     node_at f src = Some FDir \<Longrightarrow> apart src dst \<Longrightarrow> node_at f' (dst @ r) = copied f src r"
  "copy_entries w n src dst names cc f = (Inr (), cc', f') \<Longrightarrow> wf_fs f \<Longrightarrow> node_at f dst = Some FDir \<Longrightarrow>
     node_at f src = Some FDir \<Longrightarrow> apart src dst \<Longrightarrow> \<forall>c\<in>set names. ordinary c \<Longrightarrow> distinct names \<Longrightarrow>
     \<forall>c\<in>set names. node_at f (dst @ [c]) = None \<Longrightarrow>
     node_at f' (dst @ a # s) = (if a \<in> set names then copied f src (a # s) else node_at f (dst @ a # s))"
proof (induction w n src dst cc f and w n src dst names cc f arbitrary: d c cc' f' r and cc' f' a s
    rule: copyDir_copy_entries.induct)
  case (1 w src dst cc f)
  then show ?case by simp
next
  case (2 w n src dst cc f)
  obtain f1 es where mk: "os_Mkdir f dst = Inr f1" and rd: "os_ReadDir f1 src = Inr es"
    and run: "copy_entries w n src dst (map fst es) cc f1 = (Inr (), cc', f')"
    using "2.prems"(1) by (auto split: sum.splits)
  have m: "node_at f (d @ [c]) = None" "f1 = set_node (d @ [c]) FDir f"
    using Mkdir_in_dir [OF "2.prems"(3,4)] mk "2.prems"(2) by auto
  have fr: "framed dst f f1" unfolding m(2) "2.prems"(2)
    by (rule framed_created) (use "2.prems" m(1) in auto)
  have w1: "wf_fs f1" using fr by (rule framed_wf)
  have below: "node_at f1 (dst @ r) = (if r = [] then Some FDir else None)" for r
    using created_below [OF "2.prems"(3) m(1), of FDir r] m(2) "2.prems"(2) by simp
  have src1: "node_at f1 src = Some FDir"
    using framed_node [OF fr, of src] "2.prems"(6,7) by (simp add: apart_def)
  note es = os_ReadDir_dir [OF w1 src1 rd]
  have cp: "copied f1 src = copied f src" using copied_framed [OF fr apart_sym [OF "2.prems"(7)]] .
  have ord: "\<forall>c\<in>set (map fst es). ordinary c" using ReadDir_ordinary [OF w1 rd] by blast
  have free: "\<forall>c\<in>set (map fst es). node_at f1 (dst @ [c]) = None" using below by simp
  have fr2: "framed dst f f'"
    using copy_framed(1) "2.prems"(1-5) by blast
  show ?case
  proof (cases r)
    case Nil
    have "node_at f' dst = Some FDir" using copy_framed(2) [OF run w1 _ ord] below [of "[]"] by simp
    then show ?thesis using Nil "2.prems"(6) by (simp add: copied_def)
  next
    case (Cons a s)
    have "node_at f' (dst @ a # s) = (if a \<in> set (map fst es) then copied f1 src (a # s) else node_at f1 (dst @ a # s))"
      using "2.IH" [OF mk rd run w1 _ src1 "2.prems"(7) ord es(1) free] below [of "[]"] by simp
    moreover have "copied f1 src (a # s) = None" if "a \<notin> set (map fst es)"
      using that es(2) wf_fs_missing_below [OF w1, of "src @ [a]" s] by (auto simp: copied_def)
    ultimately show ?thesis using Cons cp below [of "a # s"] by simp
  qed
next
  case (3 w n src dst cc f)
  then show ?case by simp
next
  case (4 w n src dst name names cc f)
  have ord: "ordinary name" and ords: "\<forall>c\<in>set names. ordinary c" and new: "name \<notin> set names" "distinct names"
    and frees: "\<forall>c\<in>set names. node_at f (dst @ [c]) = None" and fre: "node_at f (dst @ [name]) = None"
    using "4.prems"(6-8) by auto
  have gone: "node_at f (dst @ name # q) = None" for q using wf_fs_missing_below [OF "4.prems"(2) fre, of q] by simp
  have join: "join_abs dst name = dst @ [name]" "join_abs src name = src @ [name]"
    using ord by (simp_all add: join_abs_ordinary_name)
  text \<open>An entry that adds nothing.\<close>
  have skip: ?case if run: "copy_entries w n src dst names cc f = (Inr (), cc', f')"
    and IH: "node_at f' (dst @ a # s) = (if a \<in> set names then copied f src (a # s) else node_at f (dst @ a # s))"
    and nowhere: "\<And>q. copied f src (name # q) = None"
  proof (cases "a = name")
    case True
    then show ?thesis using IH new(1) gone [of s] nowhere [of s] by simp
  next
    case False
    then show ?thesis using IH by simp
  qed
  text \<open>An entry that was copied to \<open>f1\<close>, before the rest.\<close>
  have step: ?case if fr: "framed (dst @ [name]) f f1"
    and IH: "wf_fs f1 \<Longrightarrow> node_at f1 dst = Some FDir \<Longrightarrow> node_at f1 src = Some FDir \<Longrightarrow>
      \<forall>c\<in>set names. node_at f1 (dst @ [c]) = None \<Longrightarrow>
      node_at f' (dst @ a # s) = (if a \<in> set names then copied f1 src (a # s) else node_at f1 (dst @ a # s))"
    and got: "\<And>q. node_at f1 (dst @ name # q) = copied f src (name # q)" for f1
  proof -
    have np: "\<not> prefix (dst @ [name]) src" using apart_app [OF "4.prems"(5), of "[]" "[name]"] by (simp add: apart_def)
    have other: "node_at f1 (dst @ b # q) = node_at f (dst @ b # q)" if "b \<noteq> name" for b q
      using framed_node [OF fr, of "dst @ b # q"] that by simp
    have cp: "copied f1 src = copied f src"
      by (rule copied_framed [OF fr]) (use apart_app [OF apart_sym [OF "4.prems"(5)], of "[name]" "[]"] in simp)
    have "node_at f' (dst @ a # s) = (if a \<in> set names then copied f1 src (a # s) else node_at f1 (dst @ a # s))"
    proof (rule IH)
      show "wf_fs f1" using fr by (rule framed_wf)
      show "node_at f1 dst = Some FDir" using dir_framed [OF fr "4.prems"(3)] .
      show "node_at f1 src = Some FDir" using framed_node [OF fr np] "4.prems"(4) by simp
      show "\<forall>c\<in>set names. node_at f1 (dst @ [c]) = None" using other frees new(1) by metis
    qed
    then show ?thesis using cp got other new(1) by (cases "a = name") auto
  qed
  show ?case
  proof (cases "HasPrefix name ''.''")
    case True
    have run: "copy_entries w n src dst names cc f = (Inr (), cc', f')" using "4.prems"(1) True by simp
    show ?thesis
      by (rule skip [OF run "4.IH"(1) [OF True run "4.prems"(2-5) ords new(2) frees]]) (use True in \<open>simp add: copied_def\<close>)
  next
    case False
    obtain node where st: "os_Lstat f (join_abs src name) = Inr node"
      using "4.prems"(1) False by (auto split: sum.splits)
    have at: "node_at f (src @ [name]) = Some node"
      using Lstat_in_dir [OF "4.prems"(2,4)] st join(2) by simp
    have ap: "apart (src @ [name]) (dst @ [name])" using "4.prems"(5) by (rule apart_app)
    show ?thesis
    proof (cases node)
      case FDir
      obtain u c1 f1 where cd: "copyDir w n (join_abs src name) (join_abs dst name) cc f = (Inr u, c1, f1)"
        and run: "copy_entries w n src dst names c1 f1 = (Inr (), cc', f')"
        using "4.prems"(1) False st FDir by (auto split: sum.splits prod.splits)
      have cd': "copyDir w n (join_abs src name) (join_abs dst name) cc f = (Inr (), c1, f1)" using cd by simp
      have fr: "framed (dst @ [name]) f f1"
        using copy_framed(1) cd join(1) "4.prems"(2,3) ord by metis
      have got: "node_at f1 (dst @ name # q) = copied f src (name # q)" for q
        using "4.IH"(2) [OF False st FDir cd' join(1) "4.prems"(2,3) ord, of q] at FDir ap join False
        by (simp add: copied_Cons)
      show ?thesis
        by (rule step [OF fr _ got]) (rule "4.IH"(3) [OF False st FDir cd [symmetric] refl refl run _ _ _ "4.prems"(5) ords new(2)])
    next
      case (FFile b)
      obtain u c1 f1 where cd: "copyFile w (join_abs src name) (join_abs dst name) cc f = (Inr u, c1, f1)"
        and run: "copy_entries w n src dst names c1 f1 = (Inr (), cc', f')"
        using "4.prems"(1) False st FFile by (auto split: sum.splits prod.splits)
      have fr: "framed (dst @ [name]) f f1"
        using copyFile_framed cd "4.prems"(2,3) ord join by metis
      have "f1 = set_node (dst @ [name]) (FFile b) f"
        using cd [unfolded join] "4.prems"(2,3)
        by (cases rule: copyFile_cases) (use Stat_in_dir [OF "4.prems"(2,4) at [unfolded FFile]] in auto)
      then have got: "node_at f1 (dst @ name # q) = copied f src (name # q)" for q
        using created_below [OF "4.prems"(2) fre] copied_file [OF "4.prems"(2) at [unfolded FFile] False] by simp
      show ?thesis
        by (rule step [OF fr _ got]) (rule "4.IH"(4) [OF False st FFile cd [symmetric] refl refl run _ _ _ "4.prems"(5) ords new(2)])
    next
      case (FLink t)
      have run: "copy_entries w n src dst names cc f = (Inr (), cc', f')" using "4.prems"(1) False st FLink by simp
      show ?thesis
        by (rule skip [OF run "4.IH"(5) [OF False st FLink run "4.prems"(2-5) ords new(2) frees]])
          (use copied_link [OF "4.prems"(2) at [unfolded FLink]] in simp)
    qed
  qed
qed

subsection \<open>The bound on the depth never matters\<close>

lemma height_below_framed:
  assumes "framed q f f'" "apart q p" "height_below f p n"
  shows "height_below f' p n"
proof -
  have "node_at f' (p @ r) = node_at f (p @ r)" for r
    using framed_node [OF assms(1)] apart_app [OF assms(2), of "[]" r] by (simp add: apart_def)
  then show ?thesis using assms(3) by (simp add: height_below_def)
qed

lemma copy_deeper:
  "node_at f src = Some FDir \<Longrightarrow> height_below f src n \<Longrightarrow> wf_fs f \<Longrightarrow> apart src dst \<Longrightarrow>
     dst = d @ [c] \<Longrightarrow> node_at f d = Some FDir \<Longrightarrow> ordinary c \<Longrightarrow>
     copyDir w (n + k) src dst cc f = copyDir w n src dst cc f"
  "node_at f src = Some FDir \<Longrightarrow> height_below f src (Suc n) \<Longrightarrow> wf_fs f \<Longrightarrow> apart src dst \<Longrightarrow>
     node_at f dst = Some FDir \<Longrightarrow> \<forall>c\<in>set names. ordinary c \<Longrightarrow>
     copy_entries w (n + k) src dst names cc f = copy_entries w n src dst names cc f"
proof (induction w n src dst cc f and w n src dst names cc f arbitrary: d c and
    rule: copyDir_copy_entries.induct)
  case (1 w src dst cc f)
  then have "length ([] :: apath) < 0" unfolding height_below_def by (metis append_Nil2 option.discI)
  then show ?case by simp
next
  case (2 w n src dst cc f)
  show ?case
  proof (cases "os_Mkdir f dst")
    case mk: (Inr f1)
    then have m: "node_at f (d @ [c]) = None" "f1 = set_node (d @ [c]) FDir f"
      using Mkdir_in_dir [OF "2.prems"(3,6)] "2.prems"(5) by auto
    have fr: "framed dst f f1" unfolding m(2) "2.prems"(5)
      by (rule framed_created) (use "2.prems" m(1) in auto)
    have d1: "node_at f1 dst = Some FDir" using m(2) "2.prems"(5) by (simp add: node_at_set_node)
    have s1: "node_at f1 src = Some FDir" using framed_node [OF fr, of src] "2.prems"(1,4) by (simp add: apart_def)
    note h1 = height_below_framed [OF fr apart_sym [OF "2.prems"(4)] "2.prems"(2)]
    show ?thesis
    proof (cases "os_ReadDir f1 src")
      case (Inr es)
      have "\<forall>c\<in>set (map fst es). ordinary c" using ReadDir_ordinary [OF framed_wf [OF fr] Inr] by blast
      from "2.IH" [OF mk Inr s1 h1 framed_wf [OF fr] "2.prems"(4) d1 this] show ?thesis using mk Inr by simp
    qed (simp add: mk)
  qed simp
next
  case (3 w n src dst cc f)
  then show ?case by simp
next
  case (4 w n src dst name names cc f)
  have ord: "ordinary name" and ords: "\<forall>c\<in>set names. ordinary c" using "4.prems"(6) by auto
  have join: "join_abs dst name = dst @ [name]" "join_abs src name = src @ [name]"
    using ord by (simp_all add: join_abs_ordinary_name)
  have np: "\<not> prefix (dst @ [name]) src" and ap: "apart (dst @ [name]) src"
    using apart_app [OF apart_sym [OF "4.prems"(4)], of "[name]" "[]"] by (simp_all add: apart_def)
  show ?case
  proof (cases "HasPrefix name ''.''")
    case True
    then show ?thesis using "4.IH"(1) [OF True "4.prems"(1-5) ords] by simp
  next
    case False
    show ?thesis
    proof (cases "os_Lstat f (join_abs src name)")
      case (Inl e)
      then show ?thesis using False by simp
    next
      case st: (Inr node)
      have at: "node_at f (src @ [name]) = Some node" using Lstat_in_dir [OF "4.prems"(3,1)] st join(2) by simp
      have rest: "copy_entries w (n + k) src dst names c1 f1 = copy_entries w n src dst names c1 f1"
        if fr: "framed (dst @ [name]) f f1"
          and IH: "node_at f1 src = Some FDir \<Longrightarrow> height_below f1 src (Suc n) \<Longrightarrow> wf_fs f1 \<Longrightarrow> node_at f1 dst = Some FDir \<Longrightarrow>
            copy_entries w (n + k) src dst names c1 f1 = copy_entries w n src dst names c1 f1" for c1 f1
        by (rule IH) (use framed_node [OF fr np] "4.prems" framed_wf [OF fr] dir_framed [OF fr] height_below_framed [OF fr ap] in auto)
      show ?thesis
      proof (cases node)
        case FDir
        obtain r1 c1 f1 where cd: "copyDir w n (join_abs src name) (join_abs dst name) cc f = (r1, c1, f1)" by (metis prod.collapse)
        have fr: "framed (dst @ [name]) f f1" using copy_framed(1) cd join(1) "4.prems"(3,5) ord by metis
        have same: "copyDir w (n + k) (join_abs src name) (join_abs dst name) cc f = (r1, c1, f1)"
          using "4.IH"(2) [OF False st FDir, of dst name] cd at FDir join "4.prems" ord height_below_child [OF "4.prems"(2)]
            apart_app [OF "4.prems"(4)] by simp
        show ?thesis
        proof (cases r1)
          case (Inr u)
          have "copy_entries w (n + k) src dst names c1 f1 = copy_entries w n src dst names c1 f1"
            by (rule rest [OF fr]) (rule "4.IH"(3) [OF False st FDir cd [symmetric] Inr refl _ _ _ "4.prems"(4) _ ords])
          then show ?thesis using False st FDir cd same Inr by simp
        qed (use False st FDir cd same in simp)
      next
        case (FFile b)
        obtain r1 c1 f1 where cd: "copyFile w (join_abs src name) (join_abs dst name) cc f = (r1, c1, f1)" by (metis prod.collapse)
        have fr: "framed (dst @ [name]) f f1" using copyFile_framed cd "4.prems"(3,5) ord join by metis
        show ?thesis
        proof (cases r1)
          case (Inr u)
          have "copy_entries w (n + k) src dst names c1 f1 = copy_entries w n src dst names c1 f1"
            by (rule rest [OF fr]) (rule "4.IH"(4) [OF False st FFile cd [symmetric] Inr refl _ _ _ "4.prems"(4) _ ords])
          then show ?thesis using False st FFile cd Inr by simp
        qed (use False st FFile cd in simp)
      next
        case (FLink t)
        then show ?thesis using "4.IH"(5) [OF False st FLink "4.prems"(1-5) ords] False st by simp
      qed
    qed
  qed
qed

subsection \<open>Properties of \<open>copyPath\<close>\<close>

declare copyDir.simps [simp del] copy_entries.simps [simp del]

lemma copyPath_framed:
  assumes "copyPath w src (d @ [c]) info f = (r, f')" "wf_fs f" "node_at f d = Some FDir" "ordinary c"
  shows "framed (d @ [c]) f f'"
  using assms copy_framed(1) [OF _ refl] copyFile_framed
  by (auto simp: copyPath_def Let_def split: if_splits prod.splits)

text \<open>
  C23: A copy into a free name of a directory, taken from an entry apart from it, leaves every other
  entry of the file system exactly as it was, also when it fails midway; and when it succeeds the
  new entry is a faithful copy: every file and folder of the source whose path inside it has no hidden
  name, with the same contents, and nothing else, in particular no link.
\<close>

theorem copyPath_exact:
  assumes "wf_fs f" and "node_at f d = Some FDir" and "ordinary c"
    and "node_at f src = Some info" and "\<And>t. info \<noteq> FLink t" and "apart src (d @ [c])"
    and "copyPath w src (d @ [c]) info f = (r, f')"
  shows "wf_fs f' \<and> (\<forall>q. \<not> prefix (d @ [c]) q \<longrightarrow> node_at f' q = node_at f q) \<and>
    (r = Inr () \<longrightarrow> (\<forall>q. node_at f' (d @ [c] @ q) = copied f src q))"
proof -
  note fr = copyPath_framed [OF assms(7,1-3)]
  have "node_at f' (d @ [c] @ q) = copied f src q" if ok: "r = Inr ()" for q
  proof (cases "is_dir info")
    case True
    then have "node_at f src = Some FDir" using assms(4) by (simp add: is_dir_def)
    moreover obtain cc where "copyDir w (tree_depth f + 2) src (d @ [c]) (0, 0) f = (Inr (), cc, f')"
      using assms(7) ok True by (auto simp: copyPath_def Let_def split: prod.splits)
    ultimately show ?thesis using copy_exact(1) [OF _ refl assms(1-3) _ assms(6)] by simp
  next
    case False
    then obtain b where b: "info = FFile b" using assms(5) by (cases info) (auto simp: is_dir_def)
    obtain cc where cf: "copyFile w src (d @ [c]) (0, 0) f = (Inr (), cc, f')"
      using assms(7) ok False by (auto simp: copyPath_def Let_def split: prod.splits)
    obtain sd sc where src: "src = sd @ [sc]"
      using assms(4) b by (cases src rule: rev_cases) (auto simp: node_at_def)
    have sd: "node_at f sd = Some FDir" using wf_fsD [OF assms(1), of sd sc] assms(4) src by simp
    have free: "node_at f (d @ [c]) = None" and f': "f' = set_node (d @ [c]) (FFile b) f"
      using cf assms(1,2)
      by (cases rule: copyFile_cases; use Stat_in_dir [OF assms(1) sd, of sc b] assms(4) b src in force)+
    show ?thesis
    proof (cases q)
      case Nil
      then show ?thesis using created_below [OF assms(1) free, of "FFile b" "[]"] f' assms(4) b by (simp add: copied_def)
    next
      case (Cons a s)
      have "node_at f (src @ q) = None" using wf_fs_parent [OF assms(1), of src q] assms(4) b Cons by fastforce
      then show ?thesis using created_below [OF assms(1) free, of "FFile b" q] f' Cons by (simp add: copied_def)
    qed
  qed
  then show ?thesis using fr by (auto simp: framed_def)
qed

theorem copyPath_exact_witness:
  "node_at (snd (copyPath (\<lambda>_. None) [''s'', ''docs''] [''s'', ''docs copy''] FDir demo_fs)) [''s'', ''docs copy'', ''a.txt''] =
     Some (FFile ''hello'')"
proof -
  obtain r f' where c: "copyPath (\<lambda>_. None) [''s'', ''docs''] ([''s''] @ [''docs copy'']) FDir demo_fs = (r, f')"
    by (meson surj_pair)
  have "fst (copyPath (\<lambda>_. None) [''s'', ''docs''] ([''s''] @ [''docs copy'']) FDir demo_fs) = Inr ()" by code_simp
  then have r: "r = Inr ()" using c by simp
  have "node_at demo_fs [''s''] = Some FDir" "ordinary ''docs copy''" "node_at demo_fs [''s'', ''docs''] = Some FDir"
    "apart [''s'', ''docs''] ([''s''] @ [''docs copy''])" by code_simp+
  from copyPath_exact [OF wf_demo_fs this(1,2,3) _ this(4) c] r
  have "node_at f' ([''s''] @ [''docs copy''] @ [''a.txt'']) = copied demo_fs [''s'', ''docs''] [''a.txt'']" by blast
  moreover have "copied demo_fs [''s'', ''docs''] [''a.txt''] = Some (FFile ''hello'')" by code_simp
  ultimately show ?thesis using c by simp
qed

text \<open>
  The recursion of \<open>copyDir\<close> ends: its depth is bounded by the depth of the tree before the copy, so the bound
  the model runs it with never shows; any larger bound gives the same result, errors, limits and faults included.
\<close>

theorem copyPath_depth:
  assumes "wf_fs f" and "node_at f d = Some FDir" and "ordinary c"
    and "node_at f src = Some FDir" and "apart src (d @ [c])"
  shows "copyDir w (tree_depth f + 2 + k) src (d @ [c]) cc f = copyDir w (tree_depth f + 2) src (d @ [c]) cc f"
proof -
  have "length r < tree_depth f + 2" if "node_at f (src @ r) \<noteq> None" for r
    using tree_depth_le [OF that] by simp
  then have "height_below f src (tree_depth f + 2)" by (simp add: height_below_def)
  from copy_deeper(1) [OF assms(4) this assms(1,5) refl assms(2,3)] show ?thesis by simp
qed

theorem copyPath_depth_witness:
  "copyDir (\<lambda>_. None) (tree_depth demo_fs + 2 + 7) [''s'', ''docs''] ([''s''] @ [''docs copy'']) (0, 0) demo_fs =
   copyDir (\<lambda>_. None) (tree_depth demo_fs + 2) [''s'', ''docs''] ([''s''] @ [''docs copy'']) (0, 0) demo_fs"
proof -
  have "node_at demo_fs [''s''] = Some FDir" "ordinary ''docs copy''" "node_at demo_fs [''s'', ''docs''] = Some FDir"
    "apart [''s'', ''docs''] ([''s''] @ [''docs copy''])" by code_simp+
  from copyPath_depth [OF wf_demo_fs this] show ?thesis .
qed

end
