(* ===== verification/Archive.thy ===== *)
theory Archive
  imports Dirs
begin

text \<open>
  Downloading several entries as one zip archive (\<open>bulk.go\<close>, \<open>streamZip\<close> and \<open>addFileToZip\<close>), and the
  Content-Disposition header of \<open>handlers.go\<close>. The archive is the list of its entries. Main results:
  what an archive can hold and its limits, that it misses no visible file, that the bound on the depth never shows,
  and two flaws: a link through which it leaks a hidden file, and entry names that lead out of the archive.
\<close>

subsection \<open>Content-Disposition\<close>

definition formatContentDisposition :: "string \<Rightarrow> string \<Rightarrow> string" where
  "formatContentDisposition disposition name =
     (let escaped = ReplaceByte (ReplaceByte name backslash [backslash, backslash]) dquote [backslash, dquote]
      in disposition @ ''; filename='' @ [dquote] @ escaped @ [dquote] @ ''; filename*=UTF-8'' @ [CHR 0x27, CHR 0x27]
         @ PathEscape name)"

definition contentDisposition :: "string \<Rightarrow> string" where
  "contentDisposition name = formatContentDisposition ''attachment'' name"

definition contentDispositionInline :: "string \<Rightarrow> string" where
  "contentDispositionInline name = formatContentDisposition ''inline'' name"

subsection \<open>The archive\<close>

definition zipMaxFiles :: nat where "zipMaxFiles = 5000"
definition zipMaxBytes :: int where "zipMaxBytes = 4 * 2 ^ 30"

text \<open>Entries, files and bytes so far; a step returns the error that ends the archive, if any.\<close>

type_synonym zipState = "(string \<times> string) list \<times> nat \<times> int"

definition addFileToZip :: "fs \<Rightarrow> apath \<Rightarrow> apath \<Rightarrow> string \<Rightarrow> zipState \<Rightarrow> error option \<times> zipState" where
  "addFileToZip f realRoot absPath zipName st =
     (let (es, fileCount, byteCount) = st in
      if fileCount \<ge> zipMaxFiles then (Some (''zip exceeds '' @ itoa zipMaxFiles @ '' files''), st)
      else case os_Stat f absPath of
        Inl e \<Rightarrow> (Some (path_error ''stat'' absPath e), st)
      | Inr info \<Rightarrow>
          (if byteCount + node_size info > zipMaxBytes then (Some ''zip exceeds size limit'', st)
           else case EvalSymlinks f absPath of
             Inl e \<Rightarrow> (Some (path_error ''lstat'' absPath e), st)
           | Inr resolved \<Rightarrow>
               (if \<not> withinRoot realRoot resolved then (Some ''path escapes storage'', st)
                else case info of
                  FFile b \<Rightarrow> (None, es @ [(zipName, b)], fileCount + 1, byteCount + int (length b))
                | _ \<Rightarrow> (Some (''read '' @ apath_str absPath @ '': is a directory''), es @ [(zipName, [])], fileCount, byteCount))))"

text \<open>
  \<open>filepath.WalkDir\<close> with the function literal of \<open>streamZip\<close>: \<open>zip_dir\<close> for a directory the function has
  accepted, \<open>zip_entries\<close> for its entries. The first number bounds the depth.
\<close>

fun zip_dir :: "fs \<Rightarrow> apath \<Rightarrow> apath \<Rightarrow> string \<Rightarrow> nat \<Rightarrow> apath \<Rightarrow> zipState \<Rightarrow> error option \<times> zipState"
  and zip_entries :: "fs \<Rightarrow> apath \<Rightarrow> apath \<Rightarrow> string \<Rightarrow> nat \<Rightarrow> apath \<Rightarrow> (string \<times> fnode) list \<Rightarrow> zipState \<Rightarrow> error option \<times> zipState"
where
  "zip_dir f realRoot dir0 base 0 p st = (Some ''too deep'', st)"
| "zip_dir f realRoot dir0 base (Suc n) p st =
     (case os_ReadDir f p of
        Inl e \<Rightarrow> (Some (path_error ''open'' p e), st)
      | Inr es \<Rightarrow> zip_entries f realRoot dir0 base n p es st)"
| "zip_entries f realRoot dir0 base n p [] st = (None, st)"
| "zip_entries f realRoot dir0 base n p ((name, node) # es) st =
     (if HasPrefix name ''.'' then zip_entries f realRoot dir0 base n p es st
      else case (if is_dir node then zip_dir f realRoot dir0 base n (join_abs p name) st
                 else addFileToZip f realRoot (join_abs p name)
                        (path_Clean (base @ ''/'' @ path_Rel dir0 (join_abs p name))) st) of
        (Some e, st1) \<Rightarrow> (Some e, st1)
      | (None, st1) \<Rightarrow> zip_entries f realRoot dir0 base n p es st1)"

definition zip_depth :: "fs \<Rightarrow> nat" where
  "zip_depth f = tree_depth f + 2"

text \<open>One requested path of \<open>streamZip\<close>.\<close>

definition zip_path :: "genv \<Rightarrow> fs \<Rightarrow> apath \<Rightarrow> string \<Rightarrow> zipState \<Rightarrow> error option \<times> zipState" where
  "zip_path G f realRoot rel0 st =
     (let rel = Trim rel0 ''/'' in
      if rel = [] \<or> isTrashPath rel then (None, st)
      else case assertUserContentPath f (gPaths G) rel of
        Inl _ \<Rightarrow> (Some (''invalid path '' @ Quote (gU G) rel), st)
      | Inr absp \<Rightarrow>
          (case os_Stat f absp of
             Inl e \<Rightarrow> (Some (path_error ''stat'' absp e), st)
           | Inr info \<Rightarrow>
               (if \<not> is_dir info then addFileToZip f realRoot absp (path_Base rel) st
                else if HasPrefix (apath_Base absp) ''.'' then (None, st)
                else zip_dir f realRoot absp (path_Base rel) (zip_depth f) absp st)))"

fun zip_paths :: "genv \<Rightarrow> fs \<Rightarrow> apath \<Rightarrow> string list \<Rightarrow> zipState \<Rightarrow> error option \<times> zipState" where
  "zip_paths G f realRoot [] st = (None, st)"
| "zip_paths G f realRoot (rel # rels) st =
     (case zip_path G f realRoot rel st of
        (Some e, st1) \<Rightarrow> (Some e, st1)
      | (None, st1) \<Rightarrow> zip_paths G f realRoot rels st1)"

text \<open>The archive is closed and sent with what was added before an error.\<close>

definition streamZip :: "genv \<Rightarrow> fs \<Rightarrow> string \<Rightarrow> string list \<Rightarrow> error option \<times> response" where
  "streamZip G f downloadName relPaths =
     (let hs = [(''Content-Type'', ''application/zip''),
                (''Content-Disposition'', formatContentDisposition ''attachment'' downloadName),
                (''X-Content-Type-Options'', ''nosniff'')]
      in case storageRealRoot f (gPaths G) of
           Inl e \<Rightarrow> (Some e, mk_response 200 hs (BZip []))
         | Inr realRoot \<Rightarrow>
             (let (err, st) = zip_paths G f realRoot relPaths ([], 0, 0)
              in (err, mk_response 200 hs (BZip (fst st)))))"

definition handleZip :: shandler where
  "handleZip G x r s = post_json r (\<lambda>b.
     (let paths = uniqueNonEmptyPaths (fStrs b ''paths'') in
      if length paths = 0 then (jsonErr 400 ''No paths provided'', s)
      else if length paths > 500 then (jsonErr 400 ''Too many paths (max 500)'', s)
      else let base = path_Base (Trim (hd paths) ''/'');
               name = (if length paths = 1 \<and> base \<noteq> [] \<and> base \<noteq> ''.'' then base @ ''.zip'' else ''dingbap.zip'')
           in (snd (streamZip G (srvFs s) name paths), s))) s"

subsection \<open>What an archive holds\<close>

lemma walk_more_links: "walk f l d cs = Inr q \<Longrightarrow> l \<le> l' \<Longrightarrow> walk f l' d cs = Inr q"
proof (induction f l d cs arbitrary: l' rule: walk.induct)
  case (1 f l d)
  then show ?case by (simp add: walk.simps)
next
  case (2 f l d c cs)
  consider "c = [] \<or> c = ''.''" | "c = ''..''" | (other) "\<not> (c = [] \<or> c = ''.'')" "c \<noteq> ''..''" by blast
  then show ?case
  proof cases
    case other
    obtain n where n: "lookup_entry f (d @ [c]) = Inr n"
      using "2.prems"(1) other by (auto simp: walk.simps(2) split: sum.splits)
    show ?thesis
    proof (cases n)
      case FDir
      then show ?thesis using "2.IH"(3) [OF other n FDir] "2.prems" n other by (simp add: walk.simps(2))
    next
      case (FFile b)
      then show ?thesis using "2.prems" n other by (simp add: walk.simps(2))
    next
      case (FLink t)
      then have l: "l \<noteq> 0" "l' \<noteq> 0" "l - 1 \<le> l' - 1"
        "walk f (l - 1) (if HasPrefix t ''/'' then [] else d) (split_on slash t @ cs) = Inr q"
        using "2.prems" n other by (auto simp: walk.simps(2) split: if_splits)
      from "2.IH"(4) [OF other n FLink l(1,4,3)] show ?thesis using FLink n other l(2) by (simp add: walk.simps(2))
    qed
  qed (use 2 in \<open>simp_all add: walk.simps(2)\<close>)
qed

text \<open>The limits and the origin of the entries; only the step that ends the archive may add an empty entry.\<close>

definition zip_good :: "fs \<Rightarrow> apath \<Rightarrow> nat \<Rightarrow> zipState \<Rightarrow> bool" where
  "zip_good f root k st \<longleftrightarrow> (let (es, n, b) = st in
     n \<le> zipMaxFiles \<and> length es \<le> n + k \<and> b \<le> zipMaxBytes \<and> sum_list (map (int \<circ> length \<circ> snd) es) = b \<and>
     (\<forall>e\<in>set es. snd e = [] \<or> (\<exists>q. prefix root q \<and> node_at f q = Some (FFile (snd e)))))"

definition zip_kept :: "fs \<Rightarrow> apath \<Rightarrow> error option \<times> zipState \<Rightarrow> bool" where
  "zip_kept f root r \<longleftrightarrow> zip_good f root (if fst r = None then 0 else 1) (snd r)"

lemma zip_good_ended: "zip_good f root 0 st \<Longrightarrow> zip_kept f root (e, st)"
  by (auto simp: zip_kept_def zip_good_def)

lemma addFileToZip_good:
  assumes "zip_good f root 0 st" "ordinary_path p"
  shows "zip_kept f root (addFileToZip f root p name st)"
proof -
  obtain es n b where st: "st = (es, n, b)" by (cases st)
  note e = zip_good_ended [OF assms(1), unfolded st]
  have src: "\<exists>q. prefix root q \<and> node_at f q = Some (FFile c)"
    if s: "os_Stat f p = Inr (FFile c)" and ev: "EvalSymlinks f p = Inr q" and w: "withinRoot root q" for c q
  proof -
    obtain q' where q': "walk f kernel_links [] p = Inr q'" "lookup_entry f q' = Inr (FFile c)"
      using s by (auto simp: os_Stat_def split: sum.splits)
    have "walk f evalsymlinks_links [] p = Inr q'"
      by (rule walk_more_links [OF q'(1)]) (simp add: kernel_links_def evalsymlinks_links_def)
    then have "q' = q" using ev by (simp add: EvalSymlinks_def)
    moreover have "node_at f q' = Some (FFile c)" using q'(2) by (simp add: lookup_entry_def split: if_splits option.splits)
    moreover have "ordinary_path q" using EvalSymlinks_real [OF assms(2) ev] by (rule real_entry_ordinary)
    ultimately show ?thesis using w by (auto simp: withinRoot_iff)
  qed
  show ?thesis using assms(1) src e
    by (auto simp: addFileToZip_def st Let_def zip_kept_def zip_good_def split: sum.splits fnode.splits)
qed

lemma zip_dir_good:
  "zip_good f root 0 st \<Longrightarrow> ordinary_path p \<Longrightarrow> wf_fs f \<Longrightarrow> zip_kept f root (zip_dir f root dir0 base n p st)"
  "zip_good f root 0 st \<Longrightarrow> ordinary_path p \<Longrightarrow> wf_fs f \<Longrightarrow> \<forall>c\<in>set (map fst es). ordinary c \<Longrightarrow>
     zip_kept f root (zip_entries f root dir0 base n p es st)"
proof (induction f root dir0 base n p st and f root dir0 base n p es st rule: zip_dir_zip_entries.induct)
  case (2 f root dir0 base n p st)
  then show ?case using ReadDir_ordinary by (fastforce simp: zip_good_ended split: sum.splits)
next
  case (4 f root dir0 base n p name node es st)
  let ?r = "if is_dir node then zip_dir f root dir0 base n (join_abs p name) st
     else addFileToZip f root (join_abs p name) (path_Clean (base @ ''/'' @ path_Rel dir0 (join_abs p name))) st"
  have ord: "ordinary name" "ordinary_path (join_abs p name)" "\<forall>c\<in>set (map fst es). ordinary c"
    using "4.prems" by (auto intro: join_abs_ordinary)
  show ?case
  proof (cases "HasPrefix name ''.''")
    case True
    then show ?thesis using "4.IH"(1) [OF True "4.prems"(1-3) ord(3)] by simp
  next
    case False
    have k: "zip_kept f root ?r"
      using "4.IH"(2) [OF False _ "4.prems"(1) ord(2) "4.prems"(3)] addFileToZip_good [OF "4.prems"(1) ord(2)] by simp
    obtain e st1 where r: "?r = (e, st1)" by (meson surj_pair)
    show ?thesis
    proof (cases e)
      case None
      with k r have "zip_good f root 0 st1" by (simp add: zip_kept_def)
      from "4.IH"(3) [OF False r [symmetric] None this "4.prems"(2,3) ord(3)] show ?thesis
        using False r None by simp
    next
      case (Some a)
      then show ?thesis using k r False by simp
    qed
  qed
qed (simp_all add: zip_good_ended)

lemma zip_path_good:
  assumes "zip_good f root 0 st" "wf_fs f" "storageRealRoot f (gPaths G) = Inr root" "real_dir f root"
  shows "zip_kept f root (zip_path G f root rel st)"
proof -
  have "ordinary_path p" if "safePath f (gPaths G) r = Inr p" for r p
    using safePath_ordinary [OF assms(3,4) that] .
  then show ?thesis using assms zip_dir_good(1) addFileToZip_good
    by (auto simp: zip_path_def Let_def zip_good_ended assertUserContentPath_def split: sum.splits)
qed

lemma zip_paths_good:
  assumes "wf_fs f" "storageRealRoot f (gPaths G) = Inr root" "real_dir f root"
  shows "zip_good f root 0 st \<Longrightarrow> zip_kept f root (zip_paths G f root rels st)"
proof (induction rels arbitrary: st)
  case (Cons rel rels)
  obtain e st1 where r: "zip_path G f root rel st = (e, st1)" by (meson surj_pair)
  with zip_path_good [OF Cons.prems assms, of rel] have k: "zip_kept f root (e, st1)" by simp
  show ?case
  proof (cases e)
    case None
    with k have "zip_good f root 0 st1" by (simp add: zip_kept_def)
    from Cons.IH [OF this] None r show ?thesis by simp
  qed (use k r in simp)
qed (simp add: zip_good_ended)

text \<open>
  C25: An archive never holds more than 5000 files and 4 GiB of contents, whatever was asked for, and everything in
  it is the contents of a plain file that really lies below the storage root: links out of the
  root are refused. (The empty entry of a link to a directory, at which the archive ends, comes on top.)
\<close>

theorem zip_bounded:
  assumes "wf_fs f" and "storageRealRoot f (gPaths G) = Inr root" and "real_dir f root"
    and "streamZip G f name rels = (err, resp)" and "respBody resp = BZip es"
  shows "length es \<le> (if err = None then 5000 else 5001) \<and> sum_list (map (int \<circ> length \<circ> snd) es) \<le> 4 * 2 ^ 30 \<and>
    (\<forall>(entry, bytes)\<in>set es. bytes = [] \<or> (\<exists>q. prefix root q \<and> node_at f q = Some (FFile bytes)))"
proof -
  obtain st where z: "zip_paths G f root rels ([], 0, 0) = (err, st)" and es: "es = fst st"
    using assms(2,4,5) by (auto simp: streamZip_def Let_def split: prod.splits)
  have "zip_good f root 0 ([], 0, 0)" by (simp add: zip_good_def zipMaxBytes_def)
  from zip_paths_good [OF assms(1-3) this, of rels] z have "zip_kept f root (err, st)" by simp
  then show ?thesis using es
    by (cases st) (auto simp: zip_kept_def zip_good_def zipMaxFiles_def zipMaxBytes_def split: if_splits)
qed

subsection \<open>Every visible file is in the archive\<close>

lemma path_Clean_join:
  assumes "ordinary_path cs" "cs \<noteq> []"
  shows "path_Clean (join_with ''/'' cs) = join_with ''/'' cs"
proof -
  have s: "split_on slash (join_with ''/'' cs) = cs"
    using assms by (intro split_join_with) (auto simp: ordinary_path_def list_all_iff ordinary_def)
  have f: "foldl (clean_step rooted) st ds = rev ds @ st" if "ordinary_path ds" for rooted ds st
    using that by (induction ds arbitrary: st) auto
  obtain c ds where c: "cs = c # ds" using assms(2) by (cases cs) auto
  then have "c \<noteq> []" "hd c \<noteq> slash" using assms(1) by (auto simp: ordinary_def) (metis hd_in_set)
  then have "\<not> HasPrefix (join_with ''/'' cs) ''/''" unfolding c by (cases c; cases ds) auto
  then show ?thesis using assms f by (simp add: path_Clean_def clean_comps_def s)
qed

text \<open>The name an entry of a requested folder gets.\<close>

lemma entry_name:
  assumes "ordinary base" "ordinary_path r" "r \<noteq> []"
  shows "path_Clean (base @ ''/'' @ path_Rel p (p @ r)) = join_with ''/'' (base # r)"
proof -
  have "base @ ''/'' @ path_Rel p (p @ r) = join_with ''/'' (base # r)"
    using assms(3) by (cases r) (simp_all add: path_Rel_def rel_comps_append)
  then show ?thesis using path_Clean_join [of "base # r"] assms by simp
qed

lemma ReadDir_real:
  assumes "wf_fs f" "node_at f p = Some FDir" "os_ReadDir f p = Inr es"
  shows "real_dir f p"
proof -
  have "walk f kernel_links [] p = Inr p"
    using walk_dir [OF assms(1,2), of kernel_links] assms(3) by (auto simp: os_ReadDir_def)
  moreover have "\<forall>c\<in>set p. slash \<notin> set c"
    using wf_fs_ordinary [OF assms(1), of p] assms(2) by (auto simp: ordinary_path_def list_all_iff ordinary_def)
  ultimately have "real_entry f p" using walk_result_real [of f "[]" p] by simp
  then show ?thesis using assms(2) by (auto simp: real_entry_def lookup_entry_def split: if_splits)
qed

lemma addFileToZip_adds:
  assumes "addFileToZip f root (p @ [c]) name st = (None, st')" "real_dir f p" "ordinary c" "node_at f (p @ [c]) = Some (FFile b)"
  shows "(name, b) \<in> set (fst st')"
proof -
  have "os_Stat f (p @ [c]) = (if rfail f (p @ [c]) then Inl EIO else Inr (FFile b))"
    using assms(2-4) by (simp add: os_Stat_def walk_real_dir walk_ordinary lookup_entry_def walk.simps(1))
  then show ?thesis using assms(1)
    by (cases st) (auto simp: addFileToZip_def Let_def split: if_splits sum.splits)
qed

lemma addFileToZip_keeps: "set (fst st) \<subseteq> set (fst (snd (addFileToZip f root p name st)))"
  by (cases st) (auto simp: addFileToZip_def Let_def split: sum.split fnode.split)

lemma zip_dir_keeps:
  "set (fst st) \<subseteq> set (fst (snd (zip_dir f root dir0 base n p st)))"
  "set (fst st) \<subseteq> set (fst (snd (zip_entries f root dir0 base n p es st)))"
proof (induction f root dir0 base n p st and f root dir0 base n p es st rule: zip_dir_zip_entries.induct)
  case (4 f root dir0 base n p name node es st)
  let ?r = "if is_dir node then zip_dir f root dir0 base n (join_abs p name) st
     else addFileToZip f root (join_abs p name) (path_Clean (base @ ''/'' @ path_Rel dir0 (join_abs p name))) st"
  show ?case
  proof (cases "HasPrefix name ''.''")
    case False
    have k: "set (fst st) \<subseteq> set (fst (snd ?r))" using "4.IH"(2) [OF False] addFileToZip_keeps by simp
    obtain e st1 where r: "?r = (e, st1)" by (meson surj_pair)
    show ?thesis
    proof (cases e)
      case None
      from "4.IH"(3) [OF False r [symmetric] None] show ?thesis using False r None k by auto
    qed (use k r False in simp)
  qed (use "4.IH"(1) in simp)
qed (auto split: sum.split)

lemma zip_dir_holds:
  "zip_dir f root dir0 base n p st = (None, st') \<Longrightarrow> wf_fs f \<Longrightarrow> node_at f p = Some FDir \<Longrightarrow>
     r \<noteq> [] \<Longrightarrow> visible_path r \<Longrightarrow> node_at f (p @ r) = Some (FFile b) \<Longrightarrow>
     (path_Clean (base @ ''/'' @ path_Rel dir0 (p @ r)), b) \<in> set (fst st')"
  "zip_entries f root dir0 base n p es st = (None, st') \<Longrightarrow> wf_fs f \<Longrightarrow> real_dir f p \<Longrightarrow>
     \<forall>(c, nd)\<in>set es. node_at f (p @ [c]) = Some nd \<Longrightarrow>
     r \<noteq> [] \<Longrightarrow> hd r \<in> fst ` set es \<Longrightarrow> visible_path r \<Longrightarrow> node_at f (p @ r) = Some (FFile b) \<Longrightarrow>
     (path_Clean (base @ ''/'' @ path_Rel dir0 (p @ r)), b) \<in> set (fst st')"
proof (induction f root dir0 base n p st and f root dir0 base n p es st arbitrary: st' r b and st' r b rule: zip_dir_zip_entries.induct)
  case (2 f root dir0 base n p st)
  then obtain es where es: "os_ReadDir f p = Inr es" "zip_entries f root dir0 base n p es st = (None, st')"
    by (auto split: sum.splits)
  obtain c q where r: "r = c # q" using "2.prems"(4) by (cases r) auto
  have "node_at f (p @ [c]) \<noteq> None"
    using "2.prems"(6) wf_fs_missing_below [OF "2.prems"(2), of "p @ [c]" q] unfolding r by auto
  then have "hd r \<in> fst ` set es" using os_ReadDir_dir(2) [OF "2.prems"(2,3) es(1), of c] r by simp
  moreover have "\<forall>(c, nd)\<in>set es. node_at f (p @ [c]) = Some nd" using os_ReadDir_dir(3) [OF "2.prems"(2,3) es(1)] by auto
  ultimately show ?case
    using "2.IH" [OF es(1,2) "2.prems"(2) ReadDir_real [OF "2.prems"(2,3) es(1)]] "2.prems"(4-6) by blast
next
  case (4 f root dir0 base n p name node es st)
  let ?r = "if is_dir node then zip_dir f root dir0 base n (join_abs p name) st
     else addFileToZip f root (join_abs p name) (path_Clean (base @ ''/'' @ path_Rel dir0 (join_abs p name))) st"
  have nd: "node_at f (p @ [name]) = Some node" and rest: "\<forall>(c, nd)\<in>set es. node_at f (p @ [c]) = Some nd" using "4.prems"(4) by auto
  then have on: "ordinary name" using wf_fsD [OF "4.prems"(2), of p name] by simp
  then have j: "join_abs p name = p @ [name]" by (rule join_abs_ordinary_name)
  show ?case
  proof (cases "HasPrefix name ''.''")
    case True
    have "hd r \<noteq> name" using True "4.prems"(5,7) by (cases r) (auto simp: visible_path_def visible_def)
    then have "hd r \<in> fst ` set es" using "4.prems"(6) by auto
    from "4.IH"(1) [OF True _ "4.prems"(2,3) rest "4.prems"(5) this "4.prems"(7,8)] "4.prems"(1) True show ?thesis by simp
  next
    case False
    obtain st1 where r1: "?r = (None, st1)" and r2: "zip_entries f root dir0 base n p es st1 = (None, st')"
      using "4.prems"(1) False by (auto split: prod.splits option.splits if_splits)
    have sub: "set (fst st1) \<subseteq> set (fst st')" using zip_dir_keeps(2) [of st1 f root dir0 base n p es] r2 by simp
    show ?thesis
    proof (cases "hd r = name")
      case True
      then obtain q where r: "r = name # q" using "4.prems"(5) by (cases r) auto
      have "(path_Clean (base @ ''/'' @ path_Rel dir0 (p @ r)), b) \<in> set (fst st1)"
      proof (cases "is_dir node")
        case True
        then have d: "node_at f (p @ [name]) = Some FDir" using nd by (simp add: is_dir_def)
        have "q \<noteq> []" using d "4.prems"(8) r by auto
        with "4.IH"(2) [OF False True _ "4.prems"(2), of st1 q b] r1 True d "4.prems"(7,8) r j show ?thesis
          by (simp add: visible_path_def)
      next
        case nodir: False
        have "q = []"
        proof (rule ccontr)
          assume "q \<noteq> []"
          then have "node_at f (p @ [name]) = Some FDir"
            using wf_fs_parent [OF "4.prems"(2), of "p @ [name]" q] "4.prems"(8) r by simp
          then show False using nd nodir by (simp add: is_dir_def)
        qed
        with addFileToZip_adds [of f root p name _ st st1 b] r1 nodir j "4.prems"(3,8) on r show ?thesis by simp
      qed
      then show ?thesis using sub by blast
    next
      case other: False
      then have "hd r \<in> fst ` set es" using "4.prems"(6) by auto
      from "4.IH"(3) [OF False r1 [symmetric] refl r2 "4.prems"(2,3) rest "4.prems"(5) this "4.prems"(7,8)] show ?thesis .
    qed
  qed
qed auto

subsection \<open>The bound on the depth never matters\<close>

lemma zip_deeper:
  "height_below f p n \<Longrightarrow> wf_fs f \<Longrightarrow> node_at f p = Some FDir \<Longrightarrow>
     zip_dir f root dir0 base (n + k) p st = zip_dir f root dir0 base n p st"
  "height_below f p (Suc n) \<Longrightarrow> wf_fs f \<Longrightarrow> \<forall>(c, nd)\<in>set es. node_at f (p @ [c]) = Some nd \<Longrightarrow>
     zip_entries f root dir0 base (n + k) p es st = zip_entries f root dir0 base n p es st"
proof (induction f root dir0 base n p st and f root dir0 base n p es st rule: zip_dir_zip_entries.induct)
  case (1 f root dir0 base p st)
  then have "length ([] :: apath) < 0" unfolding height_below_def by (metis append_Nil2 option.discI)
  then show ?case by simp
next
  case (2 f root dir0 base n p st)
  have "\<forall>(c, nd)\<in>set es. node_at f (p @ [c]) = Some nd" if "os_ReadDir f p = Inr es" for es
    using os_ReadDir_dir(3) [OF "2.prems"(2,3) that] by auto
  then show ?case using "2.IH" "2.prems"(1,2) by (auto split: sum.split)
next
  case (4 f root dir0 base n p name node es st)
  have nd: "node_at f (p @ [name]) = Some node" and rest: "\<forall>(c, nd)\<in>set es. node_at f (p @ [c]) = Some nd"
    using "4.prems"(3) by auto
  then have "ordinary name" using wf_fsD [OF "4.prems"(2), of p name] by simp
  then have j: "join_abs p name = p @ [name]" by (rule join_abs_ordinary_name)
  let ?r = "\<lambda>m. if is_dir node then zip_dir f root dir0 base m (join_abs p name) st
     else addFileToZip f root (join_abs p name) (path_Clean (base @ ''/'' @ path_Rel dir0 (join_abs p name))) st"
  show ?case
  proof (cases "HasPrefix name ''.''")
    case True
    then show ?thesis using "4.IH"(1) [OF True "4.prems"(1,2) rest] by simp
  next
    case False
    have same: "?r (n + k) = ?r n"
      using "4.IH"(2) [OF False _ _ "4.prems"(2)] height_below_child [OF "4.prems"(1)] nd j by (auto simp: is_dir_def)
    obtain e st1 where r: "?r n = (e, st1)" by (meson surj_pair)
    show ?thesis
    proof (cases e)
      case None
      from "4.IH"(3) [OF False r [symmetric] None "4.prems"(1,2) rest] show ?thesis using False r same None by simp
    qed (use False r same in simp)
  qed
qed simp_all

lemma zip_depth_enough:
  assumes "wf_fs f" "node_at f p = Some FDir"
  shows "zip_dir f root dir0 base (zip_depth f + k) p st = zip_dir f root dir0 base (zip_depth f) p st"
proof -
  have "length r < zip_depth f" if "node_at f (p @ r) \<noteq> None" for r
    using tree_depth_le [OF that] by (simp add: zip_depth_def)
  then have "height_below f p (zip_depth f)" by (simp add: height_below_def)
  from zip_deeper(1) [OF this assms] show ?thesis .
qed

subsection \<open>A whole download\<close>

lemma zip_paths_keeps: "set (fst st) \<subseteq> set (fst (snd (zip_paths G f root rels st)))"
proof (induction rels arbitrary: st)
  case (Cons rel rels)
  have k: "set (fst st) \<subseteq> set (fst (snd (zip_path G f root rel st)))"
    using zip_dir_keeps(1) addFileToZip_keeps by (auto simp: zip_path_def Let_def split: sum.split)
  obtain e st1 where r: "zip_path G f root rel st = (e, st1)" by (meson surj_pair)
  then show ?case using k Cons.IH [of st1] by (cases e) auto
qed simp

lemma zip_path_holds:
  assumes "zip_path G f root rel st = (None, st')" "wf_fs f" "storageRealRoot f (gPaths G) = Inr root" "real_dir f root"
    and "\<not> isTrashPath (Trim rel ''/'')" "ordinary (path_Base (Trim rel ''/''))"
    and "safePath f (gPaths G) (Trim rel ''/'') = Inr p" "p \<noteq> root"
    and "visible_path r" "node_at f (p @ r) = Some (FFile b)"
  shows "(join_with ''/'' (path_Base (Trim rel ''/'') # r), b) \<in> set (fst st')"
proof -
  let ?rel = "Trim rel ''/''" and ?base = "path_Base (Trim rel ''/'')"
  have ne: "?rel \<noteq> []" using assms(6) by (auto simp: path_Base_def ordinary_def)
  obtain q where q: "p = root @ q" "visible_path q"
    using safePath_inside [OF assms(3,4,7)] by blast
  obtain d c where p: "p = d @ [c]" and c: "visible c" 
    using q assms(8) by (cases q rule: rev_cases) auto
  have oc: "ordinary c" using c by (rule visible_ordinary)
  have hid: "\<not> HasPrefix (apath_Base p) ''.''" using c p by (simp add: visible_def apath_Base_def)
  obtain info where info: "os_Stat f p = Inr info"
    using assms(1,5,7) ne by (auto simp: zip_path_def Let_def assertUserContentPath_def split: sum.splits)
  show ?thesis
  proof (cases r)
    case Nil
    then have b: "node_at f p = Some (FFile b)" using assms(10) by simp
    have d: "node_at f d = Some FDir" using wf_fsD [OF assms(2), of d c] b p by simp
    have i: "info = FFile b" using Stat_in_dir [OF assms(2) d, of c b info] b info p by simp
    have a: "addFileToZip f root p ?base st = (None, st')"
      using assms(1,5,7) ne info i by (simp add: zip_path_def assertUserContentPath_def is_dir_def)
    then show ?thesis using info i Nil
      by (cases st) (auto simp: addFileToZip_def Let_def split: if_splits sum.splits)
  next
    case (Cons a s)
    then have d: "node_at f p = Some FDir" using wf_fs_parent [OF assms(2), of p r] assms(10) by simp
    have "info = FDir" using info walk_dir [OF assms(2) d, of kernel_links] d
      by (auto simp: os_Stat_def lookup_entry_def split: if_splits)
    then have z: "zip_dir f root p ?base (zip_depth f) p st = (None, st')"
      using assms(1,5,7) ne info hid by (simp add: zip_path_def assertUserContentPath_def is_dir_def)
    from zip_dir_holds(1) [OF z assms(2) d _ assms(9,10)] Cons
    show ?thesis using entry_name [OF assms(6) visible_path_ordinary [OF assms(9)], of p] by simp
  qed
qed

text \<open>
  C24: An archive that is sent without an error is complete: for every requested entry that is not the trash or the
  storage root, every file in it whose path has no hidden name is in the archive, with its contents, under the
  entry's own name followed by the path inside it.
\<close>

theorem zip_holds_every_file:
  assumes "wf_fs f" and "storageRealRoot f (gPaths G) = Inr root" and "real_dir f root"
    and "streamZip G f name rels = (None, resp)" and "rel \<in> set rels"
    and "\<not> isTrashPath (Trim rel ''/'')" and "ordinary (path_Base (Trim rel ''/''))"
    and "safePath f (gPaths G) (Trim rel ''/'') = Inr p" and "p \<noteq> root"
    and "visible_path r" and "node_at f (p @ r) = Some (FFile b)"
  shows "\<exists>es. respBody resp = BZip es \<and> (join_with ''/'' (path_Base (Trim rel ''/'') # r), b) \<in> set es"
proof -
  obtain st where z: "zip_paths G f root rels ([], 0, 0) = (None, st)" and es: "respBody resp = BZip (fst st)"
    using assms(2,4) by (auto simp: streamZip_def Let_def split: prod.splits)
  have "(join_with ''/'' (path_Base (Trim rel ''/'') # r), b) \<in> set (fst st)"
    if "zip_paths G f root rels st0 = (None, st)" "rel \<in> set rels" for st0
    using that
  proof (induction rels arbitrary: st0)
    case (Cons a rels)
    obtain st1 where s: "zip_path G f root a st0 = (None, st1)" "zip_paths G f root rels st1 = (None, st)"
      using Cons.prems(1) by (auto split: prod.splits option.splits)
    show ?case
    proof (cases "a = rel")
      case True
      from zip_path_holds [OF s(1) [unfolded True] assms(1-3,6-11)] show ?thesis
        using zip_paths_keeps [of st1 G f root rels] s(2) by auto
    qed (use Cons s(2) in auto)
  qed simp
  from this [OF z assms(5)] es show ?thesis by blast
qed

text \<open>The example storage with a link among the documents that leads to the account file.\<close>

definition demo_leak_fs :: fs where
  "demo_leak_fs = set_node [''s'', ''docs'', ''l''] (FLink ''../.dingbap/users.json'') demo_fs"

theorem zip_holds_every_file_witness:
  "\<exists>es. respBody (snd (streamZip demo_G demo_fs ''d.zip'' [''docs''])) = BZip es \<and> (''docs/a.txt'', ''hello'') \<in> set es"
proof -
  have "fst (streamZip demo_G demo_fs ''d.zip'' [''docs'']) = None" by code_simp
  then obtain resp where s: "streamZip demo_G demo_fs ''d.zip'' [''docs''] = (None, resp)" by (metis prod.collapse)
  have *: "storageRealRoot demo_fs (gPaths demo_G) = Inr [''s'']" "real_dir demo_fs [''s'']"
    "\<not> isTrashPath (Trim ''docs'' ''/'')" "ordinary (path_Base (Trim ''docs'' ''/''))"
    "safePath demo_fs (gPaths demo_G) (Trim ''docs'' ''/'') = Inr [''s'', ''docs'']"
    "visible_path [''a.txt'']" "node_at demo_fs ([''s'', ''docs''] @ [''a.txt'']) = Some (FFile ''hello'')"
    "join_with ''/'' (path_Base (Trim ''docs'' ''/'') # [''a.txt'']) = ''docs/a.txt''" by code_simp+
  from zip_holds_every_file [OF wf_demo_fs *(1,2) s _ *(3-5) _ *(6,7)] *(8) s show ?thesis by simp
qed

theorem zip_bounded_witness:
  "\<exists>resp es. streamZip demo_G demo_leak_fs ''d.zip'' [''docs''] = (None, resp) \<and> respBody resp = BZip es \<and> length es = 2 \<and>
     length es \<le> 5000"
proof -
  have "wf_fs demo_leak_fs" by (rule wf_fs_list) code_simp
  moreover have "storageRealRoot demo_leak_fs (gPaths demo_G) = Inr [''s'']" "real_dir demo_leak_fs [''s'']" by code_simp+
  moreover have s: "streamZip demo_G demo_leak_fs ''d.zip'' [''docs''] = (None, snd (streamZip demo_G demo_leak_fs ''d.zip'' [''docs'']))"
    "respBody (snd (streamZip demo_G demo_leak_fs ''d.zip'' [''docs''])) = BZip [(''docs/a.txt'', ''hello''), (''docs/l'', ''secret'')]"
    by code_simp+
  ultimately show ?thesis using zip_bounded [of demo_leak_fs demo_G "[''s'']" "''d.zip''" "[''docs'']"] by fastforce
qed

text \<open>
  Hidden files are refused by every path a client can name, yet an archive hands them out through a link:
  asking for the folder with the link gives the account file, and asking for that file directly, or through the
  link itself, is refused.
\<close>

theorem zip_leaks_hidden:
  "respBody (snd (streamZip demo_G demo_leak_fs ''d.zip'' [''docs''])) = BZip [(''docs/a.txt'', ''hello''), (''docs/l'', ''secret'')] \<and>
   respBody (snd (streamZip demo_G demo_leak_fs ''d.zip'' [''docs/l''])) = BZip [] \<and>
   safePath demo_leak_fs demo_env ''.dingbap/users.json'' = Inl ''hidden path denied'' \<and>
   safePath demo_leak_fs demo_env ''docs/l'' = Inl ''hidden path denied''"
proof (intro conjI)
  show "respBody (snd (streamZip demo_G demo_leak_fs ''d.zip'' [''docs''])) = BZip [(''docs/a.txt'', ''hello''), (''docs/l'', ''secret'')]"
    by code_simp
  have "Trim ''docs/l'' ''/'' = ''docs/l''" "\<not> isTrashPath ''docs/l''" "storageRealRoot demo_leak_fs demo_env = Inr [''s'']"
    "safePath demo_leak_fs demo_env ''docs/l'' = Inl ''hidden path denied''" by code_simp+
  then show "respBody (snd (streamZip demo_G demo_leak_fs ''d.zip'' [''docs/l''])) = BZip []"
    by (simp add: streamZip_def zip_path_def assertUserContentPath_def demo_G_def)
  show "safePath demo_leak_fs demo_env ''.dingbap/users.json'' = Inl ''hidden path denied''" by code_simp
  show "safePath demo_leak_fs demo_env ''docs/l'' = Inl ''hidden path denied''" by code_simp
qed

text \<open>
  An entry is named by the last segment of the path as it was asked for, uncleaned: a path that ends in two dots gives
  entries that an unpacking program would write outside its folder.
\<close>

lemma zip_entry_names_escape:
  "respBody (snd (streamZip demo_G demo_fs ''d.zip'' [''docs/..''])) = BZip [(''../docs/a.txt'', ''hello''), (''../evil'', [])]"
  by code_simp

end
