(* ===== verification/FileHandlers.thy ===== *)
theory FileHandlers
  imports Auth Copying
begin

text \<open>
  The handlers that change the stored files: upload, new folder, rename, delete, move, copy, duplicate,
  their bulk forms and the trash (\<open>handlers.go\<close>, \<open>copy.go\<close>, \<open>bulk.go\<close>, \<open>trash.go\<close>). They are proved confined
  in the theory \<open>Confinement\<close>.
\<close>

subsection \<open>Parts the handlers share\<close>

definition max_upload_error :: "genv \<Rightarrow> string" where
  "max_upload_error G = ''File too large (max '' @ itoa_int (cfg_maxUploadBytes (gConf G) div 2 ^ 20) @ '' MB)''"

definition exists_error :: "string \<Rightarrow> response" where
  "exists_error name = jsonErr 409 (name @ '' already exists'')"

text \<open>What ends every change: the log entry and the invalidated listings.\<close>

definition changed :: "genv \<Rightarrow> extern \<Rightarrow> string \<Rightarrow> string \<Rightarrow> request \<Rightarrow> server \<Rightarrow> server" where
  "changed G x action path r s = invalidateListingCache (audit G x (actorName r) action path r s)"

definition on_fs :: "fs \<Rightarrow> server \<Rightarrow> server" where
  "on_fs f s = s\<lparr>srvFs := f\<rparr>"

definition on_shares :: "(shareStore \<Rightarrow> shareStore) \<Rightarrow> server \<Rightarrow> server" where
  "on_shares op s = s\<lparr>srvShares := op (srvShares s)\<rparr>"

text \<open>The user whose name goes into the records.\<close>

definition session_user :: "request \<Rightarrow> string" where
  "session_user r = (case rSession r of None \<Rightarrow> [] | Some ses \<Rightarrow> sUsername ses)"

text \<open>A folder may not go into itself: \<open>filepath.Rel\<close> from the source to the destination climbs.\<close>

definition into_itself :: "apath \<Rightarrow> apath \<Rightarrow> bool" where
  "into_itself src dest \<longleftrightarrow> (let rel = path_Rel src dest in rel \<noteq> ''..'' \<and> \<not> HasPrefix rel ''../'')"

subsection \<open>Upload, new folder, rename\<close>

definition handleUpload :: shandler where
  "handleUpload G x r s =
     (if rMethod r \<noteq> ''POST'' then (jsonErr 405 ''POST required'', s)
      else case rForm r of
        FormTooLarge \<Rightarrow> (jsonErr 413 (max_upload_error G), s)
      | FormBad \<Rightarrow> (jsonErr 400 ''Failed to parse form'', s)
      | FormOK vals files \<Rightarrow>
      (let f = srvFs s; destDir = vals ''path'' in
       if isTrashPath destDir then (jsonErr 400 ''Cannot upload into trash'', s)
       else case safePath f (gPaths G) destDir of
         Inl _ \<Rightarrow> (jsonErr 400 ''Invalid path'', s)
       | Inr targetDir \<Rightarrow>
       (if os_Stat f targetDir \<noteq> Inr FDir then (jsonErr 400 ''Destination must be an existing directory'', s)
        else case files ''file'' of
          None \<Rightarrow> (jsonErr 400 ''No file provided'', s)
        | Some (filename, content) \<Rightarrow>
        (let name = sanitizeName filename in
         if name = [] then (jsonErr 400 ''Invalid filename'', s)
         else let dest = join_abs targetDir name in
         case go_Stat f dest of
           Inr _ \<Rightarrow> (exists_error name, s)
         | Inl e \<Rightarrow>
           (if e \<noteq> ENOENT then (jsonErr 500 ''Failed to check destination'', s)
            else case store_new_file (cfg_maxUploadBytes (gConf G)) (map_option (\<lambda>_. x_cut x 0) (x_err x 0)) dest content f of
              (OpenExists, f1) \<Rightarrow> (exists_error name, on_fs f1 s)
            | (OpenFails, f1) \<Rightarrow> (jsonErr 500 ''Failed to save file'', on_fs f1 s)
            | (CopyFails, f1) \<Rightarrow> (jsonErr 500 ''Failed to write file'', on_fs f1 s)
            | (TooLarge, f1) \<Rightarrow> (jsonErr 413 (max_upload_error G), on_fs f1 s)
            | (Stored, f1) \<Rightarrow> (jsonOK (''Uploaded '' @ name), changed G x ''upload'' name r (on_fs f1 s)))))))"

definition handleMkdir :: shandler where
  "handleMkdir G x r s = post_json r (\<lambda>b.
     (let f = srvFs s; path = fStr b ''path'' in
      if isTrashPath path \<or> isTrashPath (pathJoin [path, fStr b ''name''])
      then (jsonErr 400 ''Cannot create folders in trash'', s)
      else case safePath f (gPaths G) path of
        Inl _ \<Rightarrow> (jsonErr 400 ''Invalid path'', s)
      | Inr parent \<Rightarrow>
      (let name = sanitizeName (fStr b ''name'') in
       if name = [] then (jsonErr 400 ''Invalid name'', s)
       else case go_Stat f (join_abs parent name) of
         Inr _ \<Rightarrow> (exists_error name, s)
       | Inl e \<Rightarrow>
         (if e \<noteq> ENOENT then (jsonErr 500 ''Failed to check destination'', s)
          else case os_Mkdir f (join_abs parent name) of
            Inl _ \<Rightarrow> (jsonErr 500 ''Failed to create directory'', s)
          | Inr f1 \<Rightarrow> (jsonOK (''Created directory '' @ name), changed G x ''mkdir'' (pathJoin [path, name]) r (on_fs f1 s)))))) s"

definition handleRename :: shandler where
  "handleRename G x r s = post_json r (\<lambda>b.
     (let f = srvFs s; oldPath = fStr b ''oldPath'' in
      case safePath f (gPaths G) oldPath of
        Inl _ \<Rightarrow> (jsonErr 400 ''Invalid path'', s)
      | Inr oldAbs \<Rightarrow>
      (let newName = sanitizeName (fStr b ''newName'') in
       if newName = [] then (jsonErr 400 ''Invalid name'', s)
       else let newAbs = join_abs (apath_Dir oldAbs) newName; newRel = pathJoin [pathDir oldPath, newName] in
       if isl (safePath f (gPaths G) newRel) then (jsonErr 400 ''Invalid destination'', s)
       else case os_Stat f oldAbs of
         Inl e \<Rightarrow> (if e = ENOENT then jsonErr 404 ''Source not found'' else jsonErr 500 ''Failed to check source'', s)
       | Inr _ \<Rightarrow>
       (case os_Stat f newAbs of
          Inr _ \<Rightarrow> (exists_error newName, s)
        | Inl e \<Rightarrow>
          (if e \<noteq> ENOENT then (jsonErr 500 ''Failed to check destination'', s)
           else case os_Rename f oldAbs newAbs of
             Inl _ \<Rightarrow> (jsonErr 500 ''Failed to rename'', s)
           | Inr f1 \<Rightarrow>
               (jsonOK (''Renamed to '' @ newName),
                changed G x ''rename'' newRel r
                  (on_shares (rewritePathPrefix (x_save x 1) (Trim oldPath ''/'') newRel) (on_fs f1 s)))))))) s"

subsection \<open>Delete and move\<close>

definition handleDelete :: shandler where
  "handleDelete G x r s = post_json r (\<lambda>b.
     (if \<not> fBool b ''confirm'' then (jsonErr 400 ''Deletion requires confirmation'', s)
      else let rel = Trim (fStr b ''path'') ''/'' in
      if rel = [] then (jsonErr 400 ''Cannot delete root'', s)
      else if isTrashPath rel then (jsonErr 400 ''Cannot delete trash internals this way'', s)
      else case safePath (srvFs s) (gPaths G) (fStr b ''path'') of
        Inl _ \<Rightarrow> (jsonErr 400 ''Invalid path'', s)
      | Inr target \<Rightarrow>
      (case os_Stat (srvFs s) target of
         Inl e \<Rightarrow> (if e = ENOENT then jsonErr 404 ''Not found'' else jsonErr 500 ''Failed to stat path'', s)
       | Inr info \<Rightarrow>
         (if is_dir info \<and> fStr b ''confirmName'' \<noteq> apath_Base target
          then (jsonErr 400 ''Type the folder name to confirm deletion'', s)
          else case with_trash (moveToTrash (gPaths G) (x_now x 2) (x_rand x 0) (x_save x 1) rel (session_user r)) s of
            (Inl e, s1) \<Rightarrow> (jsonErr 500 e, s1)
          | (Inr item, s1) \<Rightarrow>
              (jsonOK (''Moved '' @ tiName item @ '' to trash''),
               changed G x ''trash'' rel r (on_shares (removeByPathPrefix (x_save x 2) rel) s1)))))) s"

definition handleMove :: shandler where
  "handleMove G x r s = post_json r (\<lambda>b.
     (let f = srvFs s; path = fStr b ''path''; destDir = fStr b ''destDir'' in
      if isTrashPath path \<or> isTrashPath destDir then (jsonErr 400 ''Cannot move to/from trash this way'', s)
      else case safePath f (gPaths G) path of
        Inl _ \<Rightarrow> (jsonErr 400 ''Invalid source path'', s)
      | Inr srcAbs \<Rightarrow>
      (case safePath f (gPaths G) destDir of
         Inl _ \<Rightarrow> (jsonErr 400 ''Invalid destination path'', s)
       | Inr destAbs \<Rightarrow>
      (if os_Stat f destAbs \<noteq> Inr FDir then (jsonErr 400 ''Destination must be a directory'', s)
       else case os_Stat f srcAbs of
         Inl _ \<Rightarrow> (jsonErr 404 ''Source not found'', s)
       | Inr info \<Rightarrow>
      (if is_dir info \<and> into_itself srcAbs destAbs then (jsonErr 400 ''Cannot move a folder into itself'', s)
       else let name = apath_Base srcAbs; newAbs = join_abs destAbs name in
       if srcAbs = newAbs then (jsonErr 400 ''Source and destination are the same'', s)
       else case os_Stat f newAbs of
         Inr _ \<Rightarrow> (jsonErr 409 (name @ '' already exists in destination''), s)
       | Inl e \<Rightarrow>
         (if e \<noteq> ENOENT then (jsonErr 500 ''Failed to check destination'', s)
          else case os_Rename f srcAbs newAbs of
            Inl _ \<Rightarrow> (jsonErr 500 ''Failed to move'', s)
          | Inr f1 \<Rightarrow>
              (let newRel = pathJoin [Trim destDir ''/'', name] in
               (jsonOK (''Moved to '' @ destDir),
                changed G x ''move'' newRel r
                  (on_shares (rewritePathPrefix (x_save x 1) (Trim path ''/'') newRel) (on_fs f1 s)))))))))) s"

subsection \<open>Copy and duplicate\<close>

definition copy_faults :: "extern \<Rightarrow> copyFault" where
  "copy_faults x = (\<lambda>i. map_option (\<lambda>e. (e, x_cut x (100 + i))) (x_err x (100 + i)))"

text \<open>\<open>copyPath\<close> as both handlers use it: a failed copy is removed again.\<close>

definition copy_or_clean :: "extern \<Rightarrow> apath \<Rightarrow> apath \<Rightarrow> fnode \<Rightarrow> fs \<Rightarrow> unit result \<times> fs" where
  "copy_or_clean x src dst info f =
     (case copyPath (copy_faults x) src dst info f of
        (Inl e, f1) \<Rightarrow> (Inl e, snd (os_RemoveAll f1 dst))
      | (Inr _, f1) \<Rightarrow> (Inr (), f1))"

definition is_link :: "fnode \<Rightarrow> bool" where
  "is_link n \<longleftrightarrow> (case n of FLink _ \<Rightarrow> True | _ \<Rightarrow> False)"

definition handleCopy :: shandler where
  "handleCopy G x r s = post_json r (\<lambda>b.
     (let f = srvFs s; path = fStr b ''path''; destDir = fStr b ''destDir'' in
      if isTrashPath path \<or> isTrashPath destDir then (jsonErr 400 ''Cannot copy to/from trash this way'', s)
      else case safePath f (gPaths G) path of
        Inl _ \<Rightarrow> (jsonErr 400 ''Invalid source path'', s)
      | Inr srcAbs \<Rightarrow>
      (case safePath f (gPaths G) destDir of
         Inl _ \<Rightarrow> (jsonErr 400 ''Invalid destination path'', s)
       | Inr destAbs \<Rightarrow>
      (if os_Stat f destAbs \<noteq> Inr FDir then (jsonErr 400 ''Destination must be a directory'', s)
       else case os_Lstat f srcAbs of
         Inl _ \<Rightarrow> (jsonErr 404 ''Source not found'', s)
       | Inr info \<Rightarrow>
      (if is_link info then (jsonErr 400 ''Cannot copy symlinks'', s)
       else if is_dir info \<and> into_itself srcAbs destAbs then (jsonErr 400 ''Cannot copy a folder into itself'', s)
       else let name0 = apath_Base srcAbs; newAbs0 = join_abs destAbs name0 in
       if srcAbs = newAbs0
       then (jsonErr 400 (''Source and destination are the same '' @ emdash @ '' use Duplicate''), s)
       else case os_Stat f newAbs0 of
         Inl e \<Rightarrow>
           (if e \<noteq> ENOENT then (jsonErr 500 ''Failed to check destination'', s)
            else case copy_or_clean x srcAbs newAbs0 info f of
              (Inl e, f1) \<Rightarrow> (jsonErr 500 e, on_fs f1 s)
            | (Inr _, f1) \<Rightarrow>
                (jsonOK (''Copied as '' @ name0),
                 changed G x ''copy'' (pathJoin [Trim destDir ''/'', name0]) r (on_fs f1 s)))
       | Inr _ \<Rightarrow>
           (let name = uniqueCopyName f (x_now x 2) destAbs name0 in
            case copy_or_clean x srcAbs (join_abs destAbs name) info f of
              (Inl e, f1) \<Rightarrow> (jsonErr 500 e, on_fs f1 s)
            | (Inr _, f1) \<Rightarrow>
                (jsonOK (''Copied as '' @ name),
                 changed G x ''copy'' (pathJoin [Trim destDir ''/'', name]) r (on_fs f1 s)))))))) s"

definition handleDuplicate :: shandler where
  "handleDuplicate G x r s = post_json r (\<lambda>b.
     (let f = srvFs s; path = fStr b ''path'' in
      if isTrashPath path then (jsonErr 400 ''Cannot duplicate trash items this way'', s)
      else if Trim path ''/'' = [] then (jsonErr 400 ''Cannot duplicate root'', s)
      else case safePath f (gPaths G) path of
        Inl _ \<Rightarrow> (jsonErr 400 ''Invalid path'', s)
      | Inr srcAbs \<Rightarrow>
      (case os_Lstat f srcAbs of
         Inl _ \<Rightarrow> (jsonErr 404 ''Source not found'', s)
       | Inr info \<Rightarrow>
      (if is_link info then (jsonErr 400 ''Cannot duplicate symlinks'', s)
       else let parent = apath_Dir srcAbs; name = uniqueCopyName f (x_now x 2) parent (apath_Base srcAbs) in
       case copy_or_clean x srcAbs (join_abs parent name) info f of
         (Inl e, f1) \<Rightarrow> (jsonErr 500 e, on_fs f1 s)
       | (Inr _, f1) \<Rightarrow>
           (jsonOK (''Duplicated as '' @ name),
            changed G x ''duplicate'' (pathJoin [pathDir path, name]) r (on_fs f1 s)))))) s"

subsection \<open>Many at once\<close>

text \<open>The outcome of a loop: how many were moved, and the paths that were not.\<close>

type_synonym bulkResult = "nat \<times> string list"

definition bulk_response :: "string \<Rightarrow> bulkResult \<Rightarrow> response" where
  "bulk_response what res =
     writeJSON 200 (JObj [(''failed'', if snd res = [] then JNull else JArr (map JStr (snd res))),
       (''message'', JStr (''Moved '' @ itoa (fst res) @ '' item(s)'' @ what)), (''moved'', JNum (int (fst res))), (''ok'', JBool True)])"

text \<open>One round of each loop; \<open>i\<close> counts the rounds.\<close>

definition bulk_delete_one :: "genv \<Rightarrow> extern \<Rightarrow> string \<Rightarrow> nat \<Rightarrow> string \<Rightarrow> server \<Rightarrow> bool \<times> server" where
  "bulk_delete_one G x deletedBy i rel s =
     (if rel = [] \<or> isTrashPath rel then (False, s)
      else case with_trash (moveToTrash (gPaths G) (x_now x (100 + i)) (x_rand x (100 + i)) (x_save x (100 + 2 * i)) rel deletedBy) s of
        (Inl _, s1) \<Rightarrow> (False, s1)
      | (Inr _, s1) \<Rightarrow> (True, on_shares (removeByPathPrefix (x_save x (101 + 2 * i)) rel) s1))"

definition bulk_move_one :: "genv \<Rightarrow> extern \<Rightarrow> apath \<Rightarrow> string \<Rightarrow> nat \<Rightarrow> string \<Rightarrow> server \<Rightarrow> bool \<times> server" where
  "bulk_move_one G x destAbs destDir i rel s =
     (let f = srvFs s in
      if rel = [] \<or> isTrashPath rel then (False, s)
      else case safePath f (gPaths G) rel of
        Inl _ \<Rightarrow> (False, s)
      | Inr srcAbs \<Rightarrow>
      (case os_Stat f srcAbs of
         Inl _ \<Rightarrow> (False, s)
       | Inr info \<Rightarrow>
      (if is_dir info \<and> into_itself srcAbs destAbs then (False, s)
       else let name = apath_Base srcAbs; newAbs = join_abs destAbs name in
       if srcAbs = newAbs then (False, s)
       else if os_Stat f newAbs \<noteq> Inl ENOENT then (False, s)
       else case os_Rename f srcAbs newAbs of
         Inl _ \<Rightarrow> (False, s)
       | Inr f1 \<Rightarrow>
           (True, on_shares (rewritePathPrefix (x_save x (100 + i)) rel (pathJoin [Trim destDir ''/'', name])) (on_fs f1 s)))))"

fun bulk_loop :: "(nat \<Rightarrow> string \<Rightarrow> server \<Rightarrow> bool \<times> server) \<Rightarrow> nat \<Rightarrow> string list \<Rightarrow> server \<Rightarrow> bulkResult \<times> server" where
  "bulk_loop one i [] s = ((0, []), s)"
| "bulk_loop one i (rel0 # rels) s =
     (let rel = Trim rel0 ''/''; (ok, s1) = one i rel s; ((moved, failed), s2) = bulk_loop one (i + 1) rels s1
      in (if ok then (moved + 1, failed) else (moved, rel # failed), s2))"

definition handleBulkDelete :: shandler where
  "handleBulkDelete G x r s = post_json r (\<lambda>b.
     (if \<not> fBool b ''confirm'' then (jsonErr 400 ''Confirmation required'', s)
      else let paths = uniqueNonEmptyPaths (fStrs b ''paths'') in
      if length paths = 0 then (jsonErr 400 ''No paths provided'', s)
      else if length paths > 500 then (jsonErr 400 ''Too many paths (max 500)'', s)
      else let (res, s1) = bulk_loop (bulk_delete_one G x (session_user r)) 0 paths s
           in (bulk_response '' to trash'' res, invalidateListingCache s1))) s"

definition handleBulkMove :: shandler where
  "handleBulkMove G x r s = post_json r (\<lambda>b.
     (let paths = uniqueNonEmptyPaths (fStrs b ''paths''); destDir = fStr b ''destDir'' in
      if length paths = 0 then (jsonErr 400 ''No paths provided'', s)
      else if length paths > 500 then (jsonErr 400 ''Too many paths (max 500)'', s)
      else if isTrashPath destDir then (jsonErr 400 ''Cannot move to trash this way'', s)
      else case safePath (srvFs s) (gPaths G) destDir of
        Inl _ \<Rightarrow> (jsonErr 400 ''Invalid destination path'', s)
      | Inr destAbs \<Rightarrow>
          (if os_Stat (srvFs s) destAbs \<noteq> Inr FDir then (jsonErr 400 ''Destination must be a directory'', s)
           else let (res, s1) = bulk_loop (bulk_move_one G x destAbs destDir) 0 paths s
                in (bulk_response [] res, invalidateListingCache s1)))) s"

subsection \<open>The trash\<close>

definition trash_item_json :: "TrashItem \<Rightarrow> json" where
  "trash_item_json it = JObj ([(''id'', JStr (tiID it)), (''original_path'', JStr (tiOriginalPath it)), (''name'', JStr (tiName it)),
     (''is_dir'', JBool (tiIsDir it)), (''deleted_at'', JNum (tiDeletedAt it))]
     @ (if tiDeletedBy it = [] then [] else [(''deleted_by'', JStr (tiDeletedBy it))])
     @ (if tiSize it = 0 then [] else [(''size'', JNum (tiSize it))]))"

definition handleTrashList :: shandler where
  "handleTrashList G x r s =
     (writeJSON 200 (JObj [(''items'', JArr (map trash_item_json (trash_list (srvTrash s)))), (''ok'', JBool True)]), s)"

definition handleTrashRestore :: shandler where
  "handleTrashRestore G x r s = post_json r (\<lambda>b.
     (case with_trash (restore (gPaths G) (x_save x 1) (fStr b ''id'')) s of
        (Inl e, s1) \<Rightarrow>
          (jsonErr (if e = ''not found'' \<or> Contains e ''missing'' then 404 else if Contains e ''occupied'' then 409 else 400) e, s1)
      | (Inr path, s1) \<Rightarrow> (jsonOK (''Restored to '' @ path), changed G x ''trash_restore'' path r s1))) s"

definition handleTrashPurge :: shandler where
  "handleTrashPurge G x r s = post_json r (\<lambda>b.
     (case with_trash (purge (x_save x 1) (fStr b ''id'')) s of
        (Inl e, s1) \<Rightarrow> (jsonErr 404 e, s1)
      | (Inr _, s1) \<Rightarrow> (jsonOK ''Permanently deleted'', changed G x ''trash_purge'' (fStr b ''id'') r s1))) s"

definition handleTrashEmpty :: shandler where
  "handleTrashEmpty G x r s = post_json r (\<lambda>b.
     (if \<not> fBool b ''confirm'' then (jsonErr 400 ''Empty trash requires confirmation'', s)
      else case with_trash (trash_empty (x_save x 1)) s of
        (Inl _, s1) \<Rightarrow> (jsonErr 500 ''Failed to empty trash'', s1)
      | (Inr n, s1) \<Rightarrow> (jsonOK (''Emptied trash ('' @ itoa n @ '' item(s))''), changed G x ''trash_empty'' [] r s1))) s"

end
