(* ===== verification/UploadHandlers.thy ===== *)
theory UploadHandlers
  imports FileHandlers
begin

text \<open>
  The handlers of chunked uploads (\<open>upload.go\<close>), and of the disk usage and activity pages
  (\<open>disk.go\<close>, \<open>copy.go\<close>, \<open>activity.go\<close>). Main result: the disk usage is measured again at most every 30
  seconds, and always after a change.
\<close>

subsection \<open>Chunked uploads\<close>

definition with_up :: "(uploadManager \<times> fs \<Rightarrow> 'a \<times> uploadManager \<times> fs) \<Rightarrow> server \<Rightarrow> 'a \<times> server" where
  "with_up op s = (let (a, u, f) = op (srvUploads s, srvFs s) in (a, s\<lparr>srvUploads := u, srvFs := f\<rparr>))"

definition handleUploadInit :: shandler where
  "handleUploadInit G x r s = post_json r (\<lambda>b.
     (case with_up (um_init (gPaths G) (cfg_maxUploadBytes (gConf G)) (x_now x 2) (x_mtime x) (x_rand x 0) (x_err x 0) (x_err x 1)
             (fStr b ''path'') (fStr b ''name'') (fInt b ''size'') (fInt b ''chunkSize'') (session_user r)) s of
        (Inl e, s1) \<Rightarrow>
          (jsonErr (if Contains e ''already exists'' then 409 else if Contains e ''too large'' then 413 else 400) e, s1)
      | (Inr (m, rcv), s1) \<Rightarrow>
          (writeJSON 200 (JObj [(''chunkSize'', JNum (umChunkSize m)), (''ok'', JBool True), (''received'', JArr (map JNum rcv)),
             (''totalChunks'', JNum (umTotal m)), (''uploadId'', JStr (umID m))]), s1))) s"

definition handleUploadStatus :: shandler where
  "handleUploadStatus G x r s =
     (case with_uploads (um_status (x_now x 2) (rQuery r ''id'')) s of
        (Inl _, s1) \<Rightarrow> (jsonErr 404 ''Upload session not found'', s1)
      | (Inr (m, rcv), s1) \<Rightarrow>
          (writeJSON 200 (JObj [(''chunkSize'', JNum (umChunkSize m)), (''name'', JStr (umName m)), (''ok'', JBool True),
             (''path'', JStr (umPath m)), (''received'', JArr (map JNum rcv)), (''size'', JNum (umSize m)),
             (''totalChunks'', JNum (umTotal m)), (''uploadId'', JStr (umID m))]), s1))"

text \<open>
  Where the bytes of a chunk come from: a form file, or the body cut off after \<open>limit\<close> bytes; and the
  size the request declares, \<open>-1\<close> for none. \<open>Inl\<close> is the error answered.
\<close>

definition chunk_reader :: "request \<Rightarrow> int \<Rightarrow> error + (reader \<times> int)" where
  "chunk_reader r limit =
     (if HasPrefix (rHeader r ''Content-Type'') ''multipart/'' then
        (case rForm r of
           FormOK vals files \<Rightarrow>
             (case files ''chunk'' of
                None \<Rightarrow> Inl ''No chunk provided''
              | Some (_, content) \<Rightarrow>
                  Inr ((case content of None \<Rightarrow> ([], Some ''unexpected EOF'') | Some c \<Rightarrow> (c, None)), - 1))
         | _ \<Rightarrow> Inl ''Failed to parse chunk'')
      else
        Inr ((case rRaw r of
                None \<Rightarrow> ([], Some ''unexpected EOF'')
              | Some c \<Rightarrow> (if int (length c) > limit then (take (nat limit) c, Some ''http: request body too large'') else (c, None))),
             (case rHeader r ''Content-Length'' of [] \<Rightarrow> - 1
              | cl \<Rightarrow> (case parse_int64 cl of None \<Rightarrow> - 1 | Some n \<Rightarrow> n))))"

definition first_of :: "string \<Rightarrow> string \<Rightarrow> string" where
  "first_of a b = (if a = [] then b else a)"

definition handleUploadChunk :: shandler where
  "handleUploadChunk G x r s =
     (if rMethod r \<noteq> ''PUT'' \<and> rMethod r \<noteq> ''POST'' then (jsonErr 405 ''PUT or POST required'', s)
      else let i = first_of (rQuery r ''uploadId'') (rHeader r ''X-Upload-Id'') in
      case parse_int64 (first_of (rQuery r ''index'') (rHeader r ''X-Chunk-Index'')) of
        None \<Rightarrow> (jsonErr 400 ''Invalid chunk index'', s)
      | Some k \<Rightarrow>
      (case with_uploads (acquire (x_now x 2) i) s of
         (Inl _, s1) \<Rightarrow> (jsonErr 404 ''Upload session not found'', s1)
       | (Inr a, s1) \<Rightarrow>
      (let m = auMeta (heap (srvUploads s1) ! a) in
       case chunk_reader r (umChunkSize m + 1024) of
         Inl e \<Rightarrow> (jsonErr 400 e, s1)
       | Inr (rd, declared) \<Rightarrow>
         (case with_uploads (writeChunk (x_now x 3) i k rd declared
                 \<lparr>io_open = x_err x 0, io_write = x_err x 1, io_rename = x_err x 2\<rparr>) s1 of
            (Inl e, s2) \<Rightarrow> (jsonErr 400 e, s2)
          | (Inr _, s2) \<Rightarrow>
              (writeJSON 200 (JObj [(''index'', JNum k), (''ok'', JBool True),
                 (''received'', JNum (int (length (receivedList (srvUploads s2) a)))), (''total'', JNum (umTotal m))]), s2)))))"

definition handleUploadComplete :: shandler where
  "handleUploadComplete G x r s = post_json r (\<lambda>b.
     (case with_up (um_complete (gPaths G) (x_now x 2) (fStr b ''uploadId'') (x_err x 0)) s of
        (Inl e, s1) \<Rightarrow> (jsonErr (if Contains e ''already exists'' then 409 else 400) e, s1)
      | (Inr name, s1) \<Rightarrow> (jsonOK (''Uploaded '' @ name), changed G x ''upload'' name r s1))) s"

definition handleUploadAbort :: shandler where
  "handleUploadAbort G x r s = post_json r (\<lambda>b.
     (case with_uploads (um_abort (fStr b ''uploadId'')) s of
        (Inl e, s1) \<Rightarrow> (jsonErr 404 e, s1)
      | (Inr _, s1) \<Rightarrow> (jsonOK ''Upload aborted'', s1))) s"

subsection \<open>Disk usage\<close>

definition diskUsageCacheTTL :: duration where "diskUsageCacheTTL = 30 * second_ns"

text \<open>
  \<open>filepath.WalkDir\<close> does not follow its argument: a storage directory that is itself a link counts as the
  link. Entries that cannot be read count nothing. The product of two 64-bit numbers wraps.
\<close>

definition measureDiskUsage :: "path_env \<Rightarrow> extern \<Rightarrow> string \<Rightarrow> fs \<Rightarrow> diskUsage result" where
  "measureDiskUsage env x storageRoot f =
     (let used = (case path_Abs (pe_cwd env) storageRoot of
            None \<Rightarrow> 0
          | Some p \<Rightarrow> (case resolve_nofollow f p of Inl _ \<Rightarrow> 0 | Inr q \<Rightarrow> dirSize f q))
      in case x_statfs x of
           None \<Rightarrow> Inl ''statfs: input/output error''
         | Some (bsize, bavail, blocks) \<Rightarrow>
             (let bs = (if bsize \<le> 0 then 4096 else bsize) in
              Inr \<lparr>UsedBytes = used, FreeBytes = int64 (bavail * bs), TotalBytes = int64 (blocks * bs)\<rparr>))"

definition getDiskUsage :: "genv \<Rightarrow> extern \<Rightarrow> server \<Rightarrow> diskUsage result \<times> server" where
  "getDiskUsage G x s =
     (let d = srvDisk s in
      if diskUsageValid d \<and> x_now x 2 - diskUsageAt d < diskUsageCacheTTL then (Inr (diskUsageCache d), s)
      else case measureDiskUsage (gPaths G) x (rootDir (gPaths G)) (srvFs s) of
        Inl e \<Rightarrow> (Inl e, s)
      | Inr u \<Rightarrow> (Inr u, s\<lparr>srvDisk := \<lparr>diskUsageCache = u, diskUsageAt = x_now x 3, diskUsageValid = True\<rparr>\<rparr>))"

definition handleDiskUsage :: shandler where
  "handleDiskUsage G x r s =
     (if rMethod r \<noteq> ''GET'' then (jsonErr 405 ''GET required'', s)
      else case getDiskUsage G x s of
        (Inl _, s1) \<Rightarrow> (jsonErr 500 ''Failed to measure disk usage'', s1)
      | (Inr u, s1) \<Rightarrow>
          (writeJSON 200 (JObj [(''usedBytes'', JNum (UsedBytes u)), (''freeBytes'', JNum (FreeBytes u)),
             (''totalBytes'', JNum (TotalBytes u))]), s1))"

subsection \<open>The activity page\<close>

text \<open>A time stamp stands for its text. A log that holds no entry is the nil slice.\<close>

definition activity_json :: "activityEntry \<Rightarrow> json" where
  "activity_json e = JObj ([(''ts'', case aeTS e of None \<Rightarrow> JNull | Some t \<Rightarrow> JNum t)]
     @ (if aeUser e = [] then [] else [(''user'', JStr (aeUser e))]) @ [(''action'', JStr (aeAction e))]
     @ (if aePath e = [] then [] else [(''path'', JStr (aePath e))])
     @ (if aeIP e = [] then [] else [(''ip'', JStr (aeIP e))]))"

definition handleActivityList :: shandler where
  "handleActivityList G x r s =
     (if rMethod r \<noteq> ''GET'' then (jsonErr 405 ''GET required'', s)
      else if \<not> activityEnabled (srvLog s)
      then (writeJSON 200 (JObj [(''enabled'', JBool False), (''entries'', JArr []),
              (''message'', JStr ''Activity log is off. Set ACTIVITY_LOG=1 to enable (local JSONL; IPs only with ACTIVITY_LOG_IP=1).''),
              (''ok'', JBool True)]), s)
      else case readActivityRecent (x_err x 0) (int activityListLimit) (srvLog s) of
        Inl _ \<Rightarrow> (jsonErr 500 ''Failed to read activity log'', s)
      | Inr es \<Rightarrow>
          (writeJSON 200 (JObj [(''enabled'', JBool True), (''entries'', if es = [] \<and> activityLines (srvLog s) \<noteq> None then JNull else JArr (map activity_json es)),
             (''logIP'', JBool (activityLogIP (srvLog s))), (''ok'', JBool True)]), s))"

end
