(* ===== verification/Region.thy ===== *)
theory Region
  imports Copying
begin

text \<open>
  Which part of the file system a call may change. Main results: each call of \<open>os\<close> that changes the
  tree, made at a place \<open>safePath\<close> returned or at a name in a directory it returned, changes entries
  below that place only and keeps the file system well formed.
\<close>

subsection \<open>Calls in a directory of a well-formed file system\<close>

lemma framed_del_tree: "wf_fs f \<Longrightarrow> p \<noteq> [] \<Longrightarrow> framed p f (del_tree p f)"
  by (simp add: framed_def same_faults_def wf_fs_del_tree node_at_del_tree)

lemma RemoveAll_framed:
  assumes "wf_fs f" "node_at f d = Some FDir"
  shows "framed (d @ [c]) f (snd (os_RemoveAll f (d @ [c])))"
  using resolve_in_dir [OF assms, of c] assms(1)
  by (auto simp: os_RemoveAll_def framed_refl framed_del_tree)

lemma removed_framed:
  assumes "wf_fs f" "node_at f d = Some FDir"
  shows "framed (d @ [c]) f (removed f (d @ [c]))"
  using resolve_in_dir [OF assms, of c] assms(1)
  by (auto simp: removed_def os_Remove_def framed_refl framed_del_tree split: option.splits)

lemma Mkdir_framed:
  assumes "wf_fs f" "node_at f d = Some FDir" "ordinary c" "os_Mkdir f (d @ [c]) = Inr f'"
  shows "framed (d @ [c]) f f'"
  using Mkdir_in_dir [OF assms(1,2,4)] framed_created [OF assms(1-3)] by simp

lemma CreateExcl_framed:
  assumes "wf_fs f" "node_at f d = Some FDir" "ordinary c" "os_CreateExcl f (d @ [c]) b = Inr f'"
  shows "framed (d @ [c]) f f'"
  using CreateExcl_in_dir [OF assms(1,2,4)] framed_created [OF assms(1-3)] by simp

lemma store_new_file_framed:
  assumes "wf_fs f" "node_at f d = Some FDir" "ordinary c" "store_new_file limit stop (d @ [c]) content f = (r, f')"
  shows "framed (d @ [c]) f f'"
proof -
  obtain b where "f' = f \<or> (\<exists>f1. os_CreateExcl f (d @ [c]) b = Inr f1 \<and> (f' = f1 \<or> f' = removed f1 (d @ [c])))"
    using assms(4) by (auto simp: store_new_file_def Let_def split: sum.splits if_splits)
  moreover have "framed (d @ [c]) f f1 \<and> framed (d @ [c]) f (removed f1 (d @ [c]))"
    if "os_CreateExcl f (d @ [c]) b = Inr f1" for f1
  proof -
    note fr = CreateExcl_framed [OF assms(1-3) that]
    from removed_framed [OF framed_wf [OF fr] dir_framed [OF fr assms(2)], of c] fr show ?thesis
      by (blast intro: framed_trans)
  qed
  ultimately show ?thesis using framed_refl [OF assms(1)] by blast
qed

text \<open>Moving an entry changes the two places only.\<close>

lemma wf_fs_move_tree:
  assumes "wf_fs f" "node_at f s \<noteq> None" "s \<noteq> []" "d \<noteq> []" "\<not> prefix s d" "\<not> prefix d s"
    and "ordinary (last d)" "node_at f (butlast d) = Some FDir"
  shows "wf_fs (move_tree s d f)"
  unfolding wf_fs_def
proof (intro allI impI)
  fix p
  assume p: "node_at (move_tree s d f) p \<noteq> None"
  have ns: "\<not> prefix s p" using p node_at_move_tree_src [OF assms(3) _ assms(5,6), of p f] by auto
  consider (new) r where "p = d @ r" "r \<noteq> []" | (at) "p = d" | (nil) "p = []" | (other) "\<not> prefix d p" "p \<noteq> []"
    by (auto simp: prefix_def)
  then show "p = [] \<or> ordinary (last p) \<and> node_at (move_tree s d f) (butlast p) = Some FDir"
  proof cases
    case new
    then have "node_at f (s @ r) \<noteq> None" using p node_at_move_tree_dst [OF assms(4,3)] by simp
    then have "ordinary (last r)" "node_at f (s @ butlast r) = Some FDir"
      using assms(1) new(2) by (auto simp: wf_fs_def butlast_append)
    then show ?thesis using new node_at_move_tree_dst [OF assms(4,3), of f "butlast r"] by (simp add: butlast_append)
  next
    case at
    have "\<not> prefix d (butlast d)" using assms(4) by (metis append_butlast_last_id not_Cons_self2 prefix_order.antisym prefixeq_butlast self_append_conv)
    moreover have "\<not> prefix s (butlast d)" using assms(5) prefix_butlast by blast
    ultimately show ?thesis using at assms(7,8) by (simp add: node_at_move_tree_elsewhere)
  next
    case other
    then have "node_at f p \<noteq> None" using p ns by (simp add: node_at_move_tree_elsewhere)
    then have "ordinary (last p)" "node_at f (butlast p) = Some FDir" using assms(1) other(2) by (auto simp: wf_fs_def)
    moreover have "\<not> prefix d (butlast p)" "\<not> prefix s (butlast p)" using other(1) ns prefix_butlast by blast+
    ultimately show ?thesis by (simp add: node_at_move_tree_elsewhere)
  qed simp
qed

lemma Rename_in_dirs:
  assumes "wf_fs f" "node_at f sd = Some FDir" "node_at f dd = Some FDir" "ordinary dc"
    and "os_Rename f (sd @ [sc]) (dd @ [dc]) = Inr f'"
  shows "same_faults f f'" "wf_fs f'"
    and "\<And>q. \<not> prefix (sd @ [sc]) q \<Longrightarrow> \<not> prefix (dd @ [dc]) q \<Longrightarrow> node_at f' q = node_at f q"
proof -
  let ?s = "sd @ [sc]" and ?d = "dd @ [dc]"
  have r: "resolve_nofollow f ?s = Inr ?s" "resolve_nofollow f ?d = Inr ?d"
    using resolve_in_dir [OF assms(1,2), of sc] resolve_in_dir [OF assms(1,3), of dc] assms(5)
    by (auto simp: os_Rename_def)
  have "prefix ?d ?s \<Longrightarrow> ?s \<noteq> ?d \<Longrightarrow> node_at f ?s \<noteq> None \<Longrightarrow> node_at f ?d = Some FDir"
  proof -
    assume a: "prefix ?d ?s" "?s \<noteq> ?d" "node_at f ?s \<noteq> None"
    then obtain r where r: "?s = ?d @ r" by (auto simp: prefix_def)
    with a(2) have "r \<noteq> []" by auto
    then show "node_at f ?d = Some FDir" using wf_fs_parent [OF assms(1), of ?d r] a(3) unfolding r by blast
  qed
  then have "f' = f \<or> (f' = move_tree ?s ?d f \<and> node_at f ?s \<noteq> None \<and> \<not> prefix ?s ?d \<and> \<not> prefix ?d ?s)"
    using assms(5) r by (auto simp: os_Rename_def split: option.splits if_splits fnode.splits)
  then show "same_faults f f'" "wf_fs f'"
    "\<And>q. \<not> prefix ?s q \<Longrightarrow> \<not> prefix ?d q \<Longrightarrow> node_at f' q = node_at f q"
    using assms(1,3,4) wf_fs_move_tree [OF assms(1), of ?s ?d]
    by (auto simp: same_faults_def node_at_move_tree_elsewhere)
qed

text \<open>A folder cannot go below itself.\<close>

lemma Rename_below_itself:
  assumes "wf_fs f" "node_at f p = Some FDir" "node_at f dd = Some FDir" "prefix p dd" "os_Rename f p (dd @ [dc]) = Inr f'"
  shows False
proof -
  have "resolve_nofollow f p = Inr p \<or> (\<exists>e. resolve_nofollow f p = Inl e)"
  proof (cases p rule: rev_cases)
    case (snoc q c)
    then show ?thesis using resolve_in_dir [OF assms(1), of q c] assms(1,2) wf_fsD by blast
  qed (simp add: resolve_nofollow_def)
  then show False
    using resolve_in_dir [OF assms(1,3), of dc] assms(4,5)
    by (auto simp: os_Rename_def prefix_def split: option.splits if_splits)
qed

subsection \<open>Places returned by \<open>safePath\<close>\<close>

lemma placed_entry:
  assumes "placed f p" "os_Stat f p = Inr n \<or> os_Lstat f p = Inr n"
  shows "node_at f p = Some n \<and> (\<forall>t. n \<noteq> FLink t)"
proof -
  consider (dir) "real_dir f p" | (plain) d c s where "p = d @ [c]" "real_dir f d" "ordinary c" "lookup_entry f p = Inr (FFile s)"
    | (free) d c r where "p = d @ c # r" "real_dir f d" "ordinary c" "lookup_entry f (d @ [c]) = Inl ENOENT"
    using assms(1) by (auto simp: placed_def real_entry_def)
  then show ?thesis
  proof cases
    case dir
    then have "n = FDir"
      using assms(2) by (cases p rule: rev_cases)
        (auto simp: os_Stat_def os_Lstat_real walk_real_dir_id real_dir_snoc lookup_entry_def os_Lstat_def resolve_nofollow_def
          node_at_def walk.simps split: if_splits)
    then show ?thesis using dir by (simp add: real_dir_node)
  next
    case plain
    then have "n = FFile s"
      using assms(2) by (auto simp: os_Lstat_real os_Stat_def walk_real_dir walk_ordinary)
    then show ?thesis using plain by (auto simp: lookup_entry_def split: if_splits option.splits)
  next
    case free
    have "os_Stat f p = Inl ENOENT" using free by (simp add: os_Stat_def walk_real_dir walk_ordinary)
    moreover have "os_Lstat f p = Inl ENOENT"
    proof (cases "r = []")
      case False
      then show ?thesis using free by (simp add: os_Lstat_def resolve_nofollow_def butlast_append walk_real_dir walk_ordinary)
    qed (use free in \<open>simp add: os_Lstat_real\<close>)
    ultimately show ?thesis using assms(2) by simp
  qed
qed

lemma placed_butlast: "placed f (d @ [c]) \<Longrightarrow> placed f d"
  unfolding placed_def real_entry_def
proof (elim disjE exE conjE)
  fix d' c' r
  assume a: "d @ [c] = d' @ c' # r" "real_dir f d'" "ordinary_path (c' # r)" "lookup_entry f (d' @ [c']) = Inl ENOENT"
  then show "(real_dir f d \<or> (\<exists>da c s. d = da @ [c] \<and> real_dir f da \<and> ordinary c \<and> lookup_entry f d = Inr (FFile s))) \<or>
    (\<exists>da c r. d = da @ c # r \<and> real_dir f da \<and> ordinary_path (c # r) \<and> lookup_entry f (da @ [c]) = Inl ENOENT)"
    by (cases r rule: rev_cases) auto
qed (auto simp: real_dir_snoc)

text \<open>Making all folders down to a place.\<close>

lemma mkdir_all_placed:
  "mkdir_all_rev f cs = (e, f') \<Longrightarrow> wf_fs f \<Longrightarrow> placed f (rev cs) \<Longrightarrow>
   same_faults f f' \<and> wf_fs f' \<and> (\<forall>q. node_at f' q \<noteq> node_at f q \<longrightarrow> prefix q (rev cs) \<and> node_at f q = None) \<and>
   (e = None \<longrightarrow> node_at f' (rev cs) = Some FDir)"
proof (induction f cs arbitrary: e f' rule: mkdir_all_rev.induct)
  case (2 f c r)
  let ?p = "rev r @ [c]"
  have pl: "placed f (rev r)" using placed_butlast "2.prems"(3) by simp
  show ?case
  proof (cases "os_Stat f ?p")
    case (Inr n)
    then show ?thesis
      using "2.prems" placed_entry [of f ?p n] by (auto simp: is_dir_def same_faults_def split: if_splits)
  next
    case (Inl err)
    obtain e1 f1 where m: "mkdir_all_rev f r = (e1, f1)" by (meson surj_pair)
    note IH = "2.IH" [OF refl _ m "2.prems"(2) pl, simplified, OF Inl]
    show ?thesis
    proof (cases e1)
      case (Some e')
      then have "e = Some e' \<and> f' = f1" using "2.prems"(1) Inl m by simp
      then show ?thesis using IH by auto
    next
      case None
      have dir: "node_at f1 (rev r) = Some FDir" using IH None by simp
      have fp: "node_at f ?p = node_at f1 ?p" using IH by (metis prefix_length_le length_append_singleton Suc_n_not_le_n)
      have oc: "ordinary c" using placed_ordinary [OF "2.prems"(3)] by simp
      show ?thesis
      proof (cases "os_Mkdir f1 ?p")
        case (Inr f2)
        then have f2: "e = None" "f' = f2" using "2.prems"(1) Inl m None by auto
        have "node_at f1 ?p = None" "f2 = set_node ?p FDir f1"
          using Mkdir_in_dir [OF _ dir Inr] IH by auto
        then show ?thesis
          using f2 IH fp wf_fs_set_node [OF _ _ dir oc] by (auto simp: node_at_set_node same_faults_def)
      next
        case (Inl e2)
        then have "f' = f1 \<and> (e = None \<longrightarrow> os_Lstat f1 ?p = Inr FDir)"
          using "2.prems"(1) \<open>os_Stat f ?p = Inl err\<close> m None by (auto simp: is_dir_def split: sum.splits if_splits)
        then show ?thesis using IH Lstat_in_dir [OF _ dir, of c FDir] by auto
      qed
    qed
  qed
qed (simp add: same_faults_def node_at_def)

text \<open>A name in such a place can be opened or made only where the place is a folder.\<close>

lemma placed_resolve:
  assumes "wf_fs f" "placed f p" "resolve_nofollow f (p @ [c]) = Inr q"
  shows "node_at f p = Some FDir \<and> q = p @ [c]"
  using assms(2) unfolding placed_def real_entry_def
proof (elim disjE exE conjE)
  assume "real_dir f p"
  then show ?thesis using assms(3) by (simp add: real_dir_node resolve_nofollow_real)
next
  fix d a s
  assume "p = d @ [a]" "real_dir f d" "ordinary a" "lookup_entry f p = Inr (FFile s)"
  moreover from this have "node_at f p = Some (FFile s)" by (auto simp: lookup_entry_def split: if_splits option.splits)
  moreover have "walk f kernel_links [] p = Inr p" using calculation by (simp add: walk_real_dir walk_ordinary)
  ultimately show ?thesis using assms(3) unfolding resolve_nofollow_def by (simp del: append_assoc)
next
  fix d a r
  assume "p = d @ a # r" "real_dir f d" "ordinary_path (a # r)" "lookup_entry f (d @ [a]) = Inl ENOENT"
  then have "walk f kernel_links [] p = Inl ENOENT" by (simp add: walk_real_dir walk_ordinary)
  then show ?thesis using assms(3) unfolding resolve_nofollow_def by (simp del: append_assoc)
qed

subsection \<open>The region of stored files\<close>

text \<open>
  Below the storage root: the visible entries with all they hold, and what lies in the trash's items
  folder. The root itself, the trash folder, its items folder and every other hidden entry (such as
  \<open>.dingbap\<close>) are not in it, and nothing outside the root is.
\<close>

definition inside :: "apath \<Rightarrow> apath \<Rightarrow> bool" where
  "inside root q \<longleftrightarrow> prefix root q \<and>
     (case drop (length root) q of
        [] \<Rightarrow> False
      | c # r \<Rightarrow> visible c \<or> c = trashDirName \<and> length r \<ge> 2 \<and> hd r = trashItemsDir)"

lemma inside_app: "inside root q \<Longrightarrow> inside root (q @ r)"
  by (auto simp: inside_def prefix_def hd_append split: list.splits)

lemma inside_visible: "visible_path v \<Longrightarrow> v \<noteq> [] \<Longrightarrow> inside root (root @ v)"
  by (cases v) (auto simp: inside_def)

lemma inside_item: "inside root (root @ [trashDirName, trashItemsDir] @ i # s)"
  by (simp add: inside_def)

lemma inside_not_prefix: "inside root q \<Longrightarrow> \<not> prefix q (root @ [trashDirName, trashItemsDir])"
proof
  assume a: "inside root q" "prefix q (root @ [trashDirName, trashItemsDir])"
  then obtain s where q: "q = root @ s" by (auto simp: inside_def prefix_def)
  with a(2) have "prefix s [trashDirName, trashItemsDir]" by simp
  then have "s = [] \<or> s = [trashDirName] \<or> s = [trashDirName, trashItemsDir]" by (auto simp: prefix_Cons)
  with a(1) show False by (auto simp: q inside_def visible_def trashDirName_def)
qed

definition confined :: "apath \<Rightarrow> fs \<Rightarrow> fs \<Rightarrow> bool" where
  "confined root f f' \<longleftrightarrow> same_faults f f' \<and> wf_fs f' \<and> (\<forall>q. \<not> inside root q \<longrightarrow> node_at f' q = node_at f q)"

lemma confined_refl: "wf_fs f \<Longrightarrow> confined root f f"
  by (simp add: confined_def same_faults_def)

lemma confined_trans: "confined root f f1 \<Longrightarrow> confined root f1 f2 \<Longrightarrow> confined root f f2"
  by (auto simp: confined_def same_faults_def)

lemma confined_wf: "confined root f f' \<Longrightarrow> wf_fs f'"
  by (simp add: confined_def)

lemma framed_confined: "framed p f f' \<Longrightarrow> inside root p \<Longrightarrow> confined root f f'"
  unfolding framed_def confined_def prefix_def by (metis inside_app)

text \<open>
  The setting: the real root is cached; the trash's items folder is a real directory below it; the file
  system is well formed. No operation below leaves it.
\<close>

definition tidy :: "path_env \<Rightarrow> apath \<Rightarrow> trashStore \<Rightarrow> fs \<Rightarrow> bool" where
  "tidy env root T f \<longleftrightarrow> cachedRealRoot env (rootDir env) = Some root \<and> trashRoot T = root @ [trashDirName] \<and>
     wf_fs f \<and> real_dir f (root @ [trashDirName, trashItemsDir])"

lemma tidyD:
  assumes "tidy env root T f"
  shows "storageRealRoot f env = Inr root" "wf_fs f" "real_dir f root" "real_dir f (root @ [trashDirName, trashItemsDir])"
    "node_at f (root @ [trashDirName, trashItemsDir]) = Some FDir"
  using assms real_dir_prefix [of f root] by (auto simp: tidy_def storageRealRoot_def real_dir_node)

lemma tidy_confined:
  assumes "tidy env root T f" "confined root f f'" "trashRoot T' = trashRoot T"
  shows "tidy env root T' f'"
proof -
  have "lookup_entry f' q = lookup_entry f q" if "prefix q (root @ [trashDirName, trashItemsDir])" for q
    using assms(2) that inside_not_prefix [of root q] unfolding confined_def same_faults_def lookup_entry_def by metis
  then have "real_dir f' (root @ [trashDirName, trashItemsDir])"
    using assms(1) by (simp add: tidy_def real_dir_def list_all_iff)
  then show ?thesis using assms by (auto simp: tidy_def dest: confined_wf)
qed

lemma safePath_tidy:
  assumes "tidy env root T f" "safePath f env rel = Inr p"
  obtains v where "p = root @ v" "visible_path v" "placed f p"
  using safePath_inside [OF tidyD(1,3) [OF assms(1)] assms(2)] by blast

lemma inside_dir:
  assumes "visible_path v" "visible c"
  shows "inside root ((root @ v) @ [c])"
  using inside_visible [of "v @ [c]" root] assms by simp

text \<open>A name in a directory \<open>safePath\<close> returned.\<close>

lemma safePath_dir:
  assumes "tidy env root T f" "safePath f env rel = Inr p" "os_Stat f p = Inr FDir"
  obtains v where "p = root @ v" "visible_path v" "node_at f p = Some FDir"
  using safePath_tidy [OF assms(1,2)] placed_entry assms(3) by metis

text \<open>An existing entry \<open>safePath\<close> returned.\<close>

lemma safePath_entry:
  assumes "tidy env root T f" "safePath f env rel = Inr p" "os_Stat f p = Inr n \<or> os_Lstat f p = Inr n"
  obtains (root) "p = root" "n = FDir"
  | (below) v c where "p = (root @ v) @ [c]" "visible_path v" "visible c" "node_at f (root @ v) = Some FDir" "node_at f p = Some n"
proof -
  obtain v where v: "p = root @ v" "visible_path v" "placed f p" using safePath_tidy [OF assms(1,2)] by blast
  have n: "node_at f p = Some n" using placed_entry [OF v(3) assms(3)] by blast
  show thesis
  proof (cases v rule: rev_cases)
    case Nil
    then show ?thesis using root v n real_dir_node [OF tidyD(3) [OF assms(1)]] by simp
  next
    case (snoc w c)
    then show ?thesis using below [of w c] v n wf_fsD [OF tidyD(2) [OF assms(1)], of "root @ w" c] by simp
  qed
qed

text \<open>Renaming inside the region.\<close>

lemma Rename_confined:
  assumes "wf_fs f" "node_at f sd = Some FDir" "node_at f dd = Some FDir" "ordinary dc"
    and "inside root (sd @ [sc])" "inside root (dd @ [dc])" "os_Rename f (sd @ [sc]) (dd @ [dc]) = Inr f'"
  shows "confined root f f'"
  using Rename_in_dirs [OF assms(1-4,7)] assms(5,6) unfolding confined_def prefix_def by (metis inside_app)

end
