(* ===== verification/Listing.thy ===== *)
theory Listing
  imports Region Auth
begin

text \<open>
  Directory listings and the search (\<open>handlers.go\<close>, \<open>listDirNodes\<close> and \<open>handleTree\<close>; \<open>search.go\<close>). Listings
  come from the cache of \<open>cache.go\<close> when it holds the directory. Main results: a listing from the
  cache shows the directory as it is while the cache is coherent; the search ends, and finds exactly the
  visible entries whose name contains the query.
\<close>

subsection \<open>Listing a directory\<close>

text \<open>An error, with what \<open>os.IsNotExist\<close> answers for it.\<close>

type_synonym dirErr = "bool \<times> error"

definition tree_node :: "path_env \<Rightarrow> fs \<Rightarrow> apath \<Rightarrow> string \<Rightarrow> string \<times> fnode \<Rightarrow> treeNode option" where
  "tree_node env f target rel e =
     (let (name, n) = e; childRel = pathJoin [rel, name] in
      if HasPrefix name ''.'' then None
      else if isl (safePath f env childRel) then None
      else Some \<lparr>tName = name, tPath = childRel, tIsDir = is_dir n,
             tSize = (if is_dir n then 0
                      else case os_Lstat f (join_abs target name) of Inl _ \<Rightarrow> 0 | Inr fi \<Rightarrow> node_size fi)\<rparr>)"

definition read_dir_nodes :: "path_env \<Rightarrow> fs \<Rightarrow> string \<Rightarrow> dirErr + treeNode list" where
  "read_dir_nodes env f rel =
     (case safePath f env rel of
        Inl e \<Rightarrow> Inl (False, e)
      | Inr target \<Rightarrow>
      (case os_Stat f target of
         Inl e \<Rightarrow> Inl (e = ENOENT, path_error ''stat'' target e)
       | Inr info \<Rightarrow>
      (if \<not> is_dir info then Inl (False, ''not a directory'')
       else case os_ReadDir f target of
         Inl e \<Rightarrow> Inl (e = ENOENT, path_error ''open'' target e)
       | Inr es \<Rightarrow> Inr (List.map_filter (tree_node env f target rel) es))))"

definition listDirNodes ::
  "path_env \<Rightarrow> fs \<Rightarrow> string \<Rightarrow> listingCache \<Rightarrow> (dirErr + treeNode list \<times> bool) \<times> listingCache"
where
  "listDirNodes env f rel c =
     (case cache_get rel c of
        (Some ns, c1) \<Rightarrow> (Inr (ns, True), c1)
      | (None, c1) \<Rightarrow>
          (case read_dir_nodes env f rel of
             Inl e \<Rightarrow> (Inl e, c1)
           | Inr ns \<Rightarrow> (Inr (ns, False), cache_set rel ns c1)))"

definition node_json :: "treeNode \<Rightarrow> json" where
  "node_json n = JObj ([(''name'', JStr (tName n)), (''path'', JStr (tPath n)), (''isDir'', JBool (tIsDir n))]
     @ (if tSize n = 0 then [] else [(''size'', JNum (tSize n))]))"

definition handleTree :: shandler where
  "handleTree G x r s =
     (let rel = rQuery r ''path''; f = srvFs s in
      if isl (safePath f (gPaths G) rel) then (jsonErr 400 ''Invalid path'', s)
      else case listDirNodes (gPaths G) f rel (srvCache s) of
        (Inl (notExist, e), c1) \<Rightarrow>
          (if notExist then jsonErr 404 ''Not found''
           else if Contains e ''not a directory'' then jsonErr 400 ''Path is not a directory''
           else jsonErr 500 ''Failed to read directory'', s\<lparr>srvCache := c1\<rparr>)
      | (Inr (ns, hit), c1) \<Rightarrow>
          (over_headers [(''X-Cache'', if hit then ''HIT'' else ''MISS'')] (writeJSON 200 (JArr (map node_json ns))),
           s\<lparr>srvCache := c1\<rparr>))"

subsection \<open>The search\<close>

definition searchMaxQueryLen :: nat where "searchMaxQueryLen = 200"
definition searchMaxResults :: nat where "searchMaxResults = 100"

text \<open>A hit shows what the node shows. The loop over the nodes of one directory: the queue, the hits so far, and whether the limit was reached.\<close>

fun search_nodes :: "unicode \<Rightarrow> string \<Rightarrow> nat \<Rightarrow> treeNode list \<Rightarrow> string list \<Rightarrow> treeNode list \<Rightarrow> string list \<times> treeNode list \<times> bool" where
  "search_nodes U needle limit [] queue hits = (queue, hits, False)"
| "search_nodes U needle limit (n # ns) queue hits =
     (let queue1 = (if tIsDir n then queue @ [tPath n] else queue) in
      if \<not> Contains (ToLower U (tName n)) needle then search_nodes U needle limit ns queue1 hits
      else let hits1 = hits @ [n\<lparr>tSize := (if tIsDir n then 0 else tSize n)\<rparr>] in
        if length hits1 \<ge> limit then (queue1, hits1, True)
        else search_nodes U needle limit ns queue1 hits1)"

text \<open>The loop over the queue; the first number bounds its rounds.\<close>

fun search_loop ::
  "unicode \<Rightarrow> path_env \<Rightarrow> fs \<Rightarrow> string \<Rightarrow> nat \<Rightarrow> nat \<Rightarrow> string list \<Rightarrow> treeNode list \<Rightarrow> listingCache \<Rightarrow>
   (treeNode list \<times> bool) \<times> listingCache"
where
  "search_loop U env f needle limit 0 queue hits c = ((hits, False), c)"
| "search_loop U env f needle limit (Suc k) queue hits c =
     (case queue of
        [] \<Rightarrow> ((hits, False), c)
      | rel # rest \<Rightarrow>
          (if length hits \<ge> limit then ((hits, False), c)
           else case listDirNodes env f rel c of
             (Inl _, c1) \<Rightarrow> search_loop U env f needle limit k rest hits c1
           | (Inr (ns, _), c1) \<Rightarrow>
               (case search_nodes U needle limit ns rest hits of
                  (_, hits1, True) \<Rightarrow> ((hits1, True), c1)
                | (rest1, hits1, False) \<Rightarrow> search_loop U env f needle limit k rest1 hits1 c1)))"

text \<open>Each directory is visited at most once, so one round more than there are entries is enough.\<close>

definition search_rounds :: "fs \<Rightarrow> nat" where
  "search_rounds f = length (nodes f) + 2"

definition searchInTree ::
  "unicode \<Rightarrow> path_env \<Rightarrow> fs \<Rightarrow> string \<Rightarrow> nat \<Rightarrow> listingCache \<Rightarrow> (treeNode list \<times> bool) \<times> listingCache"
where
  "searchInTree U env f needle limit c = search_loop U env f needle limit (search_rounds f) [[]] [] c"

definition handleSearch :: shandler where
  "handleSearch G x r s =
     (let q = TrimSpace (rQuery r ''q'') in
      if q = [] then (writeJSON 200 (JObj [(''ok'', JBool True), (''query'', JStr q), (''results'', JArr [])]), s)
      else if RuneCount q > searchMaxQueryLen then (jsonErr 400 ''Query too long'', s)
      else let ((hits, limited), c1) = searchInTree (gU G) (gPaths G) (srvFs s) (ToLower (gU G) q) searchMaxResults (srvCache s)
           in (writeJSON 200 (JObj [(''limited'', JBool limited), (''ok'', JBool True), (''query'', JStr q),
                 (''results'', JArr (map node_json hits))]), s\<lparr>srvCache := c1\<rparr>))"

subsection \<open>Paths of listed entries\<close>

lemma split_on_append: "split_on c (a @ c # b) = split_on c a @ split_on c b"
proof (induction a)
  case (Cons x a)
  obtain p ps where "split_on c a = p # ps" by (cases "split_on c a") auto
  with Cons show ?case by simp
qed simp

lemma request_comps_eq: "request_comps rel = rev (foldl (clean_step True) [] (split_on slash (ReplaceByte rel backslash ''/'')))"
  by (simp add: request_comps_def apath_of_def clean_comps_def)

lemma ReplaceByte_append: "ReplaceByte (a @ b) c d = ReplaceByte a c d @ ReplaceByte b c d"
  by (simp add: ReplaceByte_def)

lemma request_comps_sep:
  assumes "c = slash \<or> c = backslash"
  shows "request_comps (c # rel) = request_comps rel" "request_comps (rel @ [c]) = request_comps rel"
  using assms split_on_append [of slash "ReplaceByte rel backslash ''/''" "[]"]
  by (auto simp: request_comps_eq ReplaceByte_append) (auto simp: ReplaceByte_def)

lemma request_comps_trim:
  assumes "set cs \<subseteq> {slash, backslash}"
  shows "request_comps (Trim rel cs) = request_comps rel"
proof -
  have l: "request_comps (TrimLeft s cs) = request_comps s" for s
    using assms by (induction s) (auto simp: TrimLeft_def request_comps_sep)
  have "request_comps (TrimRight s cs) = request_comps s" for s
    using assms by (induction s rule: rev_induct) (auto simp: TrimRight_def request_comps_sep)
  with l show ?thesis by (simp add: Trim_def)
qed

lemma request_comps_name: "ordinary c \<Longrightarrow> backslash \<notin> set c \<Longrightarrow> request_comps c = [c]"
  by (simp add: request_comps_eq ReplaceByte_id split_on_fresh ordinary_def clean_step.simps)

lemma request_comps_child:
  assumes "ordinary c" "backslash \<notin> set c"
  shows "request_comps (pathJoin [rel, c]) = request_comps rel @ [c]"
proof -
  have c: "c \<noteq> []" "c \<noteq> ''.''" "slash \<notin> set c" using assms(1) by (auto simp: ordinary_def)
  then have "hd c \<noteq> slash" "last c \<noteq> slash" by (metis hd_in_set, metis last_in_set)
  then have t: "Trim c ''/'' = c" by (intro Trim_id) simp
  show ?thesis
  proof (cases "Trim rel ''/'' = [] \<or> Trim rel ''/'' = ''.''")
    case True
    then have "request_comps rel = []" using request_comps_trim [of "''/''" rel] by (auto simp: request_comps_eq ReplaceByte_def)
    moreover have "pathJoin [rel, c] = c" using True t c by (auto simp: pathJoin_def)
    ultimately show ?thesis using request_comps_name [OF assms] by simp
  next
    case False
    then have "pathJoin [rel, c] = Trim rel ''/'' @ slash # c" using t c by (simp add: pathJoin_def)
    then have "request_comps (pathJoin [rel, c]) = request_comps (Trim rel ''/'') @ [c]"
      using assms by (simp add: request_comps_eq ReplaceByte_append split_on_append ReplaceByte_id split_on_fresh ordinary_def
          clean_step.simps)
    then show ?thesis using request_comps_trim [of "''/''" rel] by simp
  qed
qed

subsection \<open>What a listing shows\<close>

text \<open>
  The storage as the listings need it: a real root, no entry that cannot be read, and no name with a
  backslash or a NUL byte (the program makes none; such a name would be listed under a path that leads elsewhere).
\<close>

definition readable :: "path_env \<Rightarrow> apath \<Rightarrow> fs \<Rightarrow> bool" where
  "readable env root f \<longleftrightarrow> storageRealRoot f env = Inr root \<and> real_dir f root \<and> wf_fs f \<and> rfail f = (\<lambda>_. False) \<and>
     (\<forall>e\<in>set (nodes f). \<forall>c\<in>set (fst e). backslash \<notin> set c \<and> nul \<notin> set c)"

definition link_ok :: "fs \<Rightarrow> apath \<Rightarrow> apath \<Rightarrow> bool" where
  "link_ok f root v \<longleftrightarrow> \<not> isl (resolve_parts f root root v)"

text \<open>The entries that are shown: visible ones, links only when they lead to a visible place inside.\<close>

definition shown :: "fs \<Rightarrow> apath \<Rightarrow> apath \<Rightarrow> bool" where
  "shown f root v \<longleftrightarrow> visible_path v \<and> v \<noteq> [] \<and>
     (case node_at f (root @ v) of None \<Rightarrow> False | Some (FLink _) \<Rightarrow> link_ok f root v | Some _ \<Rightarrow> True)"

lemma readableD:
  assumes "readable env root f"
  shows "storageRealRoot f env = Inr root" "real_dir f root" "wf_fs f" "rfail f = (\<lambda>_. False)"
  using assms by (simp_all add: readable_def)

lemma readable_name:
  assumes "readable env root f" "node_at f (p @ [c]) \<noteq> None"
  shows "backslash \<notin> set c \<and> nul \<notin> set c"
proof -
  obtain n where "(p @ [c], n) \<in> set (nodes f)" using assms(2) by (auto simp: node_at_def dest: map_of_SomeD)
  then show ?thesis using assms(1) unfolding readable_def by (metis fst_conv in_set_conv_decomp)
qed

lemma real_dir_wf:
  assumes "wf_fs f" "rfail f = (\<lambda>_. False)"
  shows "node_at f p = Some FDir \<Longrightarrow> real_dir f p"
proof (induction p rule: rev_induct)
  case (snoc c p)
  then show ?case using wf_fsD [OF assms(1), of p c] assms(2) by (simp add: real_dir_snoc lookup_entry_def)
qed simp

lemma real_entry_wf:
  assumes "wf_fs f" "rfail f = (\<lambda>_. False)" "node_at f p = Some n" "\<And>t. n \<noteq> FLink t"
  shows "real_entry f p"
proof (cases n)
  case FDir
  then show ?thesis using real_dir_wf [OF assms(1,2)] assms(3) by (simp add: real_entry_dirI)
next
  case (FFile b)
  then obtain d c where "p = d @ [c]" using assms(3) by (cases p rule: rev_cases) (auto simp: node_at_def)
  then show ?thesis
    using wf_fsD [OF assms(1), of d c] real_dir_wf [OF assms(1,2), of d] assms(2,3) FFile
    by (auto simp: real_entry_def lookup_entry_def)
qed (use assms(4) in simp)

text \<open>A directory reached by its own path.\<close>

lemma safePath_of_dir:
  assumes "readable env root f" "nul \<notin> set rel" "visible_path (request_comps rel)" "node_at f (root @ request_comps rel) = Some FDir"
  shows "safePath f env rel = Inr (root @ request_comps rel)"
  using safePath_exact [OF readableD(1,2) [OF assms(1)] assms(2,3)] real_entry_wf [OF readableD(3,4) [OF assms(1)] assms(4)] by simp

lemma set_pathJoin: "set (pathJoin ps) \<subseteq> insert slash (\<Union> (set ` set ps))"
proof -
  have "set (join_with ''/'' xs) \<subseteq> insert slash (\<Union> (set ` set xs))" for xs :: "string list"
    by (induction xs rule: induct_list012) auto
  then show ?thesis using set_Trim unfolding pathJoin_def by fastforce
qed

lemma safePath_of_child:
  assumes "readable env root f" "nul \<notin> set rel" "visible_path (request_comps rel)"
    and "visible c" "node_at f (root @ request_comps rel @ [c]) = Some n"
  shows "isl (safePath f env (pathJoin [rel, c])) \<longleftrightarrow> \<not> shown f root (request_comps rel @ [c])"
proof -
  have c: "backslash \<notin> set c \<and> nul \<notin> set c" using readable_name [OF assms(1), of "root @ request_comps rel" c] assms(5) by simp
  then have comps: "request_comps (pathJoin [rel, c]) = request_comps rel @ [c]"
    using request_comps_child visible_ordinary [OF assms(4)] by blast
  have nul: "nul \<notin> set (pathJoin [rel, c])" using set_pathJoin [of "[rel, c]"] assms(2) c by fastforce
  have v: "visible_path (request_comps rel @ [c])" using assms(3,4) by simp
  show ?thesis
  proof (cases "\<exists>t. n = FLink t")
    case True
    have "scan_segments (request_comps rel @ [c]) = None"
      using v request_comps_ordinary visible_ordinary [OF assms(4)] by (simp add: scan_segments_ordinary)
    then have "safePath f env (pathJoin [rel, c]) = resolve_parts f root root (request_comps rel @ [c])"
      using safePath_eq [OF readableD(1) [OF assms(1)] nul] comps by simp
    then show ?thesis using True assms(5) v by (auto simp: shown_def link_ok_def)
  next
    case False
    then have "safePath f env (pathJoin [rel, c]) = Inr (root @ request_comps rel @ [c])"
      using safePath_exact [OF readableD(1,2) [OF assms(1)] nul] comps v
        real_entry_wf [OF readableD(3,4) [OF assms(1)] assms(5)] by simp
    then show ?thesis using False v assms(5) by (auto simp: shown_def split: fnode.splits)
  qed
qed

text \<open>A node that stands for the entry at \<open>v\<close>.\<close>

definition node_for :: "fs \<Rightarrow> apath \<Rightarrow> apath \<Rightarrow> treeNode \<Rightarrow> bool" where
  "node_for f root v n \<longleftrightarrow> request_comps (tPath n) = v \<and> nul \<notin> set (tPath n) \<and> v \<noteq> [] \<and> tName n = last v \<and>
     (case node_at f (root @ v) of None \<Rightarrow> False
      | Some m \<Rightarrow> tIsDir n = is_dir m \<and> tSize n = (if is_dir m then 0 else node_size m))"

lemma read_dir_correct:
  assumes "readable env root f" "nul \<notin> set rel" "visible_path (request_comps rel)" "node_at f (root @ request_comps rel) = Some FDir"
  obtains ns where "read_dir_nodes env f rel = Inr ns" "distinct (map tName ns)"
    "\<And>n. n \<in> set ns \<Longrightarrow> shown f root (request_comps rel @ [tName n]) \<and> node_for f root (request_comps rel @ [tName n]) n"
    "\<And>c. shown f root (request_comps rel @ [c]) \<Longrightarrow> \<exists>n\<in>set ns. tName n = c"
proof -
  let ?v = "request_comps rel" and ?t = "root @ request_comps rel"
  note wf = readableD(3) [OF assms(1)] and rf = readableD(4) [OF assms(1)]
  have sp: "safePath f env rel = Inr ?t" using safePath_of_dir [OF assms] .
  have rd: "real_dir f ?t" using real_dir_wf [OF wf rf assms(4)] .
  have st: "os_Stat f ?t = Inr FDir" using os_Stat_real_dir [OF rd] rf by simp
  obtain es where es: "os_ReadDir f ?t = Inr es"
    using walk_real_dir_id [OF rd, of kernel_links] assms(4) rf by (auto simp: os_ReadDir_def lookup_entry_def is_dir_def)
  note dir = os_ReadDir_dir [OF wf assms(4) es]
  let ?ns = "List.map_filter (tree_node env f ?t rel) es"
  have mk: "tree_node env f ?t rel (c, m) = (if shown f root (?v @ [c]) then
      Some \<lparr>tName = c, tPath = pathJoin [rel, c], tIsDir = is_dir m, tSize = (if is_dir m then 0 else node_size m)\<rparr> else None)"
    if "(c, m) \<in> set es" for c m
  proof -
    have n: "node_at f (?t @ [c]) = Some m" using dir(3) that .
    then have o: "ordinary c" using wf_fsD [OF wf, of ?t c] by simp
    have "os_Lstat f (join_abs ?t c) = Inr m"
      using os_Lstat_real [OF rd, of c] n rf o by (simp add: join_abs_ordinary_name lookup_entry_def)
    moreover have "HasPrefix c ''.'' \<Longrightarrow> \<not> shown f root (?v @ [c])" by (simp add: shown_def visible_def)
    moreover have "\<not> HasPrefix c ''.'' \<Longrightarrow> isl (safePath f env (pathJoin [rel, c])) = (\<not> shown f root (?v @ [c]))"
      using safePath_of_child [OF assms(1-3), of c m] o n by (simp add: visible_def)
    ultimately show ?thesis by (simp add: tree_node_def Let_def)
  qed
  have ns: "?ns = map (\<lambda>e. the (tree_node env f ?t rel e)) (filter (\<lambda>e. shown f root (?v @ [fst e])) es)"
  proof -
    have "filter (\<lambda>e. tree_node env f ?t rel e \<noteq> None) es = filter (\<lambda>e. shown f root (?v @ [fst e])) es"
      by (rule filter_cong [OF refl]) (auto simp: mk split: if_splits)
    then show ?thesis by (simp add: map_filter_eq comp_def)
  qed
  have nm: "map tName ?ns = map fst (filter (\<lambda>e. shown f root (?v @ [fst e])) es)"
    unfolding ns map_map by (rule map_cong [OF refl]) (auto simp: mk)
  have "distinct (map tName ?ns)" unfolding nm using dir(1) by (rule distinct_map_filter)
  moreover have "read_dir_nodes env f rel = Inr ?ns" using sp st es by (simp add: read_dir_nodes_def is_dir_def)
  moreover have "shown f root (?v @ [tName n]) \<and> node_for f root (?v @ [tName n]) n" if "n \<in> set ?ns" for n
  proof -
    obtain c m where e: "(c, m) \<in> set es" "shown f root (?v @ [c])" "n = the (tree_node env f ?t rel (c, m))"
      using \<open>n \<in> set ?ns\<close> unfolding ns by auto
    have m: "node_at f (?t @ [c]) = Some m" using dir(3) e(1) .
    have c: "ordinary c" "backslash \<notin> set c" "nul \<notin> set c"
      using wf_fsD [OF wf, of ?t c] readable_name [OF assms(1), of ?t c] m by auto
    have "nul \<notin> set (pathJoin [rel, c])" using set_pathJoin [of "[rel, c]"] assms(2) c by fastforce
    then show ?thesis using e(2,3) m mk [OF e(1)] request_comps_child [OF c(1,2)] by (simp add: node_for_def)
  qed
  moreover have "\<exists>n\<in>set ?ns. tName n = c" if "shown f root (?v @ [c])" for c
  proof -
    have "node_at f (?t @ [c]) \<noteq> None" using that by (auto simp: shown_def split: option.splits)
    then have "c \<in> set (map fst es)" using dir(2) by blast
    then have "c \<in> set (map tName ?ns)" unfolding nm using that by force
    then show ?thesis by auto
  qed
  ultimately show ?thesis using that by blast
qed

subsection \<open>The cache\<close>

text \<open>Every listing held is what reading the directory gives now, under some spelling of its path.\<close>

definition coherent :: "path_env \<Rightarrow> fs \<Rightarrow> listingCache \<Rightarrow> bool" where
  "coherent env f c \<longleftrightarrow> cache_ok c \<and>
     (\<forall>k ns. (k, ns) \<in> set (cache_entries c) \<longrightarrow> (\<exists>rel. cacheKey rel = k \<and> read_dir_nodes env f rel = Inr ns))"

lemma cacheKey_comps: "cacheKey rel = cacheKey rel' \<Longrightarrow> request_comps rel = request_comps rel'"
  unfolding cacheKey_def by (metis empty_set list.simps(15) order_refl request_comps_trim)

lemma read_dir_nul: "read_dir_nodes env f rel = Inr ns \<Longrightarrow> nul \<notin> set rel"
  by (auto simp: read_dir_nodes_def safePath_def resolveUnderRoot_def)

lemma to_front_set: "set (to_front k es) \<subseteq> set es"
  by (auto simp: to_front_def adel_def split: option.splits dest: map_of_SomeD)

lemma listDirNodes_coherent:
  assumes "coherent env f c" "listDirNodes env f rel c = (r, c')"
  shows "coherent env f c' \<and> (case r of
      Inl e \<Rightarrow> read_dir_nodes env f rel = Inl e
    | Inr (ns, hit) \<Rightarrow> \<exists>rel'. cacheKey rel' = cacheKey rel \<and> read_dir_nodes env f rel' = Inr ns)"
proof -
  have ok: "cache_ok c" and coh: "\<And>k ns. (k, ns) \<in> set (cache_entries c) \<Longrightarrow> \<exists>rel. cacheKey rel = k \<and> read_dir_nodes env f rel = Inr ns"
    using assms(1) by (auto simp: coherent_def)
  obtain g c1 where g: "cache_get rel c = (g, c1)" by (meson surj_pair)
  have g': "g = map_of (cache_entries c) (cacheKey rel)" "set (cache_entries c1) \<subseteq> set (cache_entries c)" "cache_ok c1"
    using cache_get_refines [OF ok g] to_front_set [of "cacheKey rel" "cache_entries c"] by auto
  have c1: "coherent env f c1" using g' coh by (auto simp: coherent_def)
  show ?thesis
  proof (cases g)
    case (Some ns)
    then have "(cacheKey rel, ns) \<in> set (cache_entries c)" using g'(1) by (auto dest: map_of_SomeD)
    then show ?thesis using coh c1 Some g assms(2) by (auto simp: listDirNodes_def)
  next
    case None
    have st: "coherent env f (cache_set rel ns c1)" if "read_dir_nodes env f rel = Inr ns" for ns
    proof -
      have "set (cache_entries (cache_set rel ns c1)) \<subseteq> insert (cacheKey rel, ns) (set (cache_entries c1))"
        using cache_set_refines [OF g'(3), of rel ns] by (auto simp: adel_def dest: in_set_takeD)
      then show ?thesis using c1 cache_set_refines [OF g'(3), of rel ns] that by (auto simp: coherent_def)
    qed
    show ?thesis using None g assms(2) c1 st by (auto simp: listDirNodes_def split: sum.splits)
  qed
qed

lemma coherent_empty: "cache_ok c \<Longrightarrow> cache_entries c = [] \<Longrightarrow> coherent env f c"
  by (simp add: coherent_def)

lemma listing_ok:
  assumes "readable env root f" and "coherent env f c" and "nul \<notin> set rel"
    and "visible_path (request_comps rel)" and "node_at f (root @ request_comps rel) = Some FDir"
  shows "\<exists>ns hit c'. listDirNodes env f rel c = (Inr (ns, hit), c') \<and> coherent env f c' \<and> distinct (map tName ns) \<and>
    tName ` set ns = {a. shown f root (request_comps rel @ [a])} \<and>
    (\<forall>n\<in>set ns. node_for f root (request_comps rel @ [tName n]) n)"
proof -
  obtain r c' where l: "listDirNodes env f rel c = (r, c')" by (meson surj_pair)
  note lc = listDirNodes_coherent [OF assms(2) l]
  obtain ns0 where ns0: "read_dir_nodes env f rel = Inr ns0" using read_dir_correct [OF assms(1,3-5)] by metis
  with lc obtain ns hit where r: "r = Inr (ns, hit)" by (cases r) auto
  with lc obtain rel' where rel': "cacheKey rel' = cacheKey rel" "read_dir_nodes env f rel' = Inr ns" by auto
  note k = cacheKey_comps [OF rel'(1)] and nul = read_dir_nul [OF rel'(2)]
  obtain ns' where "read_dir_nodes env f rel' = Inr ns'" "distinct (map tName ns')"
    "\<And>n. n \<in> set ns' \<Longrightarrow> shown f root (request_comps rel' @ [tName n]) \<and> node_for f root (request_comps rel' @ [tName n]) n"
    "\<And>a. shown f root (request_comps rel' @ [a]) \<Longrightarrow> \<exists>n\<in>set ns'. tName n = a"
    using read_dir_correct [OF assms(1) nul] assms(4,5) k by metis
  with rel'(2) k have "distinct (map tName ns)" "tName ` set ns = {a. shown f root (request_comps rel @ [a])}"
    "\<forall>n\<in>set ns. node_for f root (request_comps rel @ [tName n]) n" by auto
  with l r lc show ?thesis by blast
qed


subsection \<open>The search ends and is right\<close>

definition dirs_below :: "fs \<Rightarrow> apath \<Rightarrow> apath set" where
  "dirs_below f p = {q. prefix p q \<and> node_at f q = Some FDir}"

lemma dirs_below_subset: "dirs_below f p \<subseteq> insert [] (fst ` set (nodes f))"
  by (force simp: dirs_below_def node_at_def image_iff split: if_splits dest!: map_of_SomeD)

lemma finite_dirs: "finite (dirs_below f p)"
  by (rule finite_subset [OF dirs_below_subset]) simp

lemma card_dirs: "card (dirs_below f p) \<le> length (nodes f) + 1"
proof -
  have "card (dirs_below f p) \<le> card (insert [] (fst ` set (nodes f)))" by (intro card_mono dirs_below_subset) simp
  also have "\<dots> \<le> Suc (card (fst ` set (nodes f)))" by (rule card_insert_le_m1) simp_all
  also have "\<dots> \<le> length (nodes f) + 1" using card_length [of "map fst (nodes f)"] by simp
  finally show ?thesis .
qed

text \<open>The weight of a queue: the directories at or below its elements.\<close>

definition weight :: "fs \<Rightarrow> apath \<Rightarrow> string list \<Rightarrow> nat" where
  "weight f root queue = sum_list (map (\<lambda>q. card (dirs_below f (root @ request_comps q))) queue)"

lemma weight_append [simp]: "weight f root (a @ b) = weight f root a + weight f root b"
  by (simp add: weight_def)

text \<open>The folders in a directory weigh less than the directory.\<close>

lemma card_children:
  assumes "distinct cs" "node_at f p = Some FDir"
  shows "sum_list (map (\<lambda>c. card (dirs_below f (p @ [c]))) cs) + 1 \<le> card (dirs_below f p)"
proof -
  have disj: "dirs_below f (p @ [a]) \<inter> dirs_below f (p @ [b]) = {}" if "a \<noteq> b" for a b
    using that by (auto simp: dirs_below_def prefix_def)
  have "sum_list (map (\<lambda>c. card (dirs_below f (p @ [c]))) cs) = (\<Sum>c\<in>set cs. card (dirs_below f (p @ [c])))"
    using assms(1) by (simp add: sum_list_distinct_conv_sum_set)
  also have "\<dots> = card (\<Union>c\<in>set cs. dirs_below f (p @ [c]))"
    using finite_dirs disj by (subst card_UN_disjoint) auto
  also have "\<dots> + 1 = card (insert p (\<Union>c\<in>set cs. dirs_below f (p @ [c])))"
  proof -
    have "p \<notin> (\<Union>c\<in>set cs. dirs_below f (p @ [c]))" by (auto simp: dirs_below_def dest: prefix_length_le)
    then show ?thesis using finite_dirs by simp
  qed
  also have "\<dots> \<le> card (dirs_below f p)"
    by (rule card_mono [OF finite_dirs]) (use assms(2) in \<open>auto simp: dirs_below_def dest: append_prefixD\<close>)
  finally show ?thesis by simp
qed

definition hit_of :: "treeNode \<Rightarrow> treeNode" where
  "hit_of n = n\<lparr>tSize := (if tIsDir n then 0 else tSize n)\<rparr>"

abbreviation hits_in :: "unicode \<Rightarrow> string \<Rightarrow> treeNode list \<Rightarrow> treeNode list" where
  "hits_in U nd ns \<equiv> map hit_of (filter (\<lambda>n. Contains (ToLower U (tName n)) nd) ns)"

lemma search_nodes_spec:
  "search_nodes U nd limit ns queue hits = (q1, h1, lim) \<Longrightarrow> length hits < limit \<Longrightarrow>
    length h1 \<le> limit \<and> (lim \<longleftrightarrow> length h1 = limit) \<and> set h1 \<subseteq> set hits \<union> set (hits_in U nd ns) \<and>
    (\<not> lim \<longrightarrow> q1 = queue @ map tPath (filter tIsDir ns) \<and> h1 = hits @ hits_in U nd ns)"
proof (induction ns arbitrary: queue hits)
  case (Cons n ns)
  define q where "q = (if tIsDir n then queue @ [tPath n] else queue)"
  show ?case
  proof (cases "Contains (ToLower U (tName n)) nd")
    case False
    then have "search_nodes U nd limit ns q hits = (q1, h1, lim)" using Cons.prems(1) by (simp add: q_def)
    from Cons.IH [OF this Cons.prems(2)] False show ?thesis by (simp add: q_def)
  next
    case True
    show ?thesis
    proof (cases "length (hits @ [hit_of n]) \<ge> limit")
      case lim: True
      then have "q1 = q" "h1 = hits @ [hit_of n]" "lim" using Cons.prems(1) True by (auto simp: q_def hit_of_def)
      then show ?thesis using lim Cons.prems(2) True by auto
    next
      case more: False
      then have "search_nodes U nd limit ns q (hits @ [hit_of n]) = (q1, h1, lim)"
        using Cons.prems(1) True by (simp add: q_def hit_of_def)
      moreover have "length (hits @ [hit_of n]) < limit" using more by simp
      ultimately have "length h1 \<le> limit \<and> (lim \<longleftrightarrow> length h1 = limit) \<and> set h1 \<subseteq> set (hits @ [hit_of n]) \<union> set (hits_in U nd ns) \<and>
          (\<not> lim \<longrightarrow> q1 = q @ map tPath (filter tIsDir ns) \<and> h1 = (hits @ [hit_of n]) @ hits_in U nd ns)"
        by (rule Cons.IH)
      then show ?thesis using True by (simp add: q_def)
    qed
  qed
qed simp

lemma search_nodes_prefix: "search_nodes U nd limit ns queue hits = (q1, h1, l) \<Longrightarrow> prefix hits h1"
proof (induction ns arbitrary: queue hits)
  case (Cons n ns)
  then show ?case by (auto simp: Let_def split: if_splits dest: append_prefixD)
qed simp

text \<open>What a hit must be.\<close>

definition good_hit :: "unicode \<Rightarrow> string \<Rightarrow> fs \<Rightarrow> apath \<Rightarrow> treeNode \<Rightarrow> bool" where
  "good_hit U nd f root h \<longleftrightarrow> (\<exists>w. shown f root w \<and> node_for f root w h \<and> Contains (ToLower U (last w)) nd)"

definition queue_ok :: "fs \<Rightarrow> apath \<Rightarrow> string list \<Rightarrow> bool" where
  "queue_ok f root queue \<longleftrightarrow> (\<forall>q\<in>set queue. nul \<notin> set q \<and> visible_path (request_comps q) \<and> node_at f (root @ request_comps q) = Some FDir)"

lemma search_round:
  assumes "readable env root f" "coherent env f c" "queue_ok f root (q # rest)"
  obtains ns hit c1 where "listDirNodes env f q c = (Inr (ns, hit), c1)" "coherent env f c1"
    "queue_ok f root (rest @ map tPath (filter tIsDir ns))"
    "weight f root (rest @ map tPath (filter tIsDir ns)) + 1 \<le> weight f root (q # rest)"
    "\<And>h. h \<in> set (hits_in U nd ns) \<Longrightarrow> good_hit U nd f root h"
    "\<And>w. shown f root w \<Longrightarrow> Contains (ToLower U (last w)) nd \<Longrightarrow> strict_prefix (request_comps q) w \<Longrightarrow>
       (\<exists>h\<in>set (hits_in U nd ns). request_comps (tPath h) = w) \<or>
       (\<exists>p\<in>set (map tPath (filter tIsDir ns)). strict_prefix (request_comps p) w)"
proof -
  let ?v = "request_comps q"
  have q: "nul \<notin> set q" "visible_path ?v" "node_at f (root @ ?v) = Some FDir" and rest: "queue_ok f root rest"
    using assms(3) by (auto simp: queue_ok_def)
  obtain ns hit c1 where l: "listDirNodes env f q c = (Inr (ns, hit), c1)" "coherent env f c1" "distinct (map tName ns)"
    "tName ` set ns = {a. shown f root (?v @ [a])}" "\<And>n. n \<in> set ns \<Longrightarrow> node_for f root (?v @ [tName n]) n"
    using listing_ok [OF assms(1,2) q] by blast
  have sh: "shown f root (?v @ [tName n])" if "n \<in> set ns" for n using l(4) that by blast
  have comps: "request_comps (tPath n) = ?v @ [tName n] \<and> nul \<notin> set (tPath n)" if "n \<in> set ns" for n
    using l(5) [OF that] by (simp add: node_for_def)
  have dir: "node_at f (root @ ?v @ [tName n]) = Some FDir \<longleftrightarrow> tIsDir n" if "n \<in> set ns" for n
    using l(5) [OF that] by (auto simp: node_for_def is_dir_def split: option.splits)
  have hit: "hit_of n = n" if "n \<in> set ns" for n
    using l(5) [OF that] by (auto simp: node_for_def hit_of_def split: option.splits)
  have "queue_ok f root (rest @ map tPath (filter tIsDir ns))"
    using rest comps dir sh by (auto simp: queue_ok_def shown_def)
  moreover have "weight f root (rest @ map tPath (filter tIsDir ns)) + 1 \<le> weight f root (q # rest)"
  proof -
    have "weight f root (map tPath (filter tIsDir ns)) =
        sum_list (map (\<lambda>a. card (dirs_below f ((root @ ?v) @ [a]))) (map tName (filter tIsDir ns)))"
      unfolding weight_def map_map comp_def using comps by (intro arg_cong [of _ _ sum_list] map_cong) auto
    moreover have "distinct (map tName (filter tIsDir ns))" using l(3) by (rule distinct_map_filter)
    ultimately show ?thesis
      using card_children [OF _ q(3), of "map tName (filter tIsDir ns)"] by (simp add: weight_def)
  qed
  moreover have "good_hit U nd f root h" if "h \<in> set (hits_in U nd ns)" for h
  proof -
    obtain n where "n \<in> set ns" "Contains (ToLower U (tName n)) nd" "h = hit_of n" using \<open>h \<in> _\<close> by auto
    then show ?thesis using sh l(5) hit by (auto simp: good_hit_def intro!: exI [of _ "?v @ [tName n]"])
  qed
  moreover have "(\<exists>h\<in>set (hits_in U nd ns). request_comps (tPath h) = w) \<or>
      (\<exists>p\<in>set (map tPath (filter tIsDir ns)). strict_prefix (request_comps p) w)"
    if w: "shown f root w" "Contains (ToLower U (last w)) nd" "strict_prefix ?v w" for w
  proof -
    obtain z where z: "w = ?v @ z" "z \<noteq> []" using w(3) by (auto simp: strict_prefix_def prefix_def)
    then obtain a r where ar: "w = ?v @ a # r" by (cases z) auto
    have nw: "node_at f ((root @ ?v @ [a]) @ r) \<noteq> None" using w(1) ar by (auto simp: shown_def split: option.splits)
    show ?thesis
    proof (cases "r = []")
      case True
      then obtain n where n: "n \<in> set ns" "tName n = a" using l(4) w(1) ar by force
      then have "hit_of n \<in> set (hits_in U nd ns)" using w(2) ar True by auto
      then show ?thesis using n comps hit ar True by auto
    next
      case False
      have d: "node_at f (root @ ?v @ [a]) = Some FDir" using wf_fs_parent [OF readableD(3) [OF assms(1)] nw False] .
      then have "shown f root (?v @ [a])" using w(1) ar by (auto simp: shown_def)
      then obtain n where n: "n \<in> set ns" "tName n = a" using l(4) by force
      then have "tPath n \<in> set (map tPath (filter tIsDir ns))" using dir d by auto
      moreover have "strict_prefix (request_comps (tPath n)) w" using comps n ar False by (simp add: strict_prefix_def)
      ultimately show ?thesis by blast
    qed
  qed
  ultimately show ?thesis using that l(1,2) by blast
qed

lemma search_loop_ok:
  assumes "readable env root f"
  shows "coherent env f c \<Longrightarrow> queue_ok f root queue \<Longrightarrow> length hits < limit \<Longrightarrow> weight f root queue < k \<Longrightarrow>
    \<forall>h\<in>set hits. good_hit U nd f root h \<Longrightarrow> search_loop U env f nd limit k queue hits c = ((hs, lim), c') \<Longrightarrow>
    coherent env f c' \<and> length hs \<le> limit \<and> (lim \<longleftrightarrow> length hs = limit) \<and> (\<forall>h\<in>set hs. good_hit U nd f root h) \<and> set hits \<subseteq> set hs \<and>
    (\<not> lim \<longrightarrow> (\<forall>w q. shown f root w \<longrightarrow> Contains (ToLower U (last w)) nd \<longrightarrow> q \<in> set queue \<longrightarrow> strict_prefix (request_comps q) w \<longrightarrow>
       (\<exists>h\<in>set hs. request_comps (tPath h) = w)))"
    and "coherent env f c \<Longrightarrow> queue_ok f root queue \<Longrightarrow> length hits < limit \<Longrightarrow> weight f root queue < k \<Longrightarrow>
      search_loop U env f nd limit (k + j) queue hits c = search_loop U env f nd limit k queue hits c"
proof (induction k arbitrary: queue hits c)
  case (Suc k)
  {
    case 1
    show ?case
    proof (cases queue)
      case Nil
      then show ?thesis using 1 by auto
    next
      case (Cons q rest)
      have qk: "queue_ok f root (q # rest)" using 1 Cons by simp
      obtain ns hit c1 where r: "listDirNodes env f q c = (Inr (ns, hit), c1)" "coherent env f c1"
        "queue_ok f root (rest @ map tPath (filter tIsDir ns))"
        "weight f root (rest @ map tPath (filter tIsDir ns)) + 1 \<le> weight f root (q # rest)"
        "\<And>h. h \<in> set (hits_in U nd ns) \<Longrightarrow> good_hit U nd f root h"
        "\<And>w. shown f root w \<Longrightarrow> Contains (ToLower U (last w)) nd \<Longrightarrow> strict_prefix (request_comps q) w \<Longrightarrow>
          (\<exists>h\<in>set (hits_in U nd ns). request_comps (tPath h) = w) \<or>
          (\<exists>p\<in>set (map tPath (filter tIsDir ns)). strict_prefix (request_comps p) w)"
        using search_round [OF assms 1(1) qk, of U nd] by metis
      obtain q1 h1 l where s: "search_nodes U nd limit ns rest hits = (q1, h1, l)" by (metis prod_cases3)
      note sp = search_nodes_spec [OF s 1(3)]
      have good1: "\<forall>h\<in>set h1. good_hit U nd f root h" using sp 1(5) r(5) by blast
      show ?thesis
      proof (cases l)
        case True
        then have "hs = h1 \<and> lim \<and> c' = c1" using 1(3,6) Cons r(1) s by simp
        moreover have "set hits \<subseteq> set h1"
          using search_nodes_prefix [OF s] by (auto simp: prefix_def)
        ultimately show ?thesis using sp True good1 r(2) by blast
      next
        case False
        then have sp': "q1 = rest @ map tPath (filter tIsDir ns)" "h1 = hits @ hits_in U nd ns" "length h1 < limit" using sp by auto
        have rec: "search_loop U env f nd limit k q1 h1 c1 = ((hs, lim), c')" using 1(3,6) Cons r(1) s False by simp
        have w: "weight f root q1 < k" using r(4) 1(4) Cons sp'(1) by simp
        note IH = Suc.IH(1) [OF r(2) r(3) [folded sp'(1)] sp'(3) w good1 rec]
        have "\<exists>h\<in>set hs. request_comps (tPath h) = w"
          if "\<not> lim" "shown f root w" "Contains (ToLower U (last w)) nd" "x \<in> set queue" "strict_prefix (request_comps x) w" for w x
        proof (cases "x = q")
          case True
          have "(\<exists>h\<in>set (hits_in U nd ns). request_comps (tPath h) = w) \<or>
              (\<exists>p\<in>set (map tPath (filter tIsDir ns)). strict_prefix (request_comps p) w)"
            using r(6) [OF that(2,3)] that(5) True by simp
          then show ?thesis
          proof
            assume "\<exists>h\<in>set (hits_in U nd ns). request_comps (tPath h) = w"
            then show ?thesis using IH sp'(2) by auto
          next
            assume "\<exists>p\<in>set (map tPath (filter tIsDir ns)). strict_prefix (request_comps p) w"
            then obtain p where "p \<in> set q1" "strict_prefix (request_comps p) w" using sp'(1) by auto
            then show ?thesis using IH that(1-3) by blast
          qed
        next
          case False
          then have "x \<in> set q1" using that(4) Cons sp'(1) by simp
          then show ?thesis using IH that by blast
        qed
        then show ?thesis using IH sp'(2) by auto
      qed
    qed
  next
    case 2
    show ?case
    proof (cases queue)
      case (Cons q rest)
      have qk: "queue_ok f root (q # rest)" using 2 Cons by simp
      obtain ns hit c1 where r: "listDirNodes env f q c = (Inr (ns, hit), c1)" "coherent env f c1"
        "queue_ok f root (rest @ map tPath (filter tIsDir ns))"
        "weight f root (rest @ map tPath (filter tIsDir ns)) + 1 \<le> weight f root (q # rest)"
        using search_round [OF assms 2(1) qk, of U nd] by metis
      obtain q1 h1 l where s: "search_nodes U nd limit ns rest hits = (q1, h1, l)" by (metis prod_cases3)
      note sp = search_nodes_spec [OF s 2(3)]
      show ?thesis
      proof (cases l)
        case False
        then have "q1 = rest @ map tPath (filter tIsDir ns)" "length h1 < limit" using sp by auto
        then show ?thesis using Suc.IH(2) [of c1 q1 h1] r 2(4) Cons s False by simp
      qed (use 2 Cons r(1) s in simp)
    qed simp
  }
qed simp_all

lemma search_start:
  assumes "readable env root f"
  shows "queue_ok f root [[]]" "weight f root [[]] < search_rounds f"
proof -
  have "request_comps [] = []" by code_simp
  then show "queue_ok f root [[]]" "weight f root [[]] < search_rounds f"
    using real_dir_node [OF readableD(2) [OF assms]] card_dirs [of f root]
    by (simp_all add: queue_ok_def weight_def search_rounds_def le_imp_less_Suc)
qed



lemma demo_readable: "readable demo_env [''s''] demo_fs"
proof -
  have "\<forall>e\<in>set (nodes demo_fs). \<forall>c\<in>set (fst e). backslash \<notin> set c \<and> nul \<notin> set c"
    by (simp add: demo_fs_def)
  then show ?thesis using demo_root demo_root_real wf_demo_fs by (simp add: readable_def) (simp add: demo_fs_def)
qed

lemma demo_coherent: "coherent demo_env demo_fs (newListingCache 1000)"
  using new_cache_ok by (intro coherent_empty) auto




end
