(* ===== verification/Content.thy ===== *)
theory Content
  imports Auth Archive Region
begin

text \<open>
  Sending stored files and pages (\<open>handlers.go\<close>, lines 73 to 110 and 201 to 325): downloads, previews,
  browsing, and the headers that keep a stored page from running in the browser. The bytes of a file
  are sent by \<open>http.ServeFile\<close>, which has rules of its own for a few URLs; it is modelled as it is.
  Main results: what any of these handlers sends is a visible file below the storage root, and an active
  type is never sent to be shown.
\<close>

subsection \<open>http.ServeFile\<close>

definition http_file_error :: "oserr \<Rightarrow> response" where
  "http_file_error e =
     (if e = ENOENT then http_Error ''404 page not found'' 404 else http_Error ''500 Internal Server Error'' 500)"

text \<open>An error is written over the headers set before.\<close>

definition over_earlier :: "(string \<times> string) list \<Rightarrow> response \<Rightarrow> response" where
  "over_earlier hs resp = resp\<lparr>respHeaders := foldl (\<lambda>acc h. set_header (fst h) (snd h) acc) hs (respHeaders resp)\<rparr>"

text \<open>
  A URL with a \<open>..\<close> segment is refused; one that ends in \<open>/index.html\<close> is answered by a redirect to its
  folder, whatever the file; otherwise the file is sent, with the headers set before. A folder becomes
  a listing of it.
\<close>

definition containsDotDot :: "string \<Rightarrow> bool" where
  "containsDotDot v \<longleftrightarrow> list_ex (\<lambda>ent. ent = ''..'') (split_on slash (ReplaceByte v backslash ''/''))"

definition raw_query :: "request \<Rightarrow> string" where
  "raw_query r = drop 1 (dropWhile (\<lambda>c. c \<noteq> CHR ''?'') (rRequestURI r))"

definition localRedirect :: "request \<Rightarrow> (string \<times> string) list \<Rightarrow> string \<Rightarrow> response" where
  "localRedirect r hs newPath =
     mk_response 301 (set_header ''Location'' (if raw_query r = [] then newPath else newPath @ ''?'' @ raw_query r) hs) BEmpty"

definition ServeFile :: "fs \<Rightarrow> request \<Rightarrow> (string \<times> string) list \<Rightarrow> apath \<Rightarrow> response" where
  "ServeFile f r hs target =
     (if containsDotDot (rPath r) then over_earlier hs (http_Error ''invalid URL path'' 400)
      else if HasSuffix (rPath r) ''/index.html'' then localRedirect r hs ''./''
      else case os_Stat f target of
        Inl e \<Rightarrow> over_earlier hs (http_file_error e)
      | Inr n \<Rightarrow>
          (if is_dir n then mk_response 200 (set_header ''Content-Type'' ''text/html; charset=utf-8'' hs) (BText ''<pre>'')
           else mk_response 200 hs (BFile target)))"

subsection \<open>Types\<close>

definition previewContentType :: "unicode \<Rightarrow> string \<Rightarrow> string \<times> string" where
  "previewContentType U name =
     (let ext = ToLower U (path_Ext name) in
      if ext = ''.png'' then (''image/png'', ''image'')
      else if ext = ''.jpg'' \<or> ext = ''.jpeg'' then (''image/jpeg'', ''image'')
      else if ext = ''.webp'' then (''image/webp'', ''image'')
      else if ext = ''.gif'' then (''image/gif'', ''image'')
      else if ext = ''.pdf'' then (''application/pdf'', ''pdf'')
      else if ext = ''.mp4'' then (''video/mp4'', ''video'')
      else if ext = ''.webm'' then (''video/webm'', ''video'')
      else if ext = ''.txt'' \<or> ext = ''.md'' \<or> ext = ''.go'' then (''text/plain; charset=utf-8'', ''text'')
      else if ext = ''.json'' then (''application/json'', ''text'')
      else ([], []))"

definition dangerous_exts :: "string list" where
  "dangerous_exts = [''.html'', ''.htm'', ''.shtml'', ''.svg'', ''.svgz'', ''.xml'', ''.xhtml'', ''.js'', ''.mjs'', ''.css'']"

definition isDangerousInlineExt :: "unicode \<Rightarrow> string \<Rightarrow> bool" where
  "isDangerousInlineExt U name \<longleftrightarrow> ToLower U (path_Ext name) \<in> set dangerous_exts"

subsection \<open>Handlers\<close>

definition stored_headers :: "unicode \<Rightarrow> string \<Rightarrow> bool \<Rightarrow> (string \<times> string) list" where
  "stored_headers U name forceDownload =
     [(''X-Content-Type-Options'', ''nosniff'')]
     @ (if forceDownload \<or> isDangerousInlineExt U name
        then [(''Content-Disposition'', contentDisposition name)]
             @ (if isDangerousInlineExt U name then [(''Content-Type'', ''application/octet-stream'')] else [])
        else [])"

definition serveStoredFile :: "genv \<Rightarrow> fs \<Rightarrow> request \<Rightarrow> apath \<Rightarrow> bool \<Rightarrow> response" where
  "serveStoredFile G f r target forceDownload =
     ServeFile f r (stored_headers (gU G) (apath_Base target) forceDownload) target"

definition pageDataFrom :: "request \<Rightarrow> bool \<Rightarrow> (string \<times> json) list" where
  "pageDataFrom r adminPage =
     [(''Admin'', JBool adminPage),
      (''Username'', JStr (case rSession r of None \<Rightarrow> [] | Some ses \<Rightarrow> sUsername ses)),
      (''Role'', JStr (case rSession r of None \<Rightarrow> [] | Some ses \<Rightarrow> sRole ses))]"

definition reserved_prefixes :: "string list" where
  "reserved_prefixes = [''static/'', ''admin'', ''api/'', ''download/'', ''preview/'', ''s/'']"

definition handlePagePublic :: shandler where
  "handlePagePublic G x r s =
     (let page = execTemplate ''layout'' (pageDataFrom r False); rel = TrimPrefix (rPath r) ''/''; f = srvFs s in
      if rPath r = ''/'' then (page, s)
      else if list_ex (HasPrefix rel) reserved_prefixes then (http_NotFound, s)
      else case safePath f (gPaths G) rel of
        Inl _ \<Rightarrow> (http_Error ''Invalid path'' 400, s)
      | Inr target \<Rightarrow>
      (case os_Stat f target of
         Inl _ \<Rightarrow> (http_Error ''Not found'' 404, s)
       | Inr info \<Rightarrow> (if \<not> is_dir info then serveStoredFile G f r target False else page, s)))"

definition handlePageAdmin :: shandler where
  "handlePageAdmin G x r s = (execTemplate ''layout'' (pageDataFrom r True), s)"

definition handleDownload :: shandler where
  "handleDownload G x r s =
     (let rel = TrimPrefix (rPath r) ''/download/''; f = srvFs s in
      if rel = [] then (redirect ''/'' 302, s)
      else case safePath f (gPaths G) rel of
        Inl _ \<Rightarrow> (http_Error ''Invalid path'' 400, s)
      | Inr target \<Rightarrow>
          (case os_Stat f target of
             Inl _ \<Rightarrow> (http_Error ''Not found'' 404, s)
           | Inr info \<Rightarrow>
               (if is_dir info then http_Error ''Not found'' 404 else serveStoredFile G f r target True, s)))"

definition maxTextPreview :: int where "maxTextPreview = 2 * 2 ^ 20"

definition preview_headers :: "string \<Rightarrow> string \<Rightarrow> (string \<times> string) list" where
  "preview_headers ctype name =
     [(''X-Content-Type-Options'', ''nosniff''), (''Content-Type'', ctype),
      (''Content-Disposition'', contentDispositionInline name), (''Cache-Control'', ''private, max-age=120'')]"

definition handlePreview :: shandler where
  "handlePreview G x r s =
     (let rel = TrimPrefix (rPath r) ''/preview/''; f = srvFs s in
      if rel = [] then (http_Error ''Not found'' 404, s)
      else case safePath f (gPaths G) rel of
        Inl _ \<Rightarrow> (http_Error ''Invalid path'' 400, s)
      | Inr target \<Rightarrow>
      (case os_Stat f target of
         Inl _ \<Rightarrow> (http_Error ''Not found'' 404, s)
       | Inr info \<Rightarrow>
      (if is_dir info then (http_Error ''Not found'' 404, s)
       else let name = apath_Base target; (ctype, kind) = previewContentType (gU G) name in
       if ctype = [] then (http_Error ''Preview not available for this file type'' 415, s)
       else if kind = ''text'' \<and> node_size info > maxTextPreview
       then (http_Error ''File too large to preview'' 413, s)
       else (ServeFile f r (preview_headers ctype name) target, s))))"

subsection \<open>What is sent\<close>

text \<open>
  The file a response sends is a plain file below the storage root on a path without hidden segments,
  and when its type could run in the browser it is marked as a download and sent as bytes.
\<close>

definition visible_file :: "fs \<Rightarrow> apath \<Rightarrow> apath \<Rightarrow> bool" where
  "visible_file f root p \<longleftrightarrow> (\<exists>v. p = root @ v \<and> visible_path v) \<and> (case node_at f p of Some (FFile _) \<Rightarrow> True | _ \<Rightarrow> False)"

definition harmless :: "unicode \<Rightarrow> response \<Rightarrow> apath \<Rightarrow> bool" where
  "harmless U resp p \<longleftrightarrow> get_header (respHeaders resp) ''X-Content-Type-Options'' = ''nosniff'' \<and>
     (isDangerousInlineExt U (apath_Base p) \<longrightarrow>
        get_header (respHeaders resp) ''Content-Type'' = ''application/octet-stream'' \<and>
        get_header (respHeaders resp) ''Content-Disposition'' = contentDisposition (apath_Base p))"

lemma ServeFile_file:
  "respBody (ServeFile f r hs target) = BFile p \<Longrightarrow>
     p = target \<and> (\<exists>n. os_Stat f p = Inr n \<and> \<not> is_dir n) \<and> respHeaders (ServeFile f r hs target) = hs"
  by (auto simp: ServeFile_def over_earlier_def http_file_error_def http_Error_def localRedirect_def
      split: if_splits sum.splits)

text \<open>
  A place that may be shown: below the root, no hidden part in its path, no link left in it, and this entry
  there. The contract of what turns a name sent by a client into a place of the storage: it returns such places
  only. What the clients of it show then follows once for all resolvers.
\<close>

definition showable :: "fs \<Rightarrow> apath \<Rightarrow> apath \<Rightarrow> fnode \<Rightarrow> bool" where
  "showable f root p n \<longleftrightarrow> (\<exists>v. p = root @ v \<and> visible_path v) \<and> placed f p \<and> node_at f p = Some n \<and> (\<forall>t. n \<noteq> FLink t)"

locale path_resolver =
  fixes resolve :: "path_env \<Rightarrow> fs \<Rightarrow> string \<Rightarrow> apath result"
  assumes resolve_inside: "storageRealRoot f env = Inr root \<Longrightarrow> real_dir f root \<Longrightarrow> resolve env f name = Inr p \<Longrightarrow>
    \<exists>v. p = root @ v \<and> visible_path v \<and> placed f p"
begin

lemma stat_showable:
  "storageRealRoot f env = Inr root \<Longrightarrow> real_dir f root \<Longrightarrow> resolve env f name = Inr p \<Longrightarrow> os_Stat f p = Inr n \<Longrightarrow>
   showable f root p n"
  using resolve_inside placed_entry unfolding showable_def by blast

lemma stat_visible_file:
  assumes "storageRealRoot f env = Inr root" "real_dir f root" "resolve env f name = Inr p" "os_Stat f p = Inr n" "\<not> is_dir n"
  shows "visible_file f root p"
  using stat_showable [OF assms(1-4)] assms(5) by (cases n) (auto simp: showable_def visible_file_def is_dir_def)

end

interpretation pages: path_resolver "\<lambda>env f. safePath f env"
  by unfold_locales (rule safePath_inside)

lemma stored_headers_harmless:
  "respHeaders resp = stored_headers U (apath_Base p) fd \<Longrightarrow> harmless U resp p"
  by (auto simp: harmless_def stored_headers_def get_header_def)

lemma preview_not_dangerous: "previewContentType U name = (ctype, kind) \<Longrightarrow> ctype \<noteq> [] \<Longrightarrow> \<not> isDangerousInlineExt U name"
  by (auto simp: previewContentType_def isDangerousInlineExt_def dangerous_exts_def Let_def split: if_splits)


definition demo_get :: "string \<Rightarrow> request" where
  "demo_get path = demo_request\<lparr>rMethod := ''GET'', rPath := path, rRequestURI := path\<rparr>"


text \<open>A file called index.html is never sent: its URL is answered by a redirect to the folder, which is not found.\<close>

lemma index_html_never_sent:
  assumes "HasSuffix (rPath r) ''/index.html''"
  shows "respBody (fst (handleDownload G x r s)) \<noteq> BFile p"
  using assms
  by (auto simp: handleDownload_def Let_def serveStoredFile_def ServeFile_def over_earlier_def localRedirect_def http_Error_def
      redirect_def http_file_error_def split: sum.split)

end
