(* ===== verification/Confinement.thy ===== *)
theory Confinement
  imports Region UploadHandlers
begin

text \<open>
  The handlers that change stored files change nothing but stored files: every entry that is
  neither a visible entry below the storage root (or in one) nor an item of the trash is left alone, whatever
  the request. Two requests break this, and the statements exclude exactly them: renaming and duplicating
  the root itself.
\<close>

subsection \<open>The trash\<close>

lemma itemPath_items:
  "trashRoot T = root @ [trashDirName] \<Longrightarrow> validShareToken i \<Longrightarrow>
     itemPath T i = (root @ [trashDirName, trashItemsDir]) @ [i]"
  by (simp add: itemPath_def join_abs_ordinary_name validShareToken_ordinary)

lemma tidy_trashRoot: "tidy env root T f \<Longrightarrow> trashRoot T = root @ [trashDirName]"
  by (simp add: tidy_def)

lemma inside_items: "inside root ((root @ [trashDirName, trashItemsDir]) @ [i])"
  using inside_item [of root i "[]"] by simp

lemma itemsSave_root [simp]: "trashRoot (itemsSave ok T) = trashRoot T" "trashRoot (drop_item i T) = trashRoot T"
  by (simp_all add: itemsSave_def drop_item_def)

lemma MkdirAll_items: "real_dir f (p @ [c]) \<Longrightarrow> os_MkdirAll f (p @ [c]) = (None, f)"
  by (simp add: os_MkdirAll_def os_Stat_def walk_real_dir_id is_dir_def)
    (simp add: lookup_entry_def real_dir_node real_dir_not_fail is_dir_def)

lemma moveToTrash_confined:
  assumes t: "tidy env root T f" and rnd: "\<And>b. rnd = Some b \<Longrightarrow> length b = 32"
    and m: "moveToTrash env now rnd ok rel by0 (T, f) = (r, T', f')"
  shows "confined root f f' \<and> trashRoot T' = trashRoot T"
proof -
  note wf = tidyD(2) [OF t] and items = tidyD(5) [OF t]
  have rename: "confined root f f1 \<and> (\<forall>f2. os_Rename f1 dest src = Inr f2 \<longrightarrow> confined root f f2)"
    if "safePath f env (Trim rel ''/'') = Inr src" "os_Stat f src = Inr info" "rnd = Some b"
      "dest = itemPath T (hex_encode (map byte_val b))" "os_Rename f src dest = Inr f1" for src info b f1 dest
  proof -
    have v: "validShareToken (hex_encode (map byte_val b))" using rnd that(3) by (simp add: validShareToken_hex)
    note ip = itemPath_items [OF tidy_trashRoot [OF t] v]
    show ?thesis using t that(1) disjI1 [OF that(2)]
    proof (cases rule: safePath_entry)
      case root
      then show ?thesis
        using Rename_below_itself [OF wf _ items, of root "hex_encode (map byte_val b)"] that(4,5) ip
          real_dir_node [OF tidyD(3) [OF t]] by (auto simp: prefix_def)
    next
      case (below w c)
      have oi: "ordinary (hex_encode (map byte_val b))" using v by (rule validShareToken_ordinary)
      have r: "os_Rename f ((root @ w) @ [c]) ((root @ [trashDirName, trashItemsDir]) @ [hex_encode (map byte_val b)]) = Inr f1"
        using that(4,5) below(1) ip by simp
      have c1: "confined root f f1"
        using Rename_confined [OF wf below(4) items oi inside_dir [OF below(2,3)] inside_items r] .
      have "node_at f1 (root @ w) = Some FDir"
      proof -
        have "\<not> prefix ((root @ [trashDirName, trashItemsDir]) @ [hex_encode (map byte_val b)]) (root @ w)"
          using below(2) by (cases w) (auto simp: visible_def trashDirName_def)
        moreover have "\<not> prefix ((root @ w) @ [c]) (root @ w)" by (auto dest: prefix_length_le)
        ultimately show ?thesis using Rename_in_dirs(3) [OF wf below(4) items oi r] below(4) by simp
      qed
      moreover have "node_at f1 (root @ [trashDirName, trashItemsDir]) = Some FDir"
        using tidyD(5) [OF tidy_confined [OF t c1 refl]] .
      ultimately have "confined root f1 f2" if "os_Rename f1 dest src = Inr f2" for f2
        using Rename_confined [OF confined_wf [OF c1] _ _ visible_ordinary [OF below(3)] inside_items inside_dir [OF below(2,3)]]
          that(1) below(1) ip \<open>dest = _\<close> by simp
      then show ?thesis using c1 confined_trans by blast
    qed
  qed
  have mk: "os_MkdirAll f (apath_Dir (itemPath T (hex_encode (map byte_val b)))) = (None, f)" if "rnd = Some b" for b
  proof -
    have "validShareToken (hex_encode (map byte_val b))" using rnd that by (simp add: validShareToken_hex)
    then show ?thesis
      using MkdirAll_items [of f "root @ [trashDirName]" trashItemsDir] tidyD(4) [OF t]
      by (simp add: itemPath_items [OF tidy_trashRoot [OF t]] apath_Dir_def butlast_append)
  qed
  show ?thesis
    using m mk rename confined_refl [OF wf]
    by (auto simp: moveToTrash_def Let_def randomToken_def split: if_splits sum.splits option.splits)
qed

text \<open>The folders of a place, with all of them made.\<close>

lemma MkdirAll_confined:
  assumes t: "tidy env root T f" and p: "p = root @ v" "visible_path v" "placed f p" and m: "os_MkdirAll f p = (e, f1)"
  shows "confined root f f1 \<and> (e = None \<longrightarrow> node_at f1 p = Some FDir)"
proof -
  have x: "same_faults f f1 \<and> wf_fs f1 \<and> (\<forall>q. node_at f1 q \<noteq> node_at f q \<longrightarrow> prefix q p \<and> node_at f q = None) \<and>
      (e = None \<longrightarrow> node_at f1 p = Some FDir)"
    using mkdir_all_placed [of f "rev p" e f1] m p(3) tidyD(2) [OF t] by (simp add: os_MkdirAll_def)
  have "inside root q" if pq: "prefix q p" "node_at f q = None" for q
  proof -
    have "\<not> prefix q root"
      using pq(2) tidyD(3) [OF t] real_dir_prefix real_dir_node by (fastforce simp: prefix_def)
    moreover obtain z where "q = root @ z \<and> prefix z v \<or> prefix q root" using pq(1) p(1) prefix_append by blast
    ultimately have "q = root @ z" "z \<noteq> []" "prefix z v" by auto
    then show ?thesis using inside_visible [of z root] p(2) by (auto simp: prefix_def)
  qed
  then show ?thesis using x unfolding confined_def by blast
qed

lemma restore_confined:
  assumes t: "tidy env root T f" and m: "restore env ok i (T, f) = (r, T', f')"
  shows "confined root f f' \<and> trashRoot T' = trashRoot T"
proof -
  note wf = tidyD(2) [OF t] and items = tidyD(5) [OF t]
  have mk: "confined root f f1 \<and> (e = None \<longrightarrow> v = [] \<or> node_at f1 (butlast p) = Some FDir)"
    if "p = root @ v" "visible_path v" "placed f p" "os_MkdirAll f (apath_Dir p) = (e, f1)" for p v e f1
  proof (cases v rule: rev_cases)
    case Nil
    have "real_dir f (butlast root)" using tidyD(3) [OF t] real_dir_butlast by blast
    then have pl: "placed f (butlast root)" by (simp add: placed_def real_entry_dirI)
    have "node_at f q \<noteq> None" if "prefix q (butlast root)" for q
      using that \<open>real_dir f (butlast root)\<close> real_dir_prefix real_dir_node by (fastforce simp: prefix_def)
    moreover have "same_faults f f1 \<and> wf_fs f1 \<and> (\<forall>q. node_at f1 q \<noteq> node_at f q \<longrightarrow> prefix q (butlast root) \<and> node_at f q = None)"
      using mkdir_all_placed [of f "rev (butlast root)" e f1] pl wf that Nil by (simp add: os_MkdirAll_def apath_Dir_def)
    ultimately show ?thesis using Nil unfolding confined_def by blast
  next
    case (snoc w c)
    have pl: "placed f (root @ w)" using placed_butlast [of f "root @ w" c] that snoc by simp
    then show ?thesis using MkdirAll_confined [OF t refl _ pl, of e f1] that snoc
      by (simp add: apath_Dir_def butlast_append)
  qed
  have main: "confined root f f2"
    if p: "safePath f env rel = Inr p" and v: "validShareToken i" and m: "os_MkdirAll f (apath_Dir p) = (None, f1)"
      and free: "os_Stat f1 p = Inl ENOENT" and r: "os_Rename f1 (itemPath T i) p = Inr f2" for rel p f1 f2
  proof -
    obtain v where v1: "p = root @ v" "visible_path v" "placed f p" using safePath_tidy [OF t p] .
    note c1 = mk [OF v1 m, THEN conjunct1]
    have t1: "tidy env root T f1" using tidy_confined [OF t c1 refl] .
    have "v \<noteq> []"
    proof
      assume "v = []"
      moreover have "os_Stat f1 root = lookup_entry f1 root" using tidyD(3) [OF t1] by (simp add: os_Stat_def walk_real_dir_id)
      ultimately show False using free v1(1) real_dir_node [OF tidyD(3) [OF t1]] by (auto simp: lookup_entry_def split: if_splits)
    qed
    then obtain w c where w: "v = w @ [c]" by (metis rev_exhaust)
    have "node_at f1 (root @ w) = Some FDir" using mk [OF v1 m] \<open>v \<noteq> []\<close> v1(1) w by (simp add: butlast_append)
    then have "confined root f1 f2"
      using Rename_confined [OF tidyD(2) [OF t1] tidyD(5) [OF t1] _ _ inside_items inside_dir [of w c]] r v1(1,2) w
        itemPath_items [OF tidy_trashRoot [OF t] \<open>validShareToken i\<close>] by (simp add: visible_ordinary)
    then show ?thesis using c1 confined_trans by blast
  qed
  have mk2: "confined root f f1" if "safePath f env rel = Inr p" "os_MkdirAll f (apath_Dir p) = (e, f1)" for rel p e f1
    using safePath_tidy [OF t that(1)] mk that(2) by metis
  show ?thesis
    using m main mk2 confined_refl [OF wf]
    by (auto simp: restore_def Let_def split: if_splits sum.splits option.splits prod.splits)
qed

lemma remove_item_confined:
  assumes "tidy env root T f" "validShareToken i"
  shows "confined root f (remove_item_files T i f)"
  using RemoveAll_framed [OF tidyD(2,5) [OF assms(1)], of i] framed_confined [OF _ inside_items]
    itemPath_items [OF tidy_trashRoot [OF assms(1)] assms(2)] by (simp add: remove_item_files_def)

lemma purge_confined:
  assumes "tidy env root T f" "purge ok i (T, f) = (r, T', f')"
  shows "confined root f f' \<and> trashRoot T' = trashRoot T"
  using assms(2) remove_item_confined [OF assms(1)] confined_refl [OF tidyD(2) [OF assms(1)]]
  by (auto simp: purge_def purgeLocked_def Let_def split: if_splits option.splits)

text \<open>A loop that stays inside at every step.\<close>

lemma fold_confined:
  assumes "\<And>x g. x \<in> set xs \<Longrightarrow> tidy env root T g \<Longrightarrow> confined root g (h x g)" "tidy env root T f"
  shows "confined root f (fold h xs f)"
  using assms
proof (induction xs arbitrary: f)
  case (Cons x xs)
  have c: "confined root f (h x f)" using Cons.prems by simp
  have "confined root (h x f) (fold h xs (h x f))"
    using Cons.prems(1) by (intro Cons.IH tidy_confined [OF Cons.prems(2) c refl]) simp_all
  then show ?case using c confined_trans by auto
qed (simp add: confined_refl tidyD(2))

lemma trash_empty_confined:
  assumes t: "tidy env root T f" and ids: "\<forall>it\<in>set (Items T). validShareToken (tiID it)"
    and m: "trash_empty ok (T, f) = (r, T', f')"
  shows "confined root f f' \<and> trashRoot T' = trashRoot T"
proof -
  let ?f1 = "fold (remove_item_files T \<circ> tiID) (Items T) f"
  let ?rm = "\<lambda>name g. snd (os_RemoveAll g (trashRoot T @ [trashItemsDir, name]))"
  have c1: "confined root f ?f1" using remove_item_confined ids by (intro fold_confined [OF _ t]) (simp add: comp_def)
  have "confined root g (?rm name g)" if "tidy env root T g" for name g
    using RemoveAll_framed [OF tidyD(2,5) [OF that], of name] framed_confined [OF _ inside_items] tidy_trashRoot [OF that] by simp
  then have "confined root ?f1 (fold ?rm (children ?f1 (trashRoot T @ [trashItemsDir])) ?f1)"
    by (intro fold_confined [OF _ tidy_confined [OF t c1 refl]]) blast
  then show ?thesis using m c1 confined_trans by (auto simp: trash_empty_def Let_def split: if_splits)
qed

subsection \<open>Handlers\<close>

definition good_items :: "trashStore \<Rightarrow> bool" where
  "good_items T \<longleftrightarrow> list_all (\<lambda>it. validShareToken (tiID it)) (Items T)"

definition tidy_server :: "genv \<Rightarrow> apath \<Rightarrow> server \<Rightarrow> bool" where
  "tidy_server G root s \<longleftrightarrow> tidy (gPaths G) root (srvTrash s) (srvFs s) \<and> good_items (srvTrash s)"

text \<open>What a step of the server leaves alone.\<close>

definition keeps :: "apath \<Rightarrow> server \<Rightarrow> server \<Rightarrow> bool" where
  "keeps root s s' \<longleftrightarrow> confined root (srvFs s) (srvFs s') \<and> trashRoot (srvTrash s') = trashRoot (srvTrash s) \<and>
     (good_items (srvTrash s) \<longrightarrow> good_items (srvTrash s'))"

lemma tidy_server_keeps: "tidy_server G root s \<Longrightarrow> keeps root s s' \<Longrightarrow> tidy_server G root s'"
  by (auto simp: tidy_server_def keeps_def intro: tidy_confined)

lemma keeps_refl: "tidy_server G root s \<Longrightarrow> keeps root s s"
  by (auto simp: tidy_server_def keeps_def intro: confined_refl tidyD)

lemma keeps_trans: "keeps root s s1 \<Longrightarrow> keeps root s1 s2 \<Longrightarrow> keeps root s s2"
  by (auto simp: keeps_def intro: confined_trans)

lemma on_fs_simps [simp]:
  "srvFs (on_fs f s) = f" "srvTrash (on_fs f s) = srvTrash s"
  "srvFs (on_shares h s) = srvFs s" "srvTrash (on_shares h s) = srvTrash s"
  "srvFs (changed G x a p r s) = srvFs s" "srvTrash (changed G x a p r s) = srvTrash s"
  by (simp_all add: on_fs_def on_shares_def changed_def)

lemma keeps_simps [simp]:
  "keeps root s (changed G x a p r s') = keeps root s s'" "keeps root s (on_shares h s') = keeps root s s'"
  "keeps root s (invalidateListingCache s') = keeps root s s'"
  "keeps root s (on_fs f s) = confined root (srvFs s) f"
  by (simp_all add: keeps_def)

text \<open>The random source gives tokens of 32 bytes, when it gives any.\<close>

definition fresh_tokens :: "extern \<Rightarrow> bool" where
  "fresh_tokens x \<longleftrightarrow> (\<forall>k b. x_rand x k = Some b \<longrightarrow> length b = 32)"

text \<open>\<open>P\<close>: the requests meant, by their body and the file system.\<close>

definition confining :: "genv \<Rightarrow> apath \<Rightarrow> (json_body \<Rightarrow> fs \<Rightarrow> bool) \<Rightarrow> shandler \<Rightarrow> bool" where
  "confining G root P h \<longleftrightarrow> (\<forall>x r s. tidy_server G root s \<longrightarrow> fresh_tokens x \<longrightarrow> P (rBody r) (srvFs s) \<longrightarrow>
     keeps root s (snd (h G x r s)))"

lemma confiningI:
  "(\<And>x r s. tidy_server G root s \<Longrightarrow> fresh_tokens x \<Longrightarrow> P (rBody r) (srvFs s) \<Longrightarrow> keeps root s s \<Longrightarrow>
      keeps root s (snd (h G x r s))) \<Longrightarrow> confining G root P h"
  by (simp add: confining_def keeps_refl)

lemma confining_postI:
  assumes "\<And>x r s b. tidy_server G root s \<Longrightarrow> tidy (gPaths G) root (srvTrash s) (srvFs s) \<Longrightarrow> fresh_tokens x \<Longrightarrow>
      P (BodyOK b) (srvFs s) \<Longrightarrow> keeps root s s \<Longrightarrow> keeps root s (snd (k G x r s b))"
    and "\<And>(x :: extern) (r :: request) s. (h :: shandler) G x r s = post_json r (k G x r s) s"
  shows "confining G root P h"
  unfolding confining_def assms(2)
proof (intro allI impI)
  fix x s and r :: request
  assume "tidy_server G root s" "fresh_tokens x" "P (rBody r) (srvFs s)"
  then show "keeps root s (snd (post_json r (k G x r s) s))"
    using assms(1) keeps_refl [of G root s]
    by (cases rule: post_json_cases [of r "k G x r s" s]) (auto simp: tidy_server_def)
qed

lemma stored_confined:
  assumes "tidy env root T f" "safePath f env rel = Inr p" "visible c"
  shows "os_Stat f p = Inr FDir \<Longrightarrow> store_new_file limit stop (p @ [c]) content f = (res, f') \<Longrightarrow> confined root f f'"
    and "os_Mkdir f (p @ [c]) = Inr f' \<Longrightarrow> confined root f f'"
proof -
  obtain v where v: "p = root @ v" "visible_path v" "placed f p" using safePath_tidy [OF assms(1,2)] .
  note wf = tidyD(2) [OF assms(1)]
  note i = inside_dir [OF v(2) assms(3), of root, folded v(1)] and o = visible_ordinary [OF assms(3)]
  show "os_Stat f p = Inr FDir \<Longrightarrow> store_new_file limit stop (p @ [c]) content f = (res, f') \<Longrightarrow> confined root f f'"
    using framed_confined [OF store_new_file_framed [OF wf _ o] i] placed_entry [OF v(3)] by blast
  show "confined root f f'" if m: "os_Mkdir f (p @ [c]) = Inr f'"
  proof -
    have "node_at f p = Some FDir"
      using placed_resolve [OF wf v(3), of c] m by (auto simp: os_Mkdir_def split: sum.splits)
    then show ?thesis using framed_confined [OF Mkdir_framed [OF wf _ o m] i] by blast
  qed
qed

lemma renamed_there:
  assumes "tidy env root T f" "safePath f env rel = Inr p" "os_Stat f p = Inr n" "p \<noteq> root"
    and "q = root @ w" "visible_path w" "node_at f q = Some FDir" "visible c" "os_Rename f p (q @ [c]) = Inr f'"
  shows "confined root f f'"
  using assms(1,2) disjI1 [OF assms(3)]
proof (cases rule: safePath_entry)
  case (below v a)
  show ?thesis
    using Rename_confined [OF tidyD(2) [OF assms(1)] below(4) _ visible_ordinary [OF assms(8)] inside_dir [OF below(2,3)]
        inside_dir [OF assms(6,8)]] assms(5,7,9) below(1) by simp
qed (use assms(4) in simp)

lemma renamed_here:
  assumes "tidy env root T f" "safePath f env rel = Inr p" "os_Stat f p = Inr n" "p \<noteq> root"
    and "visible c" "os_Rename f p (butlast p @ [c]) = Inr f'"
  shows "confined root f f'"
  using assms(1,2) disjI1 [OF assms(3)]
proof (cases rule: safePath_entry)
  case (below v a)
  then have "butlast p = root @ v" by (simp del: append_assoc)
  with renamed_there [OF assms(1-4) _ below(2) _ assms(5)] below(4) assms(6) show ?thesis by metis
qed (use assms(4) in simp)

lemma copied_confined:
  assumes "tidy env root T f" "visible_path v" "node_at f (root @ v) = Some FDir" "visible c"
    and "copy_or_clean x src ((root @ v) @ [c]) info f = (res, f')"
  shows "confined root f f'"
proof -
  note wf = tidyD(2) [OF assms(1)] and o = visible_ordinary [OF assms(4)]
  obtain r f1 where c: "copyPath (copy_faults x) src ((root @ v) @ [c]) info f = (r, f1)" by (meson surj_pair)
  note fr = copyPath_framed [OF c wf assms(3) o]
  have "framed ((root @ v) @ [c]) f1 (snd (os_RemoveAll f1 ((root @ v) @ [c])))"
    using RemoveAll_framed [OF framed_wf [OF fr] dir_framed [OF fr assms(3)]] .
  then have "framed ((root @ v) @ [c]) f f'"
    using assms(5) c fr framed_trans by (auto simp: copy_or_clean_def split: sum.splits)
  then show ?thesis using framed_confined inside_dir [OF assms(2,4)] by blast
qed

subsection \<open>Every file handler is confined\<close>

lemma handleUpload_confining: "confining G root (\<lambda>_ _. True) handleUpload"
proof (rule confiningI)
  fix x r s
  assume t: "tidy_server G root s" and k: "keeps root s s"
  have "tidy (gPaths G) root (srvTrash s) (srvFs s)" using t by (simp add: tidy_server_def)
  note st = stored_confined(1) [OF this _ sanitizeName_visible]
  show "keeps root s (snd (handleUpload G x r s))"
    unfolding handleUpload_def Let_def using k
    by (auto simp: join_abs_sanitized intro: st split: form_body.split sum.split option.split prod.split stored.split)
qed

lemma handleMkdir_confining: "confining G root (\<lambda>_ _. True) handleMkdir"
  by (rule confining_postI [OF _ handleMkdir_def])
    (auto simp: Let_def join_abs_sanitized intro: stored_confined(2) [OF _ _ sanitizeName_visible] split: sum.split)

text \<open>The root itself must not be renamed.\<close>

definition not_the_root :: "genv \<Rightarrow> apath \<Rightarrow> string \<Rightarrow> json_body \<Rightarrow> fs \<Rightarrow> bool" where
  "not_the_root G root field b f \<longleftrightarrow>
     (case b of BodyOK v \<Rightarrow> safePath f (gPaths G) (fStr v field) \<noteq> Inr root | _ \<Rightarrow> True)"

lemma handleRename_confining: "confining G root (not_the_root G root ''oldPath'') handleRename"
  by (rule confining_postI [OF _ handleRename_def])
    (auto simp: Let_def not_the_root_def join_abs_sanitized apath_Dir_def
      intro: renamed_here [OF _ _ _ _ sanitizeName_visible] split: sum.split)

subsection \<open>Names of copies\<close>

lemma visible_hd: "visible c \<longleftrightarrow> ordinary c \<and> hd c \<noteq> dot"
  by (cases c) (auto simp: visible_def)

lemma visible_append: "visible c \<Longrightarrow> slash \<notin> set t \<Longrightarrow> visible (c @ t)"
  by (cases c) (auto simp: visible_def ordinary_def)

lemma copyNameCandidate_visible:
  assumes "visible name"
  shows "visible (copyNameCandidate name n)"
proof -
  have "hd (copyNameCandidate name n) = hd name"
  proof (cases "TrimSuffix name (path_Ext name)")
    case Nil
    then have "path_Ext name = name" using TrimSuffix_Ext [of name] by simp
    moreover have "path_Ext name = [] \<or> hd (path_Ext name) = dot" by (simp add: path_Ext_def Let_def)
    ultimately show ?thesis using assms by (auto simp: visible_hd)
  next
    case (Cons a l)
    then have "hd name = a" using TrimSuffix_Ext [of name] by (metis hd_append2 list.sel(1) list.simps(3))
    then show ?thesis using Cons by (simp add: copyNameCandidate_def Let_def)
  qed
  then show ?thesis using assms copyNameCandidate_ordinary [of name n] by (simp add: visible_hd)
qed

lemma itoa_int_no_slash: "slash \<notin> set (itoa_int i)"
  using itoa_digits [of slash "nat i"] itoa_digits [of slash "nat (- i)"] by (auto simp: itoa_int_def is_digit_def)

lemma uniqueCopyName_visible:
  assumes "visible name"
  shows "visible (uniqueCopyName f now dir name)"
proof (cases "copy_name_loop f dir name 0 10000")
  case None
  then show ?thesis using visible_append [OF assms, of "'' copy '' @ itoa_int now"] itoa_int_no_slash
    by (simp add: uniqueCopyName_def)
next
  case (Some c)
  then show ?thesis using copy_name_loop_Some [OF Some] copyNameCandidate_visible [OF assms] by (auto simp: uniqueCopyName_def)
qed

subsection \<open>Move, copy and duplicate\<close>

lemma into_itself_iff: "ordinary_path q \<Longrightarrow> into_itself p q \<longleftrightarrow> prefix p q"
  using path_Rel_escapes_iff [of q p] by (auto simp: into_itself_def rel_escapes_def Let_def)

text \<open>The source of a move or copy, with the root excluded because it would go into itself.\<close>

lemma source_entry:
  assumes "tidy env root T f" "safePath f env rel = Inr p" "os_Stat f p = Inr n \<or> os_Lstat f p = Inr n"
    and "q = root @ w" "visible_path w" "\<not> (is_dir n \<and> into_itself p q)"
  shows "p \<noteq> root \<and> visible (apath_Base p) \<and> join_abs q (apath_Base p) = q @ [apath_Base p] \<and> (node_at f q = Some FDir \<longrightarrow> \<not> prefix p q)"
proof -
  have oq: "ordinary_path q" using assms(4,5) real_dir_ordinary [OF tidyD(3) [OF assms(1)]] by (simp add: visible_path_ordinary)
  have nr: "\<not> (prefix p q \<and> n = FDir)" using assms(6) by (auto simp: is_dir_def into_itself_iff [OF oq])
  from assms(1-3) show ?thesis
  proof (cases rule: safePath_entry)
    case (below v c)
    moreover have "p \<noteq> root" unfolding below(1) by simp
    moreover have "node_at f q = Some FDir \<Longrightarrow> prefix p q \<Longrightarrow> node_at f p = Some FDir"
      using wf_fs_parent [OF tidyD(2) [OF assms(1)], of p] by (cases "p = q") (auto simp: prefix_def)
    ultimately show ?thesis using nr by (auto simp: apath_Base_def join_abs_ordinary_name visible_ordinary)
  qed (use nr assms(4) in simp)
qed

lemma moved_confined:
  assumes "tidy env root T f" "safePath f env rel = Inr p" "os_Stat f p = Inr n"
    and "q = root @ w" "visible_path w" "node_at f q = Some FDir" "\<not> (is_dir n \<and> into_itself p q)"
    and "os_Rename f p (join_abs q (apath_Base p)) = Inr f'"
  shows "confined root f f' \<and> node_at f' q = Some FDir"
proof -
  note src = source_entry [OF assms(1,2) disjI1 [OF assms(3)] assms(4,5,7)]
  have c: "confined root f f'" using renamed_there [OF assms(1-3) _ assms(4-6)] src assms(8) by metis
  from assms(1,2) disjI1 [OF assms(3)] have "node_at f' q = Some FDir"
  proof (cases rule: safePath_entry)
    case (below v a)
    have "\<not> prefix (q @ [apath_Base p]) q" by (auto dest: prefix_length_le)
    moreover have "\<not> prefix ((root @ v) @ [a]) q" using src assms(6) below(1) by simp
    ultimately show ?thesis
      using Rename_in_dirs(3) [OF tidyD(2) [OF assms(1)] below(4) assms(6) visible_ordinary, of "apath_Base p" a f' q]
        src assms(6,8) below(1) by simp
  qed (use src in simp)
  with c show ?thesis by blast
qed

lemma moved_to:
  assumes "tidy env root T f" "safePath f env rel = Inr p" "os_Stat f p = Inr n"
    and "safePath f env rel' = Inr q" "os_Stat f q = Inr FDir" "\<not> (is_dir n \<and> into_itself p q)"
    and "os_Rename f p (join_abs q (apath_Base p)) = Inr f'"
  shows "confined root f f'"
proof -
  obtain w where "q = root @ w" "visible_path w" "node_at f q = Some FDir" using safePath_dir [OF assms(1,4,5)] .
  with moved_confined [OF assms(1-3) _ _ _ assms(6,7)] show ?thesis by blast
qed

lemma copied_to:
  assumes "tidy env root T f" "safePath f env rel = Inr p" "os_Lstat f p = Inr n"
    and "safePath f env rel' = Inr q" "os_Stat f q = Inr FDir" "\<not> (is_dir n \<and> into_itself p q)"
    and "c = apath_Base p \<or> c = uniqueCopyName f now q (apath_Base p)"
    and "copy_or_clean x p (join_abs q c) n f = (res, f')"
  shows "confined root f f'"
proof -
  obtain w where w: "q = root @ w" "visible_path w" "node_at f q = Some FDir" using safePath_dir [OF assms(1,4,5)] .
  note src = source_entry [OF assms(1,2) disjI2 [OF assms(3)] w(1,2) assms(6)]
  then have "visible c" using assms(7) uniqueCopyName_visible by blast
  moreover from this have "join_abs q c = q @ [c]" by (simp add: join_abs_ordinary_name visible_ordinary)
  ultimately show ?thesis using copied_confined [OF assms(1)] assms(8) w by metis
qed

lemma duplicated:
  assumes "tidy env root T f" "safePath f env rel = Inr p" "os_Lstat f p = Inr n" "p \<noteq> root"
    and "copy_or_clean x p (join_abs (apath_Dir p) (uniqueCopyName f now (apath_Dir p) (apath_Base p))) n f = (res, f')"
  shows "confined root f f'"
  using assms(1,2) disjI2 [OF assms(3)]
proof (cases rule: safePath_entry)
  case (below v a)
  have d: "apath_Dir p = root @ v" "apath_Base p = a" using below(1) by (simp_all add: apath_Dir_def apath_Base_def del: append_assoc)
  have "visible (uniqueCopyName f now (root @ v) a)" using uniqueCopyName_visible below(3) .
  with copied_confined [OF assms(1) below(2,4) this] assms(5) show ?thesis
    unfolding d by (simp add: join_abs_ordinary_name visible_ordinary)
qed (use assms(4) in simp)

lemma handleMove_confining: "confining G root (\<lambda>_ _. True) handleMove"
  by (rule confining_postI [OF _ handleMove_def])
    (auto simp: Let_def intro: moved_to split: sum.split)

lemma handleCopy_confining: "confining G root (\<lambda>_ _. True) handleCopy"
  by (rule confining_postI [OF _ handleCopy_def])
    (auto simp: Let_def intro: copied_to split: sum.split prod.split)

lemma handleDuplicate_confining: "confining G root (not_the_root G root ''path'') handleDuplicate"
  by (rule confining_postI [OF _ handleDuplicate_def])
    (auto simp: Let_def not_the_root_def intro: duplicated split: sum.split prod.split)

subsection \<open>Delete and the trash\<close>

lemma good_drop: "good_items T \<Longrightarrow> good_items (drop_item i T)"
  by (auto simp: good_items_def drop_item_def list_all_iff dest: set_remove_at_subset [THEN subsetD])

lemma good_save [simp]: "good_items (itemsSave ok T) = good_items T"
  by (simp add: good_items_def itemsSave_def)

lemma moveToTrash_good:
  assumes "\<And>b. rnd = Some b \<Longrightarrow> length b = 32" "moveToTrash env now rnd ok rel u (T, f) = (r, T', f')" "good_items T"
  shows "good_items T'"
  using assms validShareToken_hex
  by (auto simp: moveToTrash_def Let_def randomToken_def good_items_def itemsSave_def
      split: if_splits sum.splits option.splits prod.splits)

lemma restore_good: "restore env ok i (T, f) = (r, T', f') \<Longrightarrow> good_items T \<Longrightarrow> good_items T'"
  by (auto simp: restore_def Let_def good_drop split: if_splits sum.splits option.splits prod.splits)

lemma purge_good: "purge ok i (T, f) = (r, T', f') \<Longrightarrow> good_items T \<Longrightarrow> good_items T'"
  by (auto simp: purge_def purgeLocked_def Let_def good_drop split: if_splits option.splits)

lemma trash_empty_good: "trash_empty ok (T, f) = (r, T', f') \<Longrightarrow> good_items T'"
  by (auto simp: trash_empty_def Let_def good_items_def itemsSave_def split: if_splits)

lemma with_trash_keeps:
  assumes "with_trash op s = (a, s1)"
    and "\<And>r T' f'. op (srvTrash s, srvFs s) = (r, T', f') \<Longrightarrow>
      (confined root (srvFs s) f' \<and> trashRoot T' = trashRoot (srvTrash s)) \<and> (good_items (srvTrash s) \<longrightarrow> good_items T')"
  shows "keeps root s s1"
  using assms by (cases "op (srvTrash s, srvFs s)") (auto simp: with_trash_def keeps_def)

lemma trash_ops_keep:
  assumes t: "tidy_server G root s" and x: "fresh_tokens x"
  shows "with_trash (moveToTrash (gPaths G) now (x_rand x k) ok rel u) s = (r1, s1) \<Longrightarrow> keeps root s s1"
    and "with_trash (restore (gPaths G) ok i) s = (r2, s1) \<Longrightarrow> keeps root s s1"
    and "with_trash (purge ok i) s = (r3, s1) \<Longrightarrow> keeps root s s1"
    and "with_trash (trash_empty ok) s = (r4, s1) \<Longrightarrow> keeps root s s1"
proof -
  have td: "tidy (gPaths G) root (srvTrash s) (srvFs s)" and g: "\<forall>it\<in>set (Items (srvTrash s)). validShareToken (tiID it)"
    using t by (auto simp: tidy_server_def good_items_def list_all_iff)
  have rnd: "\<And>b. x_rand x k = Some b \<Longrightarrow> length b = 32" using x by (simp add: fresh_tokens_def)
  note ops = moveToTrash_confined [OF td rnd] moveToTrash_good [OF rnd] restore_confined [OF td] restore_good
    purge_confined [OF td] purge_good trash_empty_confined [OF td g] trash_empty_good
  show "keeps root s s1" if w: "with_trash (moveToTrash (gPaths G) now (x_rand x k) ok rel u) s = (r1, s1)"
    by (rule with_trash_keeps [OF w]) (metis ops(1,2))
  show "keeps root s s1" if w: "with_trash (restore (gPaths G) ok i) s = (r2, s1)"
    by (rule with_trash_keeps [OF w]) (metis ops(3,4))
  show "keeps root s s1" if w: "with_trash (purge ok i) s = (r3, s1)"
    by (rule with_trash_keeps [OF w]) (metis ops(5,6))
  show "keeps root s s1" if w: "with_trash (trash_empty ok) s = (r4, s1)"
    by (rule with_trash_keeps [OF w]) (metis ops(7,8))
qed

lemma trash_handlers_confining:
  "confining G root (\<lambda>_ _. True) handleDelete" "confining G root (\<lambda>_ _. True) handleTrashRestore"
  "confining G root (\<lambda>_ _. True) handleTrashPurge" "confining G root (\<lambda>_ _. True) handleTrashEmpty"
  "confining G root (\<lambda>_ _. True) handleTrashList"
proof -
  show "confining G root (\<lambda>_ _. True) handleDelete"
    by (rule confining_postI [OF _ handleDelete_def])
      (auto simp: Let_def intro: trash_ops_keep(1) split: sum.split prod.split)
  show "confining G root (\<lambda>_ _. True) handleTrashRestore"
    by (rule confining_postI [OF _ handleTrashRestore_def])
      (auto intro: trash_ops_keep(2) split: sum.split prod.split)
  show "confining G root (\<lambda>_ _. True) handleTrashPurge"
    by (rule confining_postI [OF _ handleTrashPurge_def])
      (auto intro: trash_ops_keep(3) split: sum.split prod.split)
  show "confining G root (\<lambda>_ _. True) handleTrashEmpty"
    by (rule confining_postI [OF _ handleTrashEmpty_def])
      (auto intro: trash_ops_keep(4) split: sum.split prod.split)
  show "confining G root (\<lambda>_ _. True) handleTrashList"
    by (rule confiningI) (simp add: handleTrashList_def)
qed

subsection \<open>Many at once\<close>

lemma tidy_serverD: "tidy_server G root s \<Longrightarrow> tidy (gPaths G) root (srvTrash s) (srvFs s)"
  by (simp add: tidy_server_def)

lemma bulk_loop_keeps:
  assumes "\<And>i rel s ok s1. tidy_server G root s \<Longrightarrow> I s \<Longrightarrow> one i rel s = (ok, s1) \<Longrightarrow> keeps root s s1 \<and> I s1"
    and "tidy_server G root s" "I s" "bulk_loop one i rels s = (res, s')"
  shows "keeps root s s'"
  using assms(2-4)
proof (induction rels arbitrary: i s res s')
  case (Cons rel rels)
  obtain ok s1 where one: "one i (Trim rel ''/'') s = (ok, s1)" by (meson surj_pair)
  obtain r2 s2 where rest: "bulk_loop one (i + 1) rels s1 = (r2, s2)" by (meson surj_pair)
  have "s' = s2" using Cons.prems(3) one rest by (auto simp: Let_def split: prod.splits)
  have k: "keeps root s s1" "I s1" using assms(1) [OF Cons.prems(1,2) one] by auto
  then show ?case
    using Cons.IH [OF tidy_server_keeps [OF Cons.prems(1) k(1)] k(2) rest] \<open>s' = s2\<close> keeps_trans by blast
qed (simp add: keeps_refl)

lemma bulk_delete_one_keeps:
  assumes "fresh_tokens x" "tidy_server G root s" "bulk_delete_one G x u i rel s = (ok, s1)"
  shows "keeps root s s1"
  using assms(3) keeps_refl [OF assms(2)] trash_ops_keep(1) [OF assms(2,1)]
  by (auto simp: bulk_delete_one_def split: if_splits prod.splits sum.splits)

lemma bulk_move_one_keeps:
  assumes "destAbs = root @ w" "visible_path w" "tidy_server G root s" "node_at (srvFs s) destAbs = Some FDir"
    and "bulk_move_one G x destAbs dest i rel s = (ok, s1)"
  shows "keeps root s s1 \<and> node_at (srvFs s1) destAbs = Some FDir"
proof -
  have t: "tidy (gPaths G) root (srvTrash s) (srvFs s)" using assms(3) by (simp add: tidy_server_def)
  note mv = moved_confined [OF t _ _ assms(1,2,4)]
  show ?thesis
    using assms(4,5) keeps_refl [OF assms(3)] mv
    by (auto simp: bulk_move_one_def Let_def split: if_splits sum.splits)
qed

lemma bulk_handlers_confining:
  "confining G root (\<lambda>_ _. True) handleBulkDelete" "confining G root (\<lambda>_ _. True) handleBulkMove"
proof -
  have del: "keeps root s s'" if "tidy_server G root s" "fresh_tokens x" "bulk_loop (bulk_delete_one G x u) 0 ps s = (res, s')" for x u ps s res s'
    using bulk_loop_keeps [where I = "\<lambda>_. True", OF _ that(1) _ that(3)] bulk_delete_one_keeps [OF that(2)] by blast
  have mv: "keeps root s s'"
    if "tidy_server G root s" "safePath (srvFs s) (gPaths G) rel = Inr q" "os_Stat (srvFs s) q = Inr FDir"
      "bulk_loop (bulk_move_one G x q rel) 0 ps s = (res, s')" for x rel q ps s res s'
  proof -
    note q = safePath_dir [OF tidy_serverD [OF that(1)] that(2,3)]
    obtain w where w: "q = root @ w" "visible_path w" "node_at (srvFs s) q = Some FDir" by (rule q)
    from bulk_loop_keeps [where I = "\<lambda>s. node_at (srvFs s) q = Some FDir", OF _ that(1) w(3) that(4)]
      bulk_move_one_keeps [OF w(1,2)] show ?thesis by blast
  qed
  show "confining G root (\<lambda>_ _. True) handleBulkDelete"
    by (rule confining_postI [OF _ handleBulkDelete_def]) (auto simp: Let_def intro: del split: prod.split)
  show "confining G root (\<lambda>_ _. True) handleBulkMove"
    by (rule confining_postI [OF _ handleBulkMove_def]) (auto simp: Let_def intro: mv split: prod.split sum.split)
qed

subsection \<open>Chunked uploads\<close>

lemma upload_target_confined:
  assumes t: "tidy env root T f" and u: "upload_target env rel base f = (r, f')"
  shows "confined root f f'"
proof -
  have "confined root f f1" if "safePath f env rel = Inr p" "os_MkdirAll f p = (e, f1)" for p e f1
    using safePath_tidy [OF t that(1)] MkdirAll_confined [OF t _ _ _ that(2)] by metis
  then show ?thesis
    using u confined_refl [OF tidyD(2) [OF t]]
    by (auto simp: upload_target_def split: sum.splits prod.splits option.splits if_splits)
qed

lemma uploading_path_last: "p \<noteq> [] \<Longrightarrow> uploading_path p = butlast p @ [last p @ ''.uploading'']"
  by (simp add: uploading_path_def)

lemma assembled_confined:
  assumes t: "tidy env root T f" and p: "safePath f env rel = Inr p" and free: "os_Stat f p = Inl ENOENT"
    and c: "os_CreateExcl f (uploading_path p) bs = Inr f1"
  shows "confined root f f1 \<and> confined root f (snd (os_RemoveAll f1 (uploading_path p))) \<and>
    (\<forall>f2. os_Rename f1 (uploading_path p) p = Inr f2 \<longrightarrow> confined root f f2)"
proof -
  obtain v where v: "p = root @ v" "visible_path v" "placed f p" using safePath_tidy [OF t p] .
  have "v \<noteq> []"
  proof
    assume "v = []"
    moreover have "os_Stat f root = lookup_entry f root" using tidyD(3) [OF t] by (simp add: os_Stat_def walk_real_dir_id)
    ultimately show False using free v(1) real_dir_node [OF tidyD(3) [OF t]] by (auto simp: lookup_entry_def split: if_splits)
  qed
  then obtain w a where w: "v = w @ [a]" by (metis rev_exhaust)
  let ?d = "root @ w" and ?b = "a @ ''.uploading''"
  have pd: "p = ?d @ [a]" "uploading_path p = ?d @ [?b]"
    using v(1) w by (simp_all add: uploading_path_def butlast_append)
  have vis: "visible a" "visible ?b" "visible_path w" using v(2) w visible_append [of a "''.uploading''"] by auto
  note wf = tidyD(2) [OF t]
  have dir: "node_at f ?d = Some FDir"
    using placed_resolve [OF wf placed_butlast [OF v(3) [unfolded pd(1)]], of ?b] c
    unfolding pd(2) by (auto simp: os_CreateExcl_def simp del: append_assoc split: sum.splits)
  have f1: "framed (?d @ [?b]) f f1"
    using CreateExcl_framed [OF wf dir visible_ordinary [OF vis(2)]] c unfolding pd(2) by blast
  note i = inside_dir [OF vis(3,2), of root] and d1 = dir_framed [OF f1 dir] and w1 = framed_wf [OF f1]
  have c1: "confined root f f1" using framed_confined [OF f1 i] .
  moreover have "confined root f (snd (os_RemoveAll f1 (uploading_path p)))"
    unfolding pd(2) using framed_confined [OF framed_trans [OF f1 RemoveAll_framed [OF w1 d1]] i] .
  moreover have "confined root f f2" if "os_Rename f1 (uploading_path p) p = Inr f2" for f2
    using Rename_confined [OF w1 d1 d1 visible_ordinary [OF vis(1)] i inside_dir [OF vis(3,1)] that [unfolded pd(2), unfolded pd(1)]]
      confined_trans [OF c1] by blast
  ultimately show ?thesis by blast
qed

lemma um_complete_confined:
  assumes t: "tidy env root T f" and u: "um_complete env now i err (u, f) = (r, u', f')"
  shows "confined root f f'"
proof -
  have "confined root f f'" if "complete_locked env i a err (u1, f) = (r, u', f')" for a u1
    using that confined_refl [OF tidyD(2) [OF t]] assembled_confined [OF t]
    by (auto simp: complete_locked_def Let_def split: if_splits sum.splits option.splits)
  then show ?thesis using u confined_refl [OF tidyD(2) [OF t]] by (auto simp: um_complete_def split: sum.splits prod.splits)
qed

lemma um_init_confined:
  assumes t: "tidy env root T f" and u: "um_init env mx now mt rnd e1 e2 p n sz cs by0 (u, f) = (r, u', f')"
  shows "confined root f f'"
  using u confined_refl [OF tidyD(2) [OF t]] upload_target_confined [OF t]
  by (auto simp: um_init_def Let_def split: if_splits sum.splits prod.splits)

lemma with_up_keeps:
  assumes "tidy_server G root s" "with_up op s = (a, s1)"
    and "\<And>r u f'. op (srvUploads s, srvFs s) = (r, u, f') \<Longrightarrow> confined root (srvFs s) f'"
  shows "keeps root s s1"
  using assms by (cases "op (srvUploads s, srvFs s)") (auto simp: with_up_def keeps_def)

lemma with_uploads_keeps: "tidy_server G root s \<Longrightarrow> with_uploads op s = (a, s1) \<Longrightarrow> keeps root s s1"
  using keeps_refl [of G root s] by (auto simp: with_uploads_def keeps_def split: prod.splits)

lemma upload_handlers_confining:
  "confining G root (\<lambda>_ _. True) handleUploadInit" "confining G root (\<lambda>_ _. True) handleUploadStatus"
  "confining G root (\<lambda>_ _. True) handleUploadChunk" "confining G root (\<lambda>_ _. True) handleUploadComplete"
  "confining G root (\<lambda>_ _. True) handleUploadAbort"
proof -
  have c: "keeps root s s1" if "tidy_server G root s" "with_up (um_complete (gPaths G) now i err) s = (a, s1)" for s now i err a s1
    by (rule with_up_keeps [OF that]) (rule um_complete_confined [OF tidy_serverD [OF that(1)]])
  have i: "keeps root s s1"
    if "tidy_server G root s" "with_up (um_init (gPaths G) mx now mt rnd e1 e2 p n sz cs u) s = (a, s1)" for s mx now mt rnd e1 e2 p n sz cs u a s1
    by (rule with_up_keeps [OF that]) (rule um_init_confined [OF tidy_serverD [OF that(1)]])
  show "confining G root (\<lambda>_ _. True) handleUploadInit"
    by (rule confining_postI [OF _ handleUploadInit_def]) (auto intro: i split: sum.split prod.split)
  show "confining G root (\<lambda>_ _. True) handleUploadStatus"
    by (rule confiningI) (auto simp: handleUploadStatus_def intro: with_uploads_keeps split: sum.split prod.split)
  show "confining G root (\<lambda>_ _. True) handleUploadChunk"
  proof (rule confiningI)
    fix x r s
    assume t: "tidy_server G root s" and k: "keeps root s s"
    have "keeps root s s2" if "with_uploads op s = (a, s1)" "with_uploads op' s1 = (b, s2)" for op a s1 op' b s2
      using with_uploads_keeps [OF t that(1)] with_uploads_keeps [OF tidy_server_keeps [OF t] that(2)] keeps_trans by blast
    then show "keeps root s (snd (handleUploadChunk G x r s))"
      using k with_uploads_keeps [OF t]
      by (auto simp: handleUploadChunk_def Let_def split: sum.split prod.split option.split)
  qed
  show "confining G root (\<lambda>_ _. True) handleUploadComplete"
    by (rule confining_postI [OF _ handleUploadComplete_def]) (auto intro: c split: sum.split prod.split)
  show "confining G root (\<lambda>_ _. True) handleUploadAbort"
    by (rule confining_postI [OF _ handleUploadAbort_def]) (auto intro: with_uploads_keeps split: sum.split prod.split)
qed

end
