(* ===== verification/ShareWeb.thy ===== *)
theory ShareWeb
  imports Content Confinement
begin

text \<open>
  The pages of share links (\<open>shares.go\<close>, from line 57 and from line 489 on): making, listing and revoking
  a link, the public page behind one, its password, its downloads, and the upload into a drop folder. These
  are the pages that need no account. Main results: nothing behind a password is served without it; a
  file a link serves lies in what was shared; a drop upload adds one new file to its folder and nothing else.
\<close>

subsection \<open>Pages\<close>

record shareEntry =
  seName :: string
  seIsDir :: bool
  seSize :: string
  seURL :: string

record sharePageData =
  pgToken :: string
  pgName :: string
  pgIsDir :: bool
  pgIsDrop :: bool
  pgNeedPass :: bool
  pgNotFound :: bool
  pgError :: string
  pgParent :: string
  pgParentURL :: string
  pgZipURL :: string
  pgEntries :: "shareEntry list"
  pgDownloadURL :: string
  pgSize :: string
  pgMaxSizeMB :: int
  pgMessage :: string

definition blank_page :: sharePageData where
  "blank_page = \<lparr>pgToken = [], pgName = [], pgIsDir = False, pgIsDrop = False, pgNeedPass = False, pgNotFound = False,
     pgError = [], pgParent = [], pgParentURL = [], pgZipURL = [], pgEntries = [], pgDownloadURL = [], pgSize = [],
     pgMaxSizeMB = 0, pgMessage = []\<rparr>"

definition entry_json :: "shareEntry \<Rightarrow> json" where
  "entry_json e = JObj [(''Name'', JStr (seName e)), (''IsDir'', JBool (seIsDir e)), (''Size'', JStr (seSize e)), (''URL'', JStr (seURL e))]"

definition page_fields :: "sharePageData \<Rightarrow> (string \<times> json) list" where
  "page_fields d =
     [(''Token'', JStr (pgToken d)), (''Name'', JStr (pgName d)), (''IsDir'', JBool (pgIsDir d)), (''IsDrop'', JBool (pgIsDrop d)),
      (''NeedPass'', JBool (pgNeedPass d)), (''NotFound'', JBool (pgNotFound d)), (''Error'', JStr (pgError d)),
      (''Parent'', JStr (pgParent d)), (''ParentURL'', JStr (pgParentURL d)), (''ZipURL'', JStr (pgZipURL d)),
      (''Entries'', JArr (map entry_json (pgEntries d))), (''DownloadURL'', JStr (pgDownloadURL d)), (''Size'', JStr (pgSize d)),
      (''MaxSizeMB'', JNum (pgMaxSizeMB d)), (''Message'', JStr (pgMessage d))]"

definition csp_share :: string where
  "csp_share = ''default-src '' @ csp_source ''none'' @ ''; base-uri '' @ csp_source ''none''
     @ ''; frame-ancestors '' @ csp_source ''none'' @ ''; form-action '' @ csp_source ''self''
     @ ''; script-src '' @ csp_source ''unsafe-inline'' @ ''; style-src '' @ csp_source ''unsafe-inline''
     @ ''; connect-src '' @ csp_source ''self''"

definition renderSharePage :: "nat \<Rightarrow> sharePageData \<Rightarrow> response" where
  "renderSharePage status d =
     mk_response (if status = 0 then 200 else status)
       [(''Content-Type'', ''text/html; charset=utf-8''), (''X-Content-Type-Options'', ''nosniff''),
        (''Content-Security-Policy'', csp_share)] (BTemplate ''share'' (page_fields d))"

definition renderShareGone :: response where
  "renderShareGone = renderSharePage 404 (blank_page\<lparr>pgNotFound := True\<rparr>)"

subsection \<open>Sizes\<close>

text \<open>
  \<open>float64(n)\<close> for a 64-bit number: 53 bits, rounded to the nearest, ties to even. Dividing by 1024 is
  exact. \<open>fmt\<close> rounds the exact value to one digit in the same way.
\<close>

definition round_half_even :: "int \<Rightarrow> int \<Rightarrow> int" where
  "round_half_even a b =
     (let q = a div b; r = a mod b in if 2 * r < b \<or> (2 * r = b \<and> even q) then q else q + 1)"

fun float64_of_int :: "nat \<Rightarrow> int \<Rightarrow> int" where
  "float64_of_int 0 n = n"
| "float64_of_int (Suc k) n =
     (if n < 2 ^ (53 + k) then float64_of_int k n else round_half_even n (2 ^ (Suc k)) * 2 ^ (Suc k))"

definition one_digit :: "int \<Rightarrow> int \<Rightarrow> string" where
  "one_digit a b = (let t = round_half_even (10 * a) b in itoa_int (t div 10) @ ''.'' @ itoa_int (t mod 10))"

fun human_units :: "int \<Rightarrow> int \<Rightarrow> string list \<Rightarrow> string" where
  "human_units f d [] = one_digit f (1024 * d) @ '' PB''"
| "human_units f d (u # us) =
     (if f < 1024 * (1024 * d) then one_digit f (1024 * d) @ '' '' @ u else human_units f (1024 * d) us)"

definition humanBytes :: "int \<Rightarrow> string" where
  "humanBytes n =
     (if n < 1024 then itoa_int n @ '' B''
      else human_units (float64_of_int 11 n) 1 [''KB'', ''MB'', ''GB'', ''TB''])"

subsection \<open>Managing links\<close>

definition handleCreateShare :: shandler where
  "handleCreateShare G x r s = post_json r (\<lambda>b.
     (case with_shares (share_create (x_now x 2) (x_save x 1)
             (new_share (gU G) (gArgon G) (srvFs s) (gPaths G) (x_now x 2) (x_rand x 0) (x_rand x 1)
                (fStr b ''path'') (session_user r) (fStr b ''expires'') (fStr b ''password'') (fStr b ''kind''))) s of
        (Inl e, s1) \<Rightarrow> (jsonErr 400 e, s1)
      | (Inr sh, s1) \<Rightarrow>
          (let urlPath = ''/s/'' @ Token sh in
           (writeJSON 200 (JObj [(''expires'', JStr (fStr b ''expires'')),
              (''expires_at'', case ExpiresAt sh of None \<Rightarrow> JNull | Some e \<Rightarrow> JNum e),
              (''has_password'', JBool (fStr b ''password'' \<noteq> [])), (''is_dir'', JBool (IsDir sh)),
              (''kind'', JStr (shareKindOrLink sh)), (''max_downloads'', JNum (MaxDownloads sh)),
              (''max_uploads'', JNum (MaxUploads sh)), (''message'', JStr ''Share link created''), (''name'', JStr (shareName sh)),
              (''ok'', JBool True), (''path'', JStr urlPath), (''token'', JStr (Token sh)), (''url'', JStr urlPath)]),
            audit G x (actorName r) ''share_create'' (sharePath sh) r s1)))) s"

definition handleListShares :: shandler where
  "handleListShares G x r s =
     (if rMethod r \<noteq> ''GET'' then (jsonErr 405 ''GET required'', s)
      else let (items, s1) = with_shares (share_listPublic (x_now x 2)) s
           in (writeJSON 200 (JObj [(''ok'', JBool True), (''shares'', JArr items)]), s1))"

definition handleRevokeShare :: shandler where
  "handleRevokeShare G x r s = post_json r (\<lambda>b.
     (let (ok, s1) = with_shares (revoke (x_save x 1) (fStr b ''token'')) s in
      if \<not> ok then (jsonErr 404 ''Share not found'', s1)
      else (jsonOK ''Share revoked'', audit G x (actorName r) ''share_revoke'' (fStr b ''token'') r s1))) s"

subsection \<open>Unlocking\<close>

text \<open>The page that asks for the password, first or again.\<close>

definition password_page :: "Share \<Rightarrow> string \<Rightarrow> sharePageData" where
  "password_page sh err =
     blank_page\<lparr>pgToken := Token sh, pgName := shareName sh, pgIsDir := IsDir sh, pgIsDrop := shareIsDrop sh,
       pgNeedPass := True, pgError := err\<rparr>"

text \<open>
  The form field \<open>password\<close>, \<open>None\<close> when \<open>ParseForm\<close> fails. A multipart body is not read by it but by
  \<open>FormValue\<close>, whose error is not seen.
\<close>

definition unlock_password :: "request \<Rightarrow> string option" where
  "unlock_password r =
     (case rForm r of
        FormOK vals files \<Rightarrow> Some (vals ''password'')
      | _ \<Rightarrow> (if HasPrefix (rHeader r ''Content-Type'') ''multipart/form-data'' then Some [] else None))"

definition handleShareUnlock :: "genv \<Rightarrow> request \<Rightarrow> Share \<Rightarrow> server \<Rightarrow> response" where
  "handleShareUnlock G r sh s =
     (case unlock_password r of
        None \<Rightarrow> renderSharePage 400 (blank_page\<lparr>pgNotFound := True, pgError := ''Bad request''\<rparr>)
      | Some pass \<Rightarrow>
          (if verifyPassword (gArgon G) (sharePasswordHash sh) pass \<noteq> Inr True
           then renderSharePage 401 (password_page sh ''Incorrect password'')
           else setShareUnlockCookie (gU G) (srvSessions s) r sh (redirect (''/s/'' @ Token sh) 303)))"

subsection \<open>Uploading into a drop folder\<close>

definition drop_page :: "genv \<Rightarrow> Share \<Rightarrow> string \<Rightarrow> string \<Rightarrow> sharePageData" where
  "drop_page G sh msg err =
     blank_page\<lparr>pgToken := Token sh, pgName := shareName sh, pgIsDir := True, pgIsDrop := True,
       pgMaxSizeMB := cfg_maxUploadBytes (gConf G) div 2 ^ 20, pgMessage := msg, pgError := err\<rparr>"

definition wantJSON :: "request \<Rightarrow> bool" where
  "wantJSON r = Contains (rHeader r ''Accept'') ''application/json''"

definition drop_respond :: "genv \<Rightarrow> request \<Rightarrow> Share \<Rightarrow> nat \<Rightarrow> string \<Rightarrow> string \<Rightarrow> response" where
  "drop_respond G r sh status msg err =
     (if wantJSON r then
        (if err \<noteq> [] then writeJSON status (JObj [(''error'', JStr err), (''ok'', JBool False)])
         else writeJSON status (JObj [(''message'', JStr msg), (''ok'', JBool True)]))
      else if status = 410 \<or> status = 404
      then renderSharePage status (blank_page\<lparr>pgNotFound := True, pgError := err\<rparr>)
      else renderSharePage status (drop_page G sh msg err))"

definition undo_drop :: "extern \<Rightarrow> Share \<Rightarrow> server \<Rightarrow> server" where
  "undo_drop x sh = on_shares (undoUpload (x_save x 3) (Token sh))"

definition handleDropUpload :: "genv \<Rightarrow> extern \<Rightarrow> request \<Rightarrow> Share \<Rightarrow> server \<Rightarrow> response \<times> server" where
  "handleDropUpload G x r sh s =
     (let f = srvFs s; respond = drop_respond G r sh in
      if \<not> shareIsDrop sh then (renderShareGone, s)
      else case rForm r of
        FormTooLarge \<Rightarrow> (respond 400 [] ''Could not read upload'', s)
      | FormBad \<Rightarrow> (respond 400 [] ''Could not read upload'', s)
      | FormOK vals files \<Rightarrow>
      (case files ''file'' of
         None \<Rightarrow> (respond 400 [] ''No file provided'', s)
       | Some (filename, content) \<Rightarrow>
      (let name0 = sanitizeName filename in
       if name0 = [] then (respond 400 [] ''Invalid filename'', s)
       else case safePath f (gPaths G) (sharePath sh) of
         Inl _ \<Rightarrow>
           (if wantJSON r then writeJSON 410 (JObj [(''error'', JStr ''Drop folder is no longer available.''), (''ok'', JBool False)])
            else renderShareGone, s)
       | Inr dirAbs \<Rightarrow>
      (if os_Stat f dirAbs \<noteq> Inr FDir then (respond 404 [] ''Drop folder is no longer available.'', s)
       else case with_shares (beginUpload (x_now x 4) (x_now x 5) (x_save x 2) (Token sh)) s of
         (Inl _, s1) \<Rightarrow> (respond 410 [] ''This drop link has expired or reached its upload limit.'', s1)
       | (Inr _, s1) \<Rightarrow>
      (let name = uniqueCopyName f (x_now x 6) dirAbs name0; dest = join_abs dirAbs name in
       case store_new_file (cfg_maxUploadBytes (gConf G)) (map_option (\<lambda>_. x_cut x 0) (x_err x 0)) dest content f of
         (OpenExists, f1) \<Rightarrow> (respond 500 [] ''Failed to create file'', undo_drop x sh (on_fs f1 s1))
       | (OpenFails, f1) \<Rightarrow> (respond 500 [] ''Failed to create file'', undo_drop x sh (on_fs f1 s1))
       | (CopyFails, f1) \<Rightarrow> (respond 500 [] ''Failed to write file'', undo_drop x sh (on_fs f1 s1))
       | (TooLarge, f1) \<Rightarrow> (respond 413 [] (max_upload_error G), undo_drop x sh (on_fs f1 s1))
       | (Stored, f1) \<Rightarrow>
           (respond 200 (''Uploaded '' @ name) [],
            audit G x (''drop:'' @ take 8 (Token sh)) ''drop_upload'' (pathJoin [sharePath sh, name]) r
              (invalidateListingCache (on_fs f1 s1))))))))"

subsection \<open>Serving what was shared\<close>

definition reserveAndServeShareFile :: "genv \<Rightarrow> extern \<Rightarrow> request \<Rightarrow> Share \<Rightarrow> apath \<Rightarrow> server \<Rightarrow> response \<times> server" where
  "reserveAndServeShareFile G x r sh target s =
     (case with_shares (beginDownload (x_now x 4) (x_now x 5) (x_save x 2) (x_save x 3) (Token sh)) s of
        (Inl _, s1) \<Rightarrow> (renderShareGone, s1)
      | (Inr _, s1) \<Rightarrow> (serveStoredFile G (srvFs s1) r target True, s1))"

definition clean_inside :: "string \<Rightarrow> string" where
  "clean_inside relInside = Trim (ReplaceByte relInside backslash ''/'') ''/''"

definition share_entries :: "fs \<Rightarrow> apath \<Rightarrow> Share \<Rightarrow> string \<Rightarrow> (string \<times> fnode) list \<Rightarrow> shareEntry list" where
  "share_entries f target sh relInside es =
     map (\<lambda>(name, n).
         (let childRel = pathJoin [relInside, name] in
          if is_dir n then \<lparr>seName = name, seIsDir = True, seSize = [], seURL = ''/s/'' @ Token sh @ ''/browse/'' @ childRel\<rparr>
          else \<lparr>seName = name, seIsDir = False,
                 seSize = (case os_Lstat f (join_abs target name) of Inl _ \<Rightarrow> [] | Inr fi \<Rightarrow> humanBytes (node_size fi)),
                 seURL = ''/s/'' @ Token sh @ ''/f/'' @ childRel\<rparr>))
       (filter (\<lambda>e. \<not> HasPrefix (fst e) ''.'') es)"

definition folder_page :: "fs \<Rightarrow> apath \<Rightarrow> Share \<Rightarrow> string \<Rightarrow> string \<Rightarrow> (string \<times> fnode) list \<Rightarrow> sharePageData" where
  "folder_page f target sh targetRel relInside es =
     (let d = blank_page\<lparr>pgToken := Token sh, pgName := shareName sh, pgIsDir := True,
            pgZipURL := ''/s/'' @ Token sh @ ''/zip'', pgEntries := share_entries f target sh relInside es\<rparr>;
          parent = pathDir relInside
      in if relInside = [] then d
         else d\<lparr>pgName := path_Base targetRel, pgParent := parent,
                pgParentURL := (if parent = [] then ''/s/'' @ Token sh else ''/s/'' @ Token sh @ ''/browse/'' @ parent)\<rparr>)"

text \<open>The path must not leave what was shared: \<open>filepath.Rel\<close> from it does not begin with two dots.\<close>

definition outside_share :: "genv \<Rightarrow> fs \<Rightarrow> Share \<Rightarrow> apath \<Rightarrow> bool" where
  "outside_share G f sh target \<longleftrightarrow>
     (case safePath f (gPaths G) (sharePath sh) of
        Inl _ \<Rightarrow> True
      | Inr sharedAbs \<Rightarrow> HasPrefix (path_Rel sharedAbs target) ''..'')"

definition serveShareContent :: "genv \<Rightarrow> extern \<Rightarrow> request \<Rightarrow> Share \<Rightarrow> string \<Rightarrow> server \<Rightarrow> response \<times> server" where
  "serveShareContent G x r sh relInside0 s =
     (let f = srvFs s; relInside = clean_inside relInside0;
          targetRel = (if relInside \<noteq> [] then pathJoin [sharePath sh, relInside] else sharePath sh)
      in if relInside \<noteq> [] \<and> \<not> IsDir sh then (renderShareGone, s)
      else case safePath f (gPaths G) targetRel of
        Inl _ \<Rightarrow> (renderShareGone, s)
      | Inr target \<Rightarrow>
      (if (if IsDir sh then outside_share G f sh target else targetRel \<noteq> sharePath sh) then (renderShareGone, s)
       else case os_Stat f target of
         Inl _ \<Rightarrow> (renderSharePage 404 (blank_page\<lparr>pgNotFound := True, pgError := ''This file is no longer available.''\<rparr>), s)
       | Inr info \<Rightarrow>
      (if \<not> is_dir info then
         (if \<not> IsDir sh \<and> relInside = [] then
            (renderSharePage 200 (blank_page\<lparr>pgToken := Token sh, pgName := shareName sh,
               pgDownloadURL := ''/s/'' @ Token sh @ ''/download'', pgSize := humanBytes (node_size info)\<rparr>), s)
          else reserveAndServeShareFile G x r sh target s)
       else case os_ReadDir f target of
         Inl _ \<Rightarrow> (renderSharePage 500 (blank_page\<lparr>pgNotFound := True, pgError := ''Could not read this folder.''\<rparr>), s)
       | Inr es \<Rightarrow> (renderSharePage 200 (folder_page f target sh targetRel relInside es), s))))"

definition serveShareDownload :: "genv \<Rightarrow> extern \<Rightarrow> request \<Rightarrow> Share \<Rightarrow> server \<Rightarrow> response \<times> server" where
  "serveShareDownload G x r sh s =
     (if IsDir sh then (redirect (''/s/'' @ Token sh @ ''/zip'') 303, s)
      else case safePath (srvFs s) (gPaths G) (sharePath sh) of
        Inl _ \<Rightarrow> (renderShareGone, s)
      | Inr target \<Rightarrow>
          (case os_Stat (srvFs s) target of
             Inl _ \<Rightarrow> (renderShareGone, s)
           | Inr info \<Rightarrow> (if is_dir info then (renderShareGone, s) else reserveAndServeShareFile G x r sh target s)))"

definition serveShareFile :: "genv \<Rightarrow> extern \<Rightarrow> request \<Rightarrow> Share \<Rightarrow> string \<Rightarrow> server \<Rightarrow> response \<times> server" where
  "serveShareFile G x r sh relInside0 s =
     (let f = srvFs s; relInside = clean_inside relInside0 in
      if \<not> IsDir sh \<or> relInside = [] then (renderShareGone, s)
      else case safePath f (gPaths G) (pathJoin [sharePath sh, relInside]) of
        Inl _ \<Rightarrow> (renderShareGone, s)
      | Inr target \<Rightarrow>
      (if outside_share G f sh target then (renderShareGone, s)
       else case os_Stat f target of
         Inl _ \<Rightarrow> (renderShareGone, s)
       | Inr info \<Rightarrow> (if is_dir info then (renderShareGone, s) else reserveAndServeShareFile G x r sh target s)))"

definition serveShareZip :: "genv \<Rightarrow> extern \<Rightarrow> request \<Rightarrow> Share \<Rightarrow> server \<Rightarrow> response \<times> server" where
  "serveShareZip G x r sh s =
     (if rMethod r \<noteq> ''GET'' \<and> rMethod r \<noteq> ''POST''
      then (renderSharePage 405 (blank_page\<lparr>pgNotFound := True\<rparr>), s)
      else case with_shares (beginDownload (x_now x 4) (x_now x 5) (x_save x 2) (x_save x 3) (Token sh)) s of
        (Inl _, s1) \<Rightarrow> (renderShareGone, s1)
      | (Inr _, s1) \<Rightarrow> (snd (streamZip G (srvFs s1) (shareName sh @ ''.zip'') [sharePath sh]), s1))"

subsection \<open>The public page\<close>

text \<open>The token and what follows it in the path.\<close>

definition share_parts :: "string \<Rightarrow> string \<times> string" where
  "share_parts path =
     (let parts = splitN2 slash (Trim (TrimPrefix path ''/s/'') ''/'')
      in (parts ! 0, if length parts > 1 then parts ! 1 else []))"

definition handlePublicShare :: shandler where
  "handlePublicShare G x r s =
     (if Trim (TrimPrefix (rPath r) ''/s/'') ''/'' = [] then (renderShareGone, s)
      else let (token, sub) = share_parts (rPath r) in
      case with_shares (getValid (x_now x 2) (x_now x 3) (x_save x 1) token) s of
        (Inl _, s1) \<Rightarrow> (renderShareGone, s1)
      | (Inr sh, s1) \<Rightarrow>
          (if sub = ''unlock'' \<and> rMethod r = ''POST'' then (handleShareUnlock G r sh s1, s1)
           else if \<not> shareUnlocked r sh then (renderSharePage 200 (password_page sh []), s1)
           else if shareIsDrop sh then
             (if sub = ''upload'' \<and> rMethod r = ''POST'' then handleDropUpload G x r sh s1
              else if sub \<noteq> [] then (renderShareGone, s1)
              else (renderSharePage 200 (drop_page G sh [] []), s1))
           else if sub = ''download'' then serveShareDownload G x r sh s1
           else if sub = [] \<or> sub = ''browse'' \<or> HasPrefix sub ''browse/'' then
             serveShareContent G x r sh (if HasPrefix sub ''browse/'' then TrimPrefix sub ''browse/'' else []) s1
           else if sub = ''zip'' then serveShareZip G x r sh s1
           else if HasPrefix sub ''f/'' then serveShareFile G x r sh (TrimPrefix sub ''f/'') s1
           else (renderShareGone, s1)))"

subsection \<open>Behind a password\<close>

lemma render_simps [simp]:
  "respStatus (renderSharePage st d) = (if st = 0 then 200 else st)" "respCookies (renderSharePage st d) = []"
  "respBody (renderSharePage st d) = BTemplate ''share'' (page_fields d)"
  by (simp_all add: renderSharePage_def)

text \<open>The bodies that carry stored bytes.\<close>

fun carries_files :: "body \<Rightarrow> bool" where
  "carries_files (BFile p) = True"
| "carries_files (BZip es) = True"
| "carries_files _ = False"

lemma handleShareUnlock_answer:
  "\<not> carries_files (respBody (handleShareUnlock G r sh s)) \<and>
   (respCookies (handleShareUnlock G r sh s) \<noteq> [] \<longrightarrow>
      (\<exists>pass. unlock_password r = Some pass \<and> verifyPassword (gArgon G) (sharePasswordHash sh) pass = Inr True))"
  by (auto simp: handleShareUnlock_def setShareUnlockCookie_def redirect_def renderSharePage_def split: option.split)

text \<open>
  C26: A share with a password serves nothing without it: a request that does not carry the unlock cookie of
  the share gets no stored bytes and changes nothing; and the cookie is given out only for a POST to the unlock page
  with the password.
\<close>

theorem share_password_gate:
  assumes "with_shares (getValid (x_now x 2) (x_now x 3) (x_save x 1) (fst (share_parts (rPath r)))) s = (Inr sh, s1)"
    and "shareNeedsPassword sh" and "request_cookie r (shareUnlockCookieName (Token sh)) \<noteq> Some (shareUnlockValue sh)"
    and "Trim (TrimPrefix (rPath r) ''/s/'') ''/'' \<noteq> []" and "handlePublicShare G x r s = (resp, s')"
  shows "s' = s1 \<and> \<not> carries_files (respBody resp) \<and>
    (respCookies resp \<noteq> [] \<longrightarrow> rMethod r = ''POST'' \<and> snd (share_parts (rPath r)) = ''unlock'' \<and>
       (\<exists>pass. unlock_password r = Some pass \<and> verifyPassword (gArgon G) (sharePasswordHash sh) pass = Inr True))"
proof -
  have "\<not> shareUnlocked r sh" using assms(2,3) by (auto simp: shareUnlocked_def split: option.splits)
  then show ?thesis
    using assms(1,4,5) handleShareUnlock_answer [of G r sh s1]
    by (auto simp: handlePublicShare_def case_prod_beta split: if_splits)
qed

subsection \<open>What a link serves\<close>

definition no_files :: "response \<times> server \<Rightarrow> bool" where
  "no_files res \<longleftrightarrow> (\<forall>p. respBody (fst res) \<noteq> BFile p)"

lemma no_files_simps [simp]:
  "no_files (renderShareGone, s)" "no_files (renderSharePage st d, s)" "no_files (redirect u st, s)"
  by (simp_all add: no_files_def renderShareGone_def redirect_def)

lemma with_shares_fs: "with_shares op s = (a, s1) \<Longrightarrow> srvFs s1 = srvFs s \<and> srvTrash s1 = srvTrash s"
  by (auto simp: with_shares_def split: prod.splits)

lemma reserve_serves:
  assumes "reserveAndServeShareFile G x r sh target s = (resp, s')" "respBody resp = BFile p"
  shows "p = target \<and> harmless (gU G) resp p \<and>
    with_shares (beginDownload (x_now x 4) (x_now x 5) (x_save x 2) (x_save x 3) (Token sh)) s = (Inr (), s')"
proof -
  obtain a s1 where b: "with_shares (beginDownload (x_now x 4) (x_now x 5) (x_save x 2) (x_save x 3) (Token sh)) s = (a, s1)"
    by (meson surj_pair)
  with assms have r: "resp = serveStoredFile G (srvFs s1) r target True" "s' = s1" "a = Inr ()"
    by (auto simp: reserveAndServeShareFile_def renderShareGone_def split: sum.splits)
  have "p = target \<and> respHeaders resp = stored_headers (gU G) (apath_Base target) True"
    using ServeFile_file assms(2) r(1) unfolding serveStoredFile_def by metis
  then show ?thesis using stored_headers_harmless b r by metis
qed

text \<open>A path is inside what is shared: below the folder, or the file itself.\<close>

definition inside_share :: "genv \<Rightarrow> fs \<Rightarrow> Share \<Rightarrow> apath \<Rightarrow> bool" where
  "inside_share G f sh p \<longleftrightarrow>
     (case safePath f (gPaths G) (sharePath sh) of
        Inl _ \<Rightarrow> False
      | Inr q \<Rightarrow> (if IsDir sh then prefix q p else p = q))"

lemma not_outside:
  assumes "storageRealRoot f (gPaths G) = Inr root" "real_dir f root" "safePath f (gPaths G) rel = Inr p"
    and "\<not> outside_share G f sh p" "IsDir sh"
  shows "inside_share G f sh p"
proof -
  obtain q where q: "safePath f (gPaths G) (sharePath sh) = Inr q" "\<not> HasPrefix (path_Rel q p) ''..''"
    using assms(4) by (auto simp: outside_share_def split: sum.splits)
  have "ordinary_path p" using safePath_ordinary [OF assms(1-3)] .
  moreover have "\<not> rel_escapes (path_Rel q p)" using q(2) by (auto simp: rel_escapes_def prefix_def)
  ultimately have "prefix q p" using path_Rel_escapes_iff by blast
  then show ?thesis using q(1) assms(5) by (simp add: inside_share_def)
qed

text \<open>What each page sends, over the place it looks up.\<close>

definition share_serves :: "genv \<Rightarrow> extern \<Rightarrow> apath \<Rightarrow> Share \<Rightarrow> server \<Rightarrow> response \<times> server \<Rightarrow> bool" where
  "share_serves G x root sh s res \<longleftrightarrow> (\<forall>p. respBody (fst res) = BFile p \<longrightarrow>
     visible_file (srvFs s) root p \<and> inside_share G (srvFs s) sh p \<and> harmless (gU G) (fst res) p \<and>
     with_shares (beginDownload (x_now x 4) (x_now x 5) (x_save x 2) (x_save x 3) (Token sh)) s = (Inr (), snd res))"

lemma no_files_serves: "no_files res \<Longrightarrow> share_serves G x root sh s res"
  by (simp add: no_files_def share_serves_def)

lemma reserve_share_serves:
  assumes "storageRealRoot (srvFs s) (gPaths G) = Inr root" "real_dir (srvFs s) root"
    and "safePath (srvFs s) (gPaths G) rel = Inr t" "os_Stat (srvFs s) t = Inr n" "\<not> is_dir n"
    and "inside_share G (srvFs s) sh t"
  shows "share_serves G x root sh s (reserveAndServeShareFile G x r sh t s)"
  unfolding share_serves_def
proof (intro allI impI)
  fix p
  assume b: "respBody (fst (reserveAndServeShareFile G x r sh t s)) = BFile p"
  from reserve_serves [OF prod.collapse [symmetric] b] pages.stat_visible_file [OF assms(1-5)] assms(6)
  show "visible_file (srvFs s) root p \<and> inside_share G (srvFs s) sh p \<and>
      harmless (gU G) (fst (reserveAndServeShareFile G x r sh t s)) p \<and>
      with_shares (beginDownload (x_now x 4) (x_now x 5) (x_save x 2) (x_save x 3) (Token sh)) s =
        (Inr (), snd (reserveAndServeShareFile G x r sh t s))" by blast
qed

lemma pages_serve:
  assumes "storageRealRoot (srvFs s) (gPaths G) = Inr root" "real_dir (srvFs s) root"
  shows "share_serves G x root sh s (serveShareFile G x r sh rel s)"
    and "share_serves G x root sh s (serveShareDownload G x r sh s)"
    and "share_serves G x root sh s (serveShareContent G x r sh rel s)"
proof -
  note rs = reserve_share_serves [OF assms] and io = not_outside [OF assms]
  have self: "inside_share G (srvFs s) sh t" if "safePath (srvFs s) (gPaths G) (sharePath sh) = Inr t" "\<not> IsDir sh" for t
    using that by (simp add: inside_share_def)
  show "share_serves G x root sh s (serveShareFile G x r sh rel s)"
    by (auto simp: serveShareFile_def Let_def no_files_serves intro: rs io split: sum.split)
  show "share_serves G x root sh s (serveShareDownload G x r sh s)"
    by (auto simp: serveShareDownload_def no_files_serves intro: rs self split: sum.split)
  show "share_serves G x root sh s (serveShareContent G x r sh rel s)"
    by (auto simp: serveShareContent_def Let_def no_files_serves intro: rs self io split: sum.split)
qed

lemma drop_respond_body [simp]: "respBody (drop_respond G r sh st msg err) \<noteq> BFile p"
  "respBody (drop_respond G r sh st msg err) \<noteq> BZip z"
  by (auto simp: drop_respond_def)

lemma drop_no_files: "no_files (handleDropUpload G x r sh s)"
  by (auto simp: handleDropUpload_def no_files_def Let_def case_prod_beta renderShareGone_def
      split: form_body.split option.split sum.split stored.split)

lemma unlock_no_files: "no_files (handleShareUnlock G r sh s, s1)"
  using handleShareUnlock_answer [of G r sh s] by (auto simp: no_files_def)

lemma zip_no_files: "no_files (serveShareZip G x r sh s)"
  by (auto simp: serveShareZip_def no_files_def renderShareGone_def streamZip_def Let_def case_prod_beta
      split: sum.split)

text \<open>The token names a share, and the rest of the request is about that share.\<close>

definition names_share :: "extern \<Rightarrow> request \<Rightarrow> server \<Rightarrow> Share \<Rightarrow> server \<Rightarrow> bool" where
  "names_share x r s sh s1 \<longleftrightarrow> Trim (TrimPrefix (rPath r) ''/s/'') ''/'' \<noteq> [] \<and>
     with_shares (getValid (x_now x 2) (x_now x 3) (x_save x 1) (fst (share_parts (rPath r)))) s = (Inr sh, s1)"

text \<open>
  C27: A file that the public page of a link sends is a file below the storage root with no hidden part in its
  path, lies in the folder that was shared (or is the file that was shared), is sent in a way no browser will
  run it, and was counted as one download of the link.
\<close>

theorem share_file_served:
  assumes "storageRealRoot (srvFs s) (gPaths G) = Inr root" "real_dir (srvFs s) root"
    and "names_share x r s sh s1" and "handlePublicShare G x r s = (resp, s')" "respBody resp = BFile p"
  shows "visible_file (srvFs s) root p \<and> inside_share G (srvFs s) sh p \<and> harmless (gU G) resp p \<and>
    with_shares (beginDownload (x_now x 4) (x_now x 5) (x_save x 2) (x_save x 3) (Token sh)) s1 = (Inr (), s')"
proof -
  have f: "srvFs s1 = srvFs s" using assms(3) by (auto simp: names_share_def dest: with_shares_fs)
  note ps = pages_serve [of s1, unfolded f, OF assms(1,2)]
  have "share_serves G x root sh s1 (handlePublicShare G x r s)"
    using assms(3) by (auto simp: handlePublicShare_def names_share_def case_prod_beta ps
        intro: no_files_serves drop_no_files unlock_no_files zip_no_files)
  then show ?thesis using assms(4,5) f by (simp add: share_serves_def)
qed

subsection \<open>What a drop upload changes\<close>

text \<open>One new file, and every other entry as it was.\<close>

definition adds_file :: "apath \<Rightarrow> string \<Rightarrow> fs \<Rightarrow> fs \<Rightarrow> bool" where
  "adds_file p b f f' \<longleftrightarrow> node_at f p = None \<and> node_at f' = (node_at f)(p \<mapsto> FFile b)"

lemma placed_dir: "placed f p \<Longrightarrow> os_Stat f p = Inr FDir \<Longrightarrow> real_dir f p"
  using placed_entry [of f p FDir] wf_fs_missing_below
  by (auto simp: placed_def real_entry_def lookup_entry_def os_Stat_missing os_Stat_def walk_real_dir walk_ordinary
      split: if_splits option.splits)

lemma real_dir_set_node:
  assumes "real_dir f d"
  shows "real_dir (set_node (d @ [c]) n f) d"
proof -
  have "lookup_entry (set_node (d @ [c]) n f) q = lookup_entry f q" if "prefix q d" for q
    using that by (auto simp: lookup_entry_def node_at_set_node prefix_def)
  then show ?thesis using assms by (auto simp: real_dir_def list_all_iff)
qed

lemma store_new_file_exact:
  assumes "wf_fs f" "real_dir f d" "ordinary c" "0 \<le> limit" "limit < 2 ^ 63 - 1"
    and "store_new_file limit stop (d @ [c]) content f = (res, f')"
  shows "(case res of
      Stored \<Rightarrow> (\<exists>b. content = Some b \<and> int (length b) \<le> limit \<and> adds_file (d @ [c]) b f f')
    | _ \<Rightarrow> node_at f' = node_at f)"
proof -
  note dir = real_dir_node [OF assms(2)]
  have i: "int64 (limit + 1) = limit + 1" using assms(4,5) by (simp add: int64_id)
  have undone: "node_at (removed f1 (d @ [c])) = node_at f" if "os_CreateExcl f (d @ [c]) b = Inr f1" for b f1
  proof -
    from CreateExcl_in_dir [OF assms(1) dir that]
    have n: "node_at f (d @ [c]) = None" and f1: "f1 = set_node (d @ [c]) (FFile b) f" by auto
    have "\<not> wfail f (d @ [c])"
      using that resolve_nofollow_real [OF assms(2), of c] n by (auto simp: os_CreateExcl_def split: if_splits)
    then have "removed f1 (d @ [c]) = del_tree (d @ [c]) f1"
      using resolve_nofollow_real [OF real_dir_set_node [OF assms(2)], of c "FFile b" c]
      by (simp add: removed_def os_Remove_def f1 node_at_set_node)
    then show ?thesis
      using wf_fs_missing_below [OF assms(1) n] n by (auto simp: f1 node_at_set_node node_at_del_tree fun_eq_iff prefix_def)
  qed
  have "adds_file (d @ [c]) b f f1" if "os_CreateExcl f (d @ [c]) b = Inr f1" for b f1
    using CreateExcl_in_dir [OF assms(1) dir that] by (auto simp: adds_file_def node_at_set_node)
  then show ?thesis
    using assms(6) i undone assms(4)
    by (auto simp: store_new_file_def Let_def min_def
        split: sum.splits if_splits option.splits)
qed

text \<open>The request uploads into a drop folder it may use, and the file it brings.\<close>

definition drops_into :: "request \<Rightarrow> Share \<Rightarrow> bool" where
  "drops_into r sh \<longleftrightarrow> rMethod r = ''POST'' \<and> snd (share_parts (rPath r)) = ''upload'' \<and> shareIsDrop sh \<and> shareUnlocked r sh"

fun dropped_file :: "form_body \<Rightarrow> string option" where
  "dropped_file (FormOK vals files) = Option.bind (files ''file'') snd"
| "dropped_file _ = None"

lemma with_shares_snd [simp]: "srvFs (snd (with_shares op s)) = srvFs s" "srvTrash (snd (with_shares op s)) = srvTrash s"
  by (simp_all add: with_shares_def case_prod_beta)

lemma serve_fs [simp]:
  "srvFs (snd (reserveAndServeShareFile G x r sh t s)) = srvFs s" "srvTrash (snd (reserveAndServeShareFile G x r sh t s)) = srvTrash s"
  "srvFs (snd (serveShareZip G x r sh s)) = srvFs s" "srvTrash (snd (serveShareZip G x r sh s)) = srvTrash s"
  by (simp_all add: reserveAndServeShareFile_def serveShareZip_def case_prod_beta split: sum.split)

lemma serve_pages_fs [simp]:
  "srvFs (snd (serveShareDownload G x r sh s)) = srvFs s" "srvTrash (snd (serveShareDownload G x r sh s)) = srvTrash s"
  "srvFs (snd (serveShareFile G x r sh rel s)) = srvFs s" "srvTrash (snd (serveShareFile G x r sh rel s)) = srvTrash s"
  "srvFs (snd (serveShareContent G x r sh rel s)) = srvFs s" "srvTrash (snd (serveShareContent G x r sh rel s)) = srvTrash s"
  by (simp_all add: serveShareDownload_def serveShareFile_def serveShareContent_def Let_def split: sum.split)

lemma names_share_fs: "names_share x r s sh s1 \<Longrightarrow> srvFs s1 = srvFs s \<and> srvTrash s1 = srvTrash s"
  by (auto simp: names_share_def dest: with_shares_fs)

lemma other_pages_fs: "\<not> drops_into r sh \<Longrightarrow> names_share x r s sh s1 \<Longrightarrow>
  srvFs (snd (handlePublicShare G x r s)) = srvFs s \<and> srvTrash (snd (handlePublicShare G x r s)) = srvTrash s"
  using names_share_fs [of x r s sh s1]
  by (auto simp: handlePublicShare_def names_share_def drops_into_def case_prod_beta)

lemma drop_page_fs: "drops_into r sh \<Longrightarrow> names_share x r s sh s1 \<Longrightarrow>
  handlePublicShare G x r s = handleDropUpload G x r sh s1"
  by (auto simp: handlePublicShare_def names_share_def drops_into_def case_prod_beta)

lemma drop_respond_status [simp]: "st \<noteq> 0 \<Longrightarrow> respStatus (drop_respond G r sh st msg err) = st"
  by (auto simp: drop_respond_def)

lemma undo_drop_fs [simp]: "srvFs (undo_drop x sh s) = srvFs s" "srvTrash (undo_drop x sh s) = srvTrash s"
  by (simp_all add: undo_drop_def on_shares_def)

lemma stored_drop:
  assumes t: "tidy_server G root s" and l: "0 \<le> cfg_maxUploadBytes (gConf G)" "cfg_maxUploadBytes (gConf G) < 2 ^ 63 - 1"
    and "safePath (srvFs s) (gPaths G) rel = Inr dir" "os_Stat (srvFs s) dir = Inr FDir" "sanitizeName n \<noteq> []"
    and "store_new_file (cfg_maxUploadBytes (gConf G)) stop (join_abs dir (uniqueCopyName (srvFs s) now dir (sanitizeName n)))
      content (srvFs s) = (res, f')"
  shows "(case res of
      Stored \<Rightarrow> (\<exists>c b. visible c \<and> content = Some b \<and> int (length b) \<le> cfg_maxUploadBytes (gConf G) \<and>
        adds_file (dir @ [c]) b (srvFs s) f')
    | _ \<Rightarrow> node_at f' = node_at (srvFs s))"
proof -
  let ?c = "uniqueCopyName (srvFs s) now dir (sanitizeName n)"
  have td: "tidy (gPaths G) root (srvTrash s) (srvFs s)" using t by (simp add: tidy_server_def)
  have c: "visible ?c" using uniqueCopyName_visible [OF sanitizeName_visible [OF assms(6)]] .
  have pd: "placed (srvFs s) dir" using safePath_tidy [OF td assms(4)] by metis
  have "join_abs dir ?c = dir @ [?c]" using c by (simp add: join_abs_ordinary_name visible_ordinary)
  then have "store_new_file (cfg_maxUploadBytes (gConf G)) stop (dir @ [?c]) content (srvFs s) = (res, f')"
    using assms(7) by simp
  from store_new_file_exact [OF tidyD(2) [OF td] placed_dir [OF pd assms(5)] visible_ordinary [OF c] l this]
  show ?thesis using c by (cases res) auto
qed

text \<open>What the page of an upload does to the files.\<close>

definition drop_effect :: "genv \<Rightarrow> extern \<Rightarrow> request \<Rightarrow> Share \<Rightarrow> server \<Rightarrow> response \<times> server \<Rightarrow> bool" where
  "drop_effect G x r sh s res \<longleftrightarrow>
     (if respStatus (fst res) = 200
      then (\<exists>dir c b. safePath (srvFs s) (gPaths G) (sharePath sh) = Inr dir \<and> visible c \<and>
        adds_file (dir @ [c]) b (srvFs s) (srvFs (snd res)) \<and> dropped_file (rForm r) = Some b \<and>
        int (length b) \<le> cfg_maxUploadBytes (gConf G) \<and>
        fst (with_shares (beginUpload (x_now x 4) (x_now x 5) (x_save x 2) (Token sh)) s) = Inr ())
      else node_at (srvFs (snd res)) = node_at (srvFs s))"

lemma drop_fs:
  assumes t: "tidy_server G root s" and l: "0 \<le> cfg_maxUploadBytes (gConf G)" "cfg_maxUploadBytes (gConf G) < 2 ^ 63 - 1"
  shows "drop_effect G x r sh s (handleDropUpload G x r sh s)"
proof -
  note st = stored_drop [OF t l]
  show ?thesis
    unfolding handleDropUpload_def Let_def
    by (auto simp: drop_effect_def renderShareGone_def dest!: with_shares_fs st [rotated 3]
      split: form_body.split option.split sum.split stored.split prod.split) blast+
qed

text \<open>
  C28: An upload through a drop link. A request that is not an upload of an unlocked visitor into a drop folder
  leaves every file and folder as it was. An upload answered 200 was counted against the quota of the link and
  adds exactly one new file, holding exactly the bytes sent and no more than the limit, under a visible name in
  the drop folder; it overwrites nothing. Any other answer leaves no trace in the folder, also when writing fails midway.
\<close>

theorem drop_upload_adds_one_file:
  assumes "tidy_server G root s" "names_share x r s sh s1"
    and "0 \<le> cfg_maxUploadBytes (gConf G)" "cfg_maxUploadBytes (gConf G) < 2 ^ 63 - 1"
  shows "if drops_into r sh then drop_effect G x r sh s1 (handlePublicShare G x r s)
    else srvFs (snd (handlePublicShare G x r s)) = srvFs s"
proof -
  have "tidy_server G root s1" using assms(1) names_share_fs [OF assms(2)] by (simp add: tidy_server_def good_items_def tidy_def)
  from drop_fs [OF this assms(3,4)] show ?thesis
    using drop_page_fs [OF _ assms(2)] other_pages_fs [OF _ assms(2)] by auto
qed

lemma no_share_fs:
  assumes "\<nexists>sh s1. names_share x r s sh s1"
  shows "srvFs (snd (handlePublicShare G x r s)) = srvFs s \<and> srvTrash (snd (handlePublicShare G x r s)) = srvTrash s"
  using assms
  by (auto simp: handlePublicShare_def names_share_def case_prod_beta split: sum.split) (metis surjective_pairing)+

lemma handlePublicShare_confining: "confining G root (\<lambda>_ _. True) handlePublicShare"
proof (rule confiningI)
  fix x r s
  assume t: "tidy_server G root s" and k: "keeps root s s"
  show "keeps root s (snd (handlePublicShare G x r s))"
  proof (cases "\<exists>sh s1. names_share x r s sh s1 \<and> drops_into r sh")
    case True
    then obtain sh s1 where n: "names_share x r s sh s1" and d: "drops_into r sh" by blast
    note f = names_share_fs [OF n]
    have "tidy (gPaths G) root (srvTrash s) (srvFs s)" using t by (simp add: tidy_server_def)
    note st = stored_confined(1) [OF this _ uniqueCopyName_visible [OF sanitizeName_visible]]
    have "keeps root s (snd (handleDropUpload G x r sh s1))"
      unfolding handleDropUpload_def Let_def using k f
      by (auto simp: keeps_def on_fs_def join_abs_ordinary_name uniqueCopyName_visible sanitizeName_visible visible_ordinary
          dest!: with_shares_fs intro: st split: form_body.split option.split sum.split stored.split prod.split)
    then show ?thesis using drop_page_fs [OF d n] by simp
  next
    case False
    have "srvFs (snd (handlePublicShare G x r s)) = srvFs s \<and> srvTrash (snd (handlePublicShare G x r s)) = srvTrash s"
      using False other_pages_fs no_share_fs by blast
    then show ?thesis using k by (simp add: keeps_def)
  qed
qed

subsection \<open>Examples\<close>

definition demo_shared :: "Share \<Rightarrow> server" where
  "demo_shared sh = (demo_server [])\<lparr>srvShares := \<lparr>Shares = [sh], sharesDisk = None\<rparr>\<rparr>"

definition demo_visit :: "string \<Rightarrow> request" where
  "demo_visit sub = demo_get (''/s/'' @ demo_token @ sub)"

lemma demo_names:
  assumes "Trim (TrimPrefix (rPath r) ''/s/'') ''/'' \<noteq> []"
    and "fst (with_shares (getValid (x_now x 2) (x_now x 3) (x_save x 1) (fst (share_parts (rPath r)))) s) = Inr sh"
  obtains s1 where "names_share x r s sh s1"
  using assms unfolding names_share_def by (metis prod.collapse)

lemma demo_tidy: "tidy_server demo_G [''s''] (demo_shared sh)"
proof -
  have "wf_fs demo_trash_fs" by (rule wf_fs_list) code_simp
  moreover have "real_dir demo_trash_fs [''s'', trashDirName, trashItemsDir]"
    "cachedRealRoot demo_env (rootDir demo_env) = Some [''s'']" by code_simp+
  ultimately show ?thesis
    by (simp add: tidy_server_def tidy_def good_items_def demo_shared_def demo_server_def demo_G_def demo_trash_def trashDirName_def)
qed

theorem share_password_gate_witness:
  "\<not> carries_files (respBody (fst (handlePublicShare demo_G demo_x (demo_visit ''/zip'')
     (demo_shared (demo_share\<lparr>sharePasswordHash := ''h''\<rparr>)))))"
proof -
  let ?sh = "demo_share\<lparr>sharePasswordHash := ''h''\<rparr>" and ?r = "demo_visit ''/zip''"
  let ?s = "demo_shared ?sh"
  have n: "Trim (TrimPrefix (rPath ?r) ''/s/'') ''/'' \<noteq> []"
    and g: "fst (with_shares (getValid (x_now demo_x 2) (x_now demo_x 3) (x_save demo_x 1) (fst (share_parts (rPath ?r)))) ?s) = Inr ?sh"
    by code_simp+
  obtain s1 where s1: "names_share demo_x ?r ?s ?sh s1" using demo_names [OF n g] .
  have "shareNeedsPassword ?sh" by (simp add: shareNeedsPassword_def)
  moreover have "request_cookie ?r c \<noteq> Some v" for c v
    by (simp add: request_cookie_def demo_visit_def demo_get_def demo_request_def)
  ultimately show ?thesis
    using share_password_gate [of demo_x ?r ?s ?sh s1 demo_G] s1 n unfolding names_share_def by (metis prod.collapse)
qed

theorem share_file_served_witness:
  "respBody (fst (handlePublicShare demo_G demo_x (demo_visit ''/f/a.txt'') (demo_shared demo_share))) = BFile [''s'', ''docs'', ''a.txt''] \<and>
   inside_share demo_G (srvFs (demo_shared demo_share)) demo_share [''s'', ''docs'', ''a.txt'']"
proof -
  let ?r = "demo_visit ''/f/a.txt''" and ?s = "demo_shared demo_share"
  have n: "Trim (TrimPrefix (rPath ?r) ''/s/'') ''/'' \<noteq> []"
    and g: "fst (with_shares (getValid (x_now demo_x 2) (x_now demo_x 3) (x_save demo_x 1) (fst (share_parts (rPath ?r)))) ?s) = Inr demo_share"
    and b: "respBody (fst (handlePublicShare demo_G demo_x ?r ?s)) = BFile [''s'', ''docs'', ''a.txt'']"
    by code_simp+
  obtain s1 where s1: "names_share demo_x ?r ?s demo_share s1" using demo_names [OF n g] .
  have "storageRealRoot (srvFs ?s) (gPaths demo_G) = Inr [''s'']" "real_dir (srvFs ?s) [''s'']" by code_simp+
  from share_file_served [OF this s1 prod.collapse [symmetric] b] b show ?thesis by blast
qed

definition demo_dropping :: request where
  "demo_dropping = (demo_visit ''/upload'')\<lparr>rMethod := ''POST'', rForm := FormOK (\<lambda>_. [])
     (\<lambda>k. if k = ''file'' then Some (''a.txt'', Some ''news'') else None)\<rparr>"

theorem drop_upload_adds_one_file_witness:
  "respStatus (fst (handlePublicShare demo_G demo_x demo_dropping (demo_shared demo_drop))) = 200 \<and>
   (\<exists>c. visible c \<and> node_at (srvFs (snd (handlePublicShare demo_G demo_x demo_dropping (demo_shared demo_drop)))) [''s'', ''docs'', c] =
      Some (FFile ''news''))"
proof -
  let ?s = "demo_shared demo_drop"
  have n: "Trim (TrimPrefix (rPath demo_dropping) ''/s/'') ''/'' \<noteq> []"
    and g: "fst (with_shares (getValid (x_now demo_x 2) (x_now demo_x 3) (x_save demo_x 1) (fst (share_parts (rPath demo_dropping)))) ?s) = Inr demo_drop"
    and d: "drops_into demo_dropping demo_drop" and f: "dropped_file (rForm demo_dropping) = Some ''news''"
    and q: "safePath (srvFs ?s) (gPaths demo_G) (sharePath demo_drop) = Inr [''s'', ''docs'']"
    and st: "respStatus (fst (handlePublicShare demo_G demo_x demo_dropping ?s)) = 200"
    by code_simp+
  obtain s1 where s1: "names_share demo_x demo_dropping ?s demo_drop s1" using demo_names [OF n g] .
  have "drop_effect demo_G demo_x demo_dropping demo_drop s1 (handlePublicShare demo_G demo_x demo_dropping ?s)"
    using drop_upload_adds_one_file [OF demo_tidy s1] d by (simp add: demo_G_def demo_conf_def)
  then have "\<exists>c. visible c \<and> adds_file ([''s'', ''docs''] @ [c]) ''news'' (srvFs s1)
      (srvFs (snd (handlePublicShare demo_G demo_x demo_dropping ?s)))"
    using st f q names_share_fs [OF s1] by (auto simp: drop_effect_def)
  then show ?thesis using st by (auto simp: adds_file_def)
qed

subsection \<open>Two gaps\<close>

text \<open>
  The archive of a shared folder follows links to anything below the storage root: a file beside the shared
  folder comes out of the share's own zip.
\<close>

definition demo_beside :: server where
  "demo_beside = on_fs (set_node [''s'', ''docs'', ''l''] (FLink ''../top.txt'')
     (set_node [''s'', ''top.txt''] (FFile ''private'') demo_trash_fs)) (demo_shared demo_share)"

lemma share_zip_leaks:
  "respBody (fst (handlePublicShare demo_G demo_x (demo_visit ''/zip'') demo_beside)) =
     BZip [(''docs/a.txt'', ''hello''), (''docs/l'', ''private'')] \<and>
   node_at (srvFs demo_beside) [''s'', ''top.txt''] = Some (FFile ''private'') \<and>
   \<not> inside_share demo_G (srvFs demo_beside) demo_share [''s'', ''top.txt'']"
  by (intro conjI; code_simp)

text \<open>The answer to a new link says it has a password whenever one was sent, also one that counts as none.\<close>

lemma blank_password_reported:
  assumes "rMethod r = ''POST''" "rBody r = BodyOK b" "fStr b ''password'' \<noteq> []"
    and "fst (with_shares (share_create (x_now x 2) (x_save x 1) (new_share (gU G) (gArgon G) (srvFs s) (gPaths G) (x_now x 2)
        (x_rand x 0) (x_rand x 1) (fStr b ''path'') (session_user r) (fStr b ''expires'') (fStr b ''password'') (fStr b ''kind''))) s) = Inr sh"
  shows "\<exists>fs. respBody (fst (handleCreateShare G x r s)) = BJson (JObj fs) \<and> map_of fs ''has_password'' = Some (JBool True)"
  using assms
  by (auto simp: handleCreateShare_def post_json_def requirePOST_def decodeJSONBody_def writeJSON_def Let_def split: prod.splits)

end
