(* ===== verification/Atomic.thy ===== *)
theory Atomic
  imports Prelude
begin

text \<open>
  \<open>writeFileAtomic\<close> (\<open>atomic.go\<close>): every JSON file of the program is written through a second file
  that is synced and then renamed over the first. Main result: at whatever moment the machine stops, the file
  holds one of the contents it could hold before or the whole new one; an error means the old content is
  kept. This is what the models of the stores take for granted of a save.
\<close>

subsection \<open>A disk that may lose what was not synced\<close>

text \<open>
  A name leads to a numbered file. \<open>dNames\<close> lists the directories the disk may come back with after a
  stop, the present one first: older ones go when the directory is synced. \<open>dData\<close> is what a reader sees of a
  file now, \<open>dDurable\<close> what it may hold after a stop.
\<close>

record disk =
  dNames :: "(string \<Rightarrow> nat option) list"
  dData :: "nat \<Rightarrow> string"
  dDurable :: "nat \<Rightarrow> string list"
  dNext :: nat

definition dir_now :: "disk \<Rightarrow> string \<Rightarrow> nat option" where
  "dir_now d = (case dNames d of [] \<Rightarrow> (\<lambda>_. None) | m # _ \<Rightarrow> m)"

definition content :: "string \<Rightarrow> disk \<Rightarrow> string option" where
  "content name d = map_option (dData d) (dir_now d name)"

text \<open>What a name may lead to after a stop.\<close>

definition after_stop :: "string \<Rightarrow> disk \<Rightarrow> string option list" where
  "after_stop name d =
     concat (map (\<lambda>m. case m name of None \<Rightarrow> [None] | Some i \<Rightarrow> map Some (dDurable d i)) (dNames d))"

definition set_dir :: "(string \<Rightarrow> nat option) \<Rightarrow> disk \<Rightarrow> disk" where
  "set_dir m d = d\<lparr>dNames := m # dNames d\<rparr>"

text \<open>Opening with \<open>O_CREATE|O_TRUNC\<close>: a new empty file, or the old one cut off, which need not be so after a stop.\<close>

definition disk_open :: "string \<Rightarrow> disk \<Rightarrow> nat \<times> disk" where
  "disk_open name d =
     (case dir_now d name of
        Some i \<Rightarrow> (i, d\<lparr>dData := (dData d)(i := []), dDurable := (dDurable d)(i := [] # dDurable d i)\<rparr>)
      | None \<Rightarrow>
          (dNext d, set_dir ((dir_now d)(name \<mapsto> dNext d))
             (d\<lparr>dData := (dData d)(dNext d := []), dDurable := (dDurable d)(dNext d := [[]]), dNext := dNext d + 1\<rparr>)))"

text \<open>After a write that is not synced any beginning of the bytes may be on the disk.\<close>

definition disk_write :: "nat \<Rightarrow> string \<Rightarrow> disk \<Rightarrow> disk" where
  "disk_write i b d =
     d\<lparr>dData := (dData d)(i := dData d i @ b),
       dDurable := (dDurable d)(i := dDurable d i @ map (\<lambda>k. dData d i @ take k b) [0..<length b + 1])\<rparr>"

definition disk_sync :: "nat \<Rightarrow> disk \<Rightarrow> disk" where
  "disk_sync i d = d\<lparr>dDurable := (dDurable d)(i := [dData d i])\<rparr>"

definition disk_remove :: "string \<Rightarrow> disk \<Rightarrow> disk" where
  "disk_remove name d = set_dir ((dir_now d)(name := None)) d"

definition disk_rename :: "string \<Rightarrow> string \<Rightarrow> disk \<Rightarrow> disk" where
  "disk_rename a b d = set_dir ((dir_now d)(b := dir_now d a, a := None)) d"

definition disk_sync_dir :: "disk \<Rightarrow> disk" where
  "disk_sync_dir d = d\<lparr>dNames := [dir_now d]\<rparr>"

subsection \<open>The function\<close>

text \<open>
  Which calls fail, each as the error it returns: making the directory, opening, writing (after so many
  bytes), syncing, closing, renaming; and whether the removal of the second file and the sync of the directory
  work, whose errors are not looked at. The result is the error returned, if any, and every state of the disk
  on the way, the last one first. Making directories does not change where the names lead.
\<close>

record atomic_faults =
  afMkdir :: "error option"
  afOpen :: "error option"
  afWrite :: "(nat \<times> error) option"
  afSync :: "error option"
  afClose :: "error option"
  afRename :: "error option"
  afRemove :: bool
  afDirSync :: bool

definition cleanup_tmp :: "atomic_faults \<Rightarrow> string \<Rightarrow> disk list \<Rightarrow> disk list" where
  "cleanup_tmp af tmp ds = (if afRemove af then disk_remove tmp (hd ds) # ds else ds)"

definition writeFileAtomic :: "atomic_faults \<Rightarrow> string \<Rightarrow> string \<Rightarrow> disk \<Rightarrow> error option \<times> disk list" where
  "writeFileAtomic af path data d =
     (let tmp = path @ ''.tmp'' in
      case afMkdir af of Some e \<Rightarrow> (Some e, [d]) | None \<Rightarrow>
      (case afOpen af of Some e \<Rightarrow> (Some e, [d]) | None \<Rightarrow>
      (let (i, d1) = disk_open tmp d in
      case afWrite af of Some (k, e) \<Rightarrow> (Some e, cleanup_tmp af tmp [disk_write i (take k data) d1, d1, d]) | None \<Rightarrow>
      (let d2 = disk_write i data d1 in
      case afSync af of Some e \<Rightarrow> (Some e, cleanup_tmp af tmp [d2, d1, d]) | None \<Rightarrow>
      (let d3 = disk_sync i d2 in
      case afClose af of Some e \<Rightarrow> (Some e, cleanup_tmp af tmp [d3, d2, d1, d]) | None \<Rightarrow>
      (case afRename af of Some e \<Rightarrow> (Some e, cleanup_tmp af tmp [d3, d2, d1, d]) | None \<Rightarrow>
      (let d4 = disk_rename tmp path d3
       in (None, (if afDirSync af then [disk_sync_dir d4] else []) @ [d4, d3, d2, d1, d]))))))))"

subsection \<open>Stopping at any moment\<close>

text \<open>
  Every number in a directory is in use, and the second file of \<open>path\<close> is not a file that \<open>path\<close> itself may
  lead to after a stop.
\<close>

definition wf_disk :: "string \<Rightarrow> disk \<Rightarrow> bool" where
  "wf_disk path d \<longleftrightarrow> dNames d \<noteq> [] \<and> (\<forall>m\<in>set (dNames d). \<forall>name i. m name = Some i \<longrightarrow> i < dNext d) \<and>
     (\<forall>i. dir_now d (path @ ''.tmp'') = Some i \<longrightarrow> (\<forall>m\<in>set (dNames d). m path \<noteq> Some i))"

text \<open>A file apart from every one that \<open>path\<close> may lead to.\<close>

definition apart_from :: "string \<Rightarrow> nat \<Rightarrow> disk \<Rightarrow> bool" where
  "apart_from path i d \<longleftrightarrow> (\<forall>m\<in>set (dNames d). m path \<noteq> Some i)"

lemma in_after_stop:
  "x \<in> set (after_stop name d) \<longleftrightarrow>
     (\<exists>m\<in>set (dNames d). (m name = None \<and> x = None) \<or> (\<exists>i. m name = Some i \<and> (\<exists>c\<in>set (dDurable d i). x = Some c)))"
  unfolding after_stop_def set_concat set_map
  by (auto split: option.splits) (metis image_eqI option.simps(5) | force)+

lemma after_stop_cong:
  assumes "dNames d' = dNames d" and "\<And>m i. m \<in> set (dNames d) \<Longrightarrow> m path = Some i \<Longrightarrow> dDurable d' i = dDurable d i"
  shows "after_stop path d' = after_stop path d"
  unfolding after_stop_def assms(1)
  by (rule arg_cong [of _ _ concat], rule map_cong) (use assms(2) in \<open>auto split: option.split\<close>)

lemma dir_now_set_dir [simp]: "dir_now (set_dir m d) = m"
  by (simp add: set_dir_def dir_now_def)

lemma dir_now_in: "dNames d \<noteq> [] \<Longrightarrow> dir_now d \<in> set (dNames d)"
  by (cases "dNames d") (simp_all add: dir_now_def)

lemma after_stop_add:
  assumes "dNames d' = m # dNames d" "dDurable d' = dDurable d" "m path = dir_now d path" "dNames d \<noteq> []"
  shows "set (after_stop path d') = set (after_stop path d)"
proof -
  have "x \<in> set (after_stop path d') \<longleftrightarrow> x \<in> set (after_stop path d)" for x
    using dir_now_in [OF assms(4)] assms(3) unfolding in_after_stop assms(1,2) by auto
  then show ?thesis by blast
qed

text \<open>What stays for \<open>path\<close> while only a file apart from it changes.\<close>

definition same_for :: "string \<Rightarrow> disk \<Rightarrow> disk \<Rightarrow> bool" where
  "same_for path d d' \<longleftrightarrow> set (after_stop path d') = set (after_stop path d) \<and> content path d' = content path d"

text \<open>The second file is open as number \<open>i\<close>.\<close>

definition tmp_open :: "string \<Rightarrow> nat \<Rightarrow> disk \<Rightarrow> bool" where
  "tmp_open path i d \<longleftrightarrow> wf_disk path d \<and> dir_now d (path @ ''.tmp'') = Some i"

lemma tmp_open_apart: "tmp_open path i d \<Longrightarrow> m \<in> set (dNames d) \<Longrightarrow> m path \<noteq> Some i"
  by (auto simp: tmp_open_def wf_disk_def)

lemma disk_open_tmp:
  assumes "wf_disk path d" "disk_open (path @ ''.tmp'') d = (i, d1)"
  shows "tmp_open path i d1" "same_for path d d1" "dData d1 i = []"
proof -
  have n: "dNames d \<noteq> []" and u: "\<And>m name j. m \<in> set (dNames d) \<Longrightarrow> m name = Some j \<Longrightarrow> j < dNext d"
    and a: "\<And>j m. dir_now d (path @ ''.tmp'') = Some j \<Longrightarrow> m \<in> set (dNames d) \<Longrightarrow> m path \<noteq> Some j"
    using assms(1) by (auto simp: wf_disk_def)
  have "tmp_open path i d1 \<and> same_for path d d1 \<and> dData d1 i = []"
  proof (cases "dir_now d (path @ ''.tmp'')")
    case (Some j)
    then have d1: "i = j" "d1 = d\<lparr>dData := (dData d)(j := []), dDurable := (dDurable d)(j := [] # dDurable d j)\<rparr>"
      using assms(2) by (auto simp: disk_open_def)
    have "after_stop path d1 = after_stop path d"
      using a [OF Some] by (intro after_stop_cong) (auto simp: d1)
    moreover have "dir_now d path \<noteq> Some j" using a [OF Some dir_now_in [OF n]] .
    ultimately show ?thesis
      using assms(1) Some d1 by (auto simp: tmp_open_def same_for_def wf_disk_def content_def dir_now_def map_option_case split: option.split)
  next
    case None
    let ?m = "(dir_now d)(path @ ''.tmp'' \<mapsto> dNext d)"
    have d1: "i = dNext d" "d1 = d\<lparr>dNames := ?m # dNames d, dData := (dData d)(dNext d := []),
        dDurable := (dDurable d)(dNext d := [[]]), dNext := dNext d + 1\<rparr>"
      using assms(2) None by (auto simp: disk_open_def set_dir_def)
    have now: "dir_now d1 = ?m" "?m path = dir_now d path" by (simp_all add: d1 dir_now_def)
    have np: "m path \<noteq> Some (dNext d)" if "m \<in> set (dNames d)" for m using u [OF that] by blast
    let ?d = "d\<lparr>dData := (dData d)(dNext d := []), dDurable := (dDurable d)(dNext d := [[]]), dNext := dNext d + 1\<rparr>"
    have "after_stop path ?d = after_stop path d" using np by (intro after_stop_cong) auto
    moreover have "set (after_stop path d1) = set (after_stop path ?d)"
      using n now(2) by (intro after_stop_add [where m = ?m]) (auto simp: d1 dir_now_def)
    moreover have "content path d1 = content path d"
      using np [OF dir_now_in [OF n]] unfolding content_def now by (auto simp: d1 map_option_case split: option.split)
    moreover have "wf_disk path d1"
      using u np dir_now_in [OF n] unfolding wf_disk_def now by (auto simp: d1 less_Suc_eq)
    ultimately show ?thesis using now d1 by (auto simp: tmp_open_def same_for_def)
  qed
  then show "tmp_open path i d1" "same_for path d d1" "dData d1 i = []" by auto
qed

lemma disk_change_tmp:
  assumes "tmp_open path i d" and "d' = d\<lparr>dData := (dData d)(i := b), dDurable := (dDurable d)(i := bs)\<rparr>"
  shows "tmp_open path i d'" "same_for path d d'"
proof -
  note a = tmp_open_apart [OF assms(1)]
  have n: "dNames d \<noteq> []" using assms(1) by (simp add: tmp_open_def wf_disk_def)
  have "after_stop path d' = after_stop path d"
    using a by (intro after_stop_cong) (auto simp: assms(2))
  moreover have "dir_now d' = dir_now d" by (simp add: assms(2) dir_now_def)
  ultimately show "tmp_open path i d'" "same_for path d d'"
    using assms a [OF dir_now_in [OF n]]
    by (auto simp: tmp_open_def same_for_def wf_disk_def content_def map_option_case split: option.split)
qed

lemma disk_write_tmp:
  "tmp_open path i d \<Longrightarrow> tmp_open path i (disk_write i b d) \<and> same_for path d (disk_write i b d)"
  "tmp_open path i d \<Longrightarrow> tmp_open path i (disk_sync i d) \<and> same_for path d (disk_sync i d)"
proof -
  have s: "disk_sync i d = d\<lparr>dData := (dData d)(i := dData d i), dDurable := (dDurable d)(i := [dData d i])\<rparr>" for d
    by (simp add: disk_sync_def)
  show "tmp_open path i d \<Longrightarrow> tmp_open path i (disk_write i b d) \<and> same_for path d (disk_write i b d)"
    using disk_change_tmp [OF _ disk_write_def] by blast
  show "tmp_open path i d \<Longrightarrow> tmp_open path i (disk_sync i d) \<and> same_for path d (disk_sync i d)"
    using disk_change_tmp [OF _ s] by blast
qed

lemma disk_remove_tmp:
  assumes "tmp_open path i d"
  shows "wf_disk path (disk_remove (path @ ''.tmp'') d)" "same_for path d (disk_remove (path @ ''.tmp'') d)"
proof -
  let ?d = "disk_remove (path @ ''.tmp'') d"
  have n: "dNames d \<noteq> []" using assms by (simp add: tmp_open_def wf_disk_def)
  have now: "dir_now ?d = (dir_now d)(path @ ''.tmp'' := None)" by (simp add: disk_remove_def set_dir_def dir_now_def)
  have "set (after_stop path ?d) = set (after_stop path d)"
    using n by (intro after_stop_add [where m = "(dir_now d)(path @ ''.tmp'' := None)"]) (auto simp: disk_remove_def set_dir_def)
  then show "same_for path d ?d" unfolding same_for_def content_def now by (auto simp: disk_remove_def set_dir_def)
  show "wf_disk path ?d"
    using assms dir_now_in [OF n] unfolding wf_disk_def now tmp_open_def by (auto simp: disk_remove_def set_dir_def split: if_splits)
qed

lemma disk_rename_tmp:
  assumes "tmp_open path i d" "d' = disk_rename (path @ ''.tmp'') path d"
  shows "wf_disk path d'" "content path d' = Some (dData d i)"
    and "set (after_stop path d') = set (after_stop path d) \<union> Some ` set (dDurable d i)"
    and "dDurable d' = dDurable d" "dir_now d' path = Some i"
proof -
  have n: "dNames d \<noteq> []" using assms by (simp add: tmp_open_def wf_disk_def)
  have i: "dir_now d (path @ ''.tmp'') = Some i" using assms by (simp add: tmp_open_def)
  show now: "dir_now d' path = Some i" by (simp add: assms(2) disk_rename_def i)
  have "dir_now d' (path @ ''.tmp'') = None" by (simp add: assms(2) disk_rename_def)
  then show "wf_disk path d'"
    using assms(1) dir_now_in [OF n] i by (auto simp: wf_disk_def tmp_open_def assms(2) disk_rename_def set_dir_def split: if_splits)
  show dd: "dDurable d' = dDurable d" and "content path d' = Some (dData d i)"
    using now by (simp_all add: content_def assms(2) disk_rename_def set_dir_def)
  have "x \<in> set (after_stop path d') \<longleftrightarrow> x \<in> set (after_stop path d) \<or> x \<in> Some ` set (dDurable d i)" for x
    unfolding in_after_stop dd by (auto simp: assms(2) disk_rename_def set_dir_def i)
  then show "set (after_stop path d') = set (after_stop path d) \<union> Some ` set (dDurable d i)" by blast
qed

text \<open>
  C38: A file written by \<open>writeFileAtomic\<close> is never seen half written. At every moment of the call, if the
  machine stops there, the file comes back as something it could have come back as before, or as the whole new
  content. When the call returns no error the file has the new content, for good once the directory could be
  synced; when it returns an error, whatever failed, the file reads as before. The next call starts from a
  disk as good as this one did.
\<close>

theorem writeFileAtomic_crash_safe:
  assumes "wf_disk path d" "writeFileAtomic af path data d = (err, ds)"
  shows "(\<forall>d'\<in>set ds. set (after_stop path d') \<subseteq> set (after_stop path d) \<union> {Some data}) \<and>
    wf_disk path (hd ds) \<and>
    (err = None \<longrightarrow> content path (hd ds) = Some data \<and> (afDirSync af \<longrightarrow> set (after_stop path (hd ds)) = {Some data})) \<and>
    (err \<noteq> None \<longrightarrow> content path (hd ds) = content path d)"
proof -
  let ?tmp = "path @ ''.tmp''"
  obtain i d1 where o: "disk_open ?tmp d = (i, d1)" by (meson surj_pair)
  note t1 = disk_open_tmp [OF assms(1) o]
  have same: "same_for path d d' \<Longrightarrow> same_for path d' d'' \<Longrightarrow> same_for path d d''" for d' d'' by (simp add: same_for_def)
  have clean: "(\<forall>d'\<in>set (cleanup_tmp af ?tmp es). same_for path d d') \<and> wf_disk path (hd (cleanup_tmp af ?tmp es))"
    if "\<forall>d'\<in>set es. same_for path d d'" "tmp_open path i (hd es)" "es \<noteq> []" for es
    using that disk_remove_tmp [OF that(2)] same [of "hd es"] by (cases es) (auto simp: cleanup_tmp_def tmp_open_def)
  have good: ?thesis if "err \<noteq> None" "\<forall>d'\<in>set ds. same_for path d d'" "wf_disk path (hd ds)" "ds \<noteq> []"
    using that by (auto simp: same_for_def)
  have s0: "same_for path d d" by (simp add: same_for_def)
  have w: "tmp_open path i (disk_write i b d1) \<and> same_for path d (disk_write i b d1)" for b
    using disk_write_tmp(1) [OF t1(1)] same [OF t1(2)] by blast
  let ?d2 = "disk_write i data d1" let ?d3 = "disk_sync i ?d2"
  have w3: "tmp_open path i ?d3" "same_for path d ?d3"
    using disk_write_tmp(2) [of path i ?d2] w [of data] same [of ?d2 ?d3] by auto
  show ?thesis
  proof (cases "afMkdir af = None \<and> afOpen af = None \<and> afWrite af = None \<and> afSync af = None \<and> afClose af = None \<and> afRename af = None")
    case False
    have c2: "(\<forall>d'\<in>set (cleanup_tmp af ?tmp [disk_write i b d1, d1, d]). same_for path d d') \<and>
        wf_disk path (hd (cleanup_tmp af ?tmp [disk_write i b d1, d1, d]))" for b
      using w [of b] t1(2) s0 by (intro clean) auto
    have c3: "(\<forall>d'\<in>set (cleanup_tmp af ?tmp [?d3, ?d2, d1, d]). same_for path d d') \<and>
        wf_disk path (hd (cleanup_tmp af ?tmp [?d3, ?d2, d1, d]))"
      using w [of data] w3 t1(2) s0 by (intro clean) auto
    have ne: "cleanup_tmp af ?tmp es \<noteq> []" if "es \<noteq> []" for es using that by (simp add: cleanup_tmp_def)
    from False consider e where "afMkdir af = Some e" | e where "afMkdir af = None" "afOpen af = Some e"
      | k e where "afMkdir af = None" "afOpen af = None" "afWrite af = Some (k, e)"
      | e where "afMkdir af = None" "afOpen af = None" "afWrite af = None" "afSync af = Some e"
      | e where "afMkdir af = None" "afOpen af = None" "afWrite af = None" "afSync af = None" "afClose af = Some e"
      | e where "afMkdir af = None" "afOpen af = None" "afWrite af = None" "afSync af = None" "afClose af = None" "afRename af = Some e"
      by (metis option.exhaust surj_pair)
    then have "err \<noteq> None \<and> (ds = [d] \<or> (\<exists>b. ds = cleanup_tmp af ?tmp [disk_write i b d1, d1, d]) \<or>
        ds = cleanup_tmp af ?tmp [?d3, ?d2, d1, d])"
      by cases (use assms(2) o in \<open>auto simp: writeFileAtomic_def Let_def\<close>, metis+)
    then show ?thesis
    proof (elim conjE disjE exE)
      assume e: "err \<noteq> None"
      note g = good [OF e]
      show ?thesis if "ds = [d]" using that s0 assms(1) by (intro g) simp_all
      show ?thesis if "ds = cleanup_tmp af ?tmp [disk_write i b d1, d1, d]" for b
        unfolding that by (rule g [unfolded that]) (use c2 [of b] ne in simp_all)
      show ?thesis if "ds = cleanup_tmp af ?tmp [?d3, ?d2, d1, d]"
        unfolding that by (rule g [unfolded that]) (use c3 ne in simp_all)
    qed
  next
    case True
    let ?d4 = "disk_rename ?tmp path ?d3"
    note r = disk_rename_tmp [OF w3(1) refl]
    have v: "dData ?d3 i = data" "dDurable ?d3 i = [data]" using t1(3) by (simp_all add: disk_sync_def disk_write_def)
    have e: "err = None" "ds = (if afDirSync af then [disk_sync_dir ?d4] else []) @ [?d4, ?d3, ?d2, d1, d]"
      using True assms(2) o by (auto simp: writeFileAtomic_def Let_def)
    have now: "dir_now (disk_sync_dir ?d4) = dir_now ?d4" by (simp add: disk_sync_dir_def dir_now_def)
    have fin: "set (after_stop path (disk_sync_dir ?d4)) = {Some data}"
      using r(4,5) v by (simp add: after_stop_def disk_sync_dir_def)
    have "wf_disk path (disk_sync_dir ?d4)"
      using r(1) dir_now_in [of ?d4] unfolding wf_disk_def now by (auto simp: disk_sync_dir_def)
    moreover have "content path (disk_sync_dir ?d4) = content path ?d4" by (simp add: content_def now) (simp add: disk_sync_dir_def)
    moreover have "set (after_stop path ?d4) \<subseteq> set (after_stop path d) \<union> {Some data}"
      using r(3) v w3(2) by (auto simp: same_for_def)
    ultimately show ?thesis using e r(1,2) v fin w [of data] w3 t1(2) by (auto simp: same_for_def)
  qed
qed

definition demo_disk :: disk where
  "demo_disk = \<lparr>dNames = [[''u.json'' \<mapsto> 0]], dData = (\<lambda>_. ''old''), dDurable = (\<lambda>_. [''old'']), dNext = 1\<rparr>"

definition no_atomic_faults :: atomic_faults where
  "no_atomic_faults = \<lparr>afMkdir = None, afOpen = None, afWrite = None, afSync = None, afClose = None, afRename = None,
     afRemove = True, afDirSync = True\<rparr>"

theorem writeFileAtomic_crash_safe_witness:
  "set (after_stop ''u.json'' (hd (snd (writeFileAtomic no_atomic_faults ''u.json'' ''new'' demo_disk)))) = {Some ''new''} \<and>
   content ''u.json'' (hd (snd (writeFileAtomic (no_atomic_faults\<lparr>afSync := Some ''EIO''\<rparr>) ''u.json'' ''new'' demo_disk))) = Some ''old''"
proof -
  have w: "wf_disk ''u.json'' demo_disk" by (simp add: wf_disk_def demo_disk_def dir_now_def)
  have "fst (writeFileAtomic no_atomic_faults ''u.json'' ''new'' demo_disk) = None"
    "fst (writeFileAtomic (no_atomic_faults\<lparr>afSync := Some ''EIO''\<rparr>) ''u.json'' ''new'' demo_disk) = Some ''EIO''"
    by (simp_all add: writeFileAtomic_def no_atomic_faults_def Let_def split: prod.split)
  moreover have "content ''u.json'' demo_disk = Some ''old''" by (simp add: content_def demo_disk_def dir_now_def)
  ultimately show ?thesis
    using writeFileAtomic_crash_safe [OF w prod.collapse [symmetric], of no_atomic_faults "''new''"]
      writeFileAtomic_crash_safe [OF w prod.collapse [symmetric], of "no_atomic_faults\<lparr>afSync := Some ''EIO''\<rparr>" "''new''"]
    by (simp add: no_atomic_faults_def)
qed

end
