(* ===== verification/WebDAV.thy ===== *)
theory WebDAV
  imports Content Copying
begin

unbundle bit_operations_syntax

text \<open>
  The read-only WebDAV view of the storage (\<open>webdav.go\<close>). The protocol is spoken by the handler of
  golang.org/x/net/webdav, which is not part of this program: it is an arbitrary program over the calls of
  the file system interface, answered here by \<open>dingbapDAVFS\<close> and \<open>davFile\<close>. Main results: whatever that
  program does, it changes nothing, learns nothing of a hidden entry, and runs only for a user who is signed in
  or sends a password; reading a directory in pages gives the same as reading it at once.
\<close>

subsection \<open>Names\<close>

datatype dav_err = DavPermission | DavNotExist | DavEOF | DavOS oserr | DavBadFile | DavPanic

definition resolveDAVPath :: "path_env \<Rightarrow> fs \<Rightarrow> string \<Rightarrow> apath result" where
  "resolveDAVPath env f name =
     (let rel0 = Trim (path_Clean (slash # ReplaceByte name backslash ''/'')) ''/'';
          rel = (if rel0 = ''.'' then [] else rel0)
      in if list_ex (\<lambda>part. part \<noteq> [] \<and> part \<noteq> ''.'' \<and> HasPrefix part ''.'') (split_on slash rel)
         then Inl ''file does not exist''
         else safePath f env rel)"

subsection \<open>Open files\<close>

text \<open>The file \<open>os.Open\<close> found, and what \<open>davFile\<close> adds to it.\<close>

record davFile =
  davPlace :: apath
  davNode :: fnode
  dirOffset :: nat
  dirCache :: "(string \<times> fnode) list option"

definition davWrite :: "string \<Rightarrow> davFile \<Rightarrow> dav_err + nat" where
  "davWrite b fl = Inl DavPermission"

text \<open>
  \<open>all\<close> is what \<open>Readdir(-1)\<close> of the file itself answers. A sum that overflows gives an end before the
  start, and the slice panics.
\<close>

definition davPage :: "(string \<times> fnode) list \<Rightarrow> int \<Rightarrow> davFile \<Rightarrow> (dav_err + (string \<times> fnode) list) \<times> davFile" where
  "davPage c count fl =
     (let off = dirOffset fl in
      if off \<ge> length c then (if count > 0 then Inl DavEOF else Inr [], fl)
      else if count \<le> 0 then (Inr (drop off c), fl\<lparr>dirOffset := length c\<rparr>)
      else let end0 = int64 (int off + count); end1 = (if end0 > int (length c) then int (length c) else end0) in
        if end1 < int off then (Inl DavPanic, fl)
        else let out = drop off (take (nat end1) c) in
          (if out = [] then Inl DavEOF else Inr out, fl\<lparr>dirOffset := nat end1\<rparr>))"

definition davReaddir ::
  "(oserr + (string \<times> fnode) list) \<Rightarrow> int \<Rightarrow> davFile \<Rightarrow> (dav_err + (string \<times> fnode) list) \<times> davFile"
where
  "davReaddir all count fl =
     (case dirCache fl of
        Some c \<Rightarrow> davPage c count fl
      | None \<Rightarrow>
          (case all of
             Inl e \<Rightarrow> (Inl (DavOS e), fl)
           | Inr es \<Rightarrow>
               (let c = filter (\<lambda>e. \<not> HasPrefix (fst e) ''.'') es
                in davPage c count (fl\<lparr>dirCache := Some c, dirOffset := 0\<rparr>))))"

subsection \<open>The file system offered to the protocol handler\<close>

text \<open>
  The calls, with the ones \<open>os.File\<close> answers itself: reading the bytes and taking the status. Open files
  are numbered.
\<close>

datatype dav_call =
    DavMkdir string | DavRemoveAll string | DavRename string string | DavStat string | DavOpenFile string int
  | FileRead nat | FileStat nat | FileReaddir nat int | FileWrite nat string

datatype dav_answer =
    AnsErr dav_err | AnsInfo string fnode | AnsFile nat | AnsBytes string | AnsInfos "(string \<times> fnode) list" | AnsCount nat

definition write_flags :: int where "write_flags = 1 OR 2 OR 0x400 OR 0x40 OR 0x200"

definition davStat :: "path_env \<Rightarrow> fs \<Rightarrow> string \<Rightarrow> dav_answer" where
  "davStat env f name =
     (case resolveDAVPath env f name of
        Inl _ \<Rightarrow> AnsErr DavNotExist
      | Inr p \<Rightarrow> (case os_Stat f p of Inl e \<Rightarrow> AnsErr (DavOS e) | Inr n \<Rightarrow> AnsInfo (apath_Base p) n))"

text \<open>\<open>os.Open\<close>: the place the links of the path lead to, and its entry.\<close>

definition os_Open :: "fs \<Rightarrow> apath \<Rightarrow> oserr + apath \<times> fnode" where
  "os_Open f p =
     (case walk f kernel_links [] p of
        Inl e \<Rightarrow> Inl e
      | Inr q \<Rightarrow> (case lookup_entry f q of Inl e \<Rightarrow> Inl e | Inr n \<Rightarrow> Inr (q, n)))"

definition davOpenFile :: "path_env \<Rightarrow> fs \<Rightarrow> string \<Rightarrow> int \<Rightarrow> dav_err + davFile" where
  "davOpenFile env f name flag =
     (if flag AND write_flags \<noteq> 0 then Inl DavPermission
      else case resolveDAVPath env f name of
        Inl _ \<Rightarrow> Inl DavNotExist
      | Inr p \<Rightarrow>
          (case os_Open f p of
             Inl e \<Rightarrow> Inl (if e = ENOENT then DavNotExist else DavOS e)
           | Inr (q, n) \<Rightarrow> Inr \<lparr>davPlace = q, davNode = n, dirOffset = 0, dirCache = None\<rparr>))"

text \<open>The order in which \<open>Readdir(-1)\<close> gives the entries is that of the directory on disk, \<open>ord\<close>.\<close>

type_synonym dirOrder = "apath \<Rightarrow> (string \<times> fnode) list \<Rightarrow> (string \<times> fnode) list"

definition file_Readdir_all :: "fs \<Rightarrow> dirOrder \<Rightarrow> davFile \<Rightarrow> oserr + (string \<times> fnode) list" where
  "file_Readdir_all f ord fl =
     (case os_ReadDir f (davPlace fl) of Inl e \<Rightarrow> Inl e | Inr es \<Rightarrow> Inr (ord (davPlace fl) es))"

definition with_file :: "nat \<Rightarrow> (davFile \<Rightarrow> dav_answer \<times> davFile) \<Rightarrow> davFile list \<Rightarrow> dav_answer \<times> davFile list" where
  "with_file h op fs =
     (if h < length fs then (let (a, fl) = op (fs ! h) in (a, fs[h := fl])) else (AnsErr DavBadFile, fs))"

fun dav_step :: "path_env \<Rightarrow> dirOrder \<Rightarrow> fs \<Rightarrow> dav_call \<Rightarrow> davFile list \<Rightarrow> dav_answer \<times> davFile list" where
  "dav_step env ord f (DavMkdir name) fs = (AnsErr DavPermission, fs)"
| "dav_step env ord f (DavRemoveAll name) fs = (AnsErr DavPermission, fs)"
| "dav_step env ord f (DavRename a b) fs = (AnsErr DavPermission, fs)"
| "dav_step env ord f (DavStat name) fs = (davStat env f name, fs)"
| "dav_step env ord f (DavOpenFile name flag) fs =
     (case davOpenFile env f name flag of
        Inl e \<Rightarrow> (AnsErr e, fs)
      | Inr fl \<Rightarrow> (AnsFile (length fs), fs @ [fl]))"
| "dav_step env ord f (FileRead h) fs = with_file h (\<lambda>fl.
     (case davNode fl of FFile b \<Rightarrow> AnsBytes b | _ \<Rightarrow> AnsErr (DavOS EISDIR), fl)) fs"
| "dav_step env ord f (FileStat h) fs = with_file h (\<lambda>fl. (AnsInfo (apath_Base (davPlace fl)) (davNode fl), fl)) fs"
| "dav_step env ord f (FileReaddir h count) fs = with_file h (\<lambda>fl.
     (let (a, fl1) = davReaddir (file_Readdir_all f ord fl) count fl in
      (case a of Inl e \<Rightarrow> AnsErr e | Inr es \<Rightarrow> AnsInfos es, fl1))) fs"
| "dav_step env ord f (FileWrite h b) fs = with_file h (\<lambda>fl.
     (case davWrite b fl of Inl e \<Rightarrow> AnsErr e | Inr n \<Rightarrow> AnsCount n, fl)) fs"

text \<open>
  A program that serves one request through these calls: it makes a call, sees the answer, and goes on,
  until it has a response. The answers it saw are kept.
\<close>

datatype dav_prog = DavRespond response | DavCall dav_call "dav_answer \<Rightarrow> dav_prog"

primrec run_dav :: "path_env \<Rightarrow> dirOrder \<Rightarrow> fs \<Rightarrow> dav_prog \<Rightarrow> davFile list \<Rightarrow> response \<times> (dav_call \<times> dav_answer) list" where
  "run_dav env ord f (DavRespond resp) fs = (resp, [])"
| "run_dav env ord f (DavCall c k) fs =
     (let (a, fs1) = dav_step env ord f c fs; (resp, seen) = run_dav env ord f (k a) fs1 in (resp, (c, a) # seen))"

subsection \<open>The handler\<close>

definition dav_write_methods :: "string list" where
  "dav_write_methods = [''PUT'', ''POST'', ''DELETE'', ''MKCOL'', ''COPY'', ''MOVE'', ''PROPPATCH'', ''LOCK'', ''UNLOCK'', ''PATCH'']"

definition dav_allow :: string where "dav_allow = ''OPTIONS, GET, HEAD, PROPFIND''"

definition newWebDAVHandler :: "(request \<Rightarrow> dav_prog) \<Rightarrow> dirOrder \<Rightarrow> shandler" where
  "newWebDAVHandler W ord G x r s =
     (if rMethod r \<in> set dav_write_methods
      then (over_headers [(''Allow'', dav_allow)] (http_Error ''WebDAV is read-only'' 405), s)
      else if rMethod r = ''OPTIONS''
      then (mk_response 200 [(''Allow'', dav_allow), (''DAV'', ''1''), (''MS-Author-Via'', ''DAV'')] BEmpty, s)
      else let r1 = (if rMethod r = ''PROPFIND'' \<and> EqualFold (gU G) (rHeader r ''Depth'') ''infinity''
                     then r\<lparr>rHeader := (rHeader r)(''Depth'' := ''1'')\<rparr> else r)
           in (over_headers [(''DAV'', ''1'')] (fst (run_dav (gPaths G) ord (srvFs s) (W r1) [])), s))"

subsection \<open>Who may use it\<close>

definition parseBasicAuth :: "request \<Rightarrow> (string \<times> string) option" where
  "parseBasicAuth r =
     (let h = rHeader r ''Authorization'' in
      if h = [] then None
      else if \<not> HasPrefix h ''Basic '' then None
      else case b64_std_decode (TrimSpace (drop (length ''Basic '') h)) of
        None \<Rightarrow> None
      | Some dec \<Rightarrow> (case splitN2 (CHR '':'') dec of [u, p] \<Rightarrow> Some (u, p) | _ \<Rightarrow> None))"

definition dav_challenge :: "string \<Rightarrow> response" where
  "dav_challenge msg =
     over_headers [(''WWW-Authenticate'', ''Basic realm='' @ [CHR 0x22] @ ''dingbap'' @ [CHR 0x22] @ '', charset='' @ [CHR 0x22] @ ''UTF-8'' @ [CHR 0x22])]
       (http_Error msg 401)"

text \<open>The session of a password sent with the request lives for the request only and carries no expiry.\<close>

definition requireWebDAVAuth :: "shandler \<Rightarrow> shandler" where
  "requireWebDAVAuth next_handler G x r s =
     (case rSession r of
        Some ses \<Rightarrow> next_handler G x r s
      | None \<Rightarrow>
          (case parseBasicAuth r of
             None \<Rightarrow> (dav_challenge ''Authentication required'', s)
           | Some (user, pass) \<Rightarrow>
               (case authenticate (gU G) (gArgon G) (srvUsers s) user pass of
                  Inl _ \<Rightarrow> (dav_challenge ''Invalid credentials'', s)
                | Inr u \<Rightarrow>
                    next_handler G x (r\<lparr>rSession := Some \<lparr>sUsername = Username u, sRole = Role u, sExpiresAt = 0\<rparr>,
                      rAuthVia := ''basic''\<rparr>) s)))"

subsection \<open>The same places as the pages\<close>

lemma join_ends:
  assumes "ordinary_path cs"
  shows "join_with ''/'' cs = [] \<or> hd (join_with ''/'' cs) \<noteq> slash \<and> last (join_with ''/'' cs) \<noteq> slash"
proof (cases cs rule: rev_cases)
  case (snoc ds d)
  have ord: "c \<noteq> [] \<and> hd c \<noteq> slash \<and> last c \<noteq> slash" if "ordinary c" for c
    using that by (metis hd_in_set last_in_set ordinary_def)
  have "hd (join_with ''/'' (e # es)) = hd e" if "e \<noteq> []" for e es
    using that by (cases es) auto
  then have "hd (join_with ''/'' cs) \<noteq> slash" using assms ord snoc by (metis neq_Nil_conv ordinary_path_simps(2) snoc_eq_iff_butlast)
  moreover have "last (join_with ''/'' cs) = last d"
    using ord [of d] assms unfolding snoc by (cases "ds = []") (auto simp: join_with_append)
  ultimately show ?thesis using ord [of d] assms snoc by simp
qed simp

lemma request_comps_chars: "c \<in> set (request_comps name) \<Longrightarrow> set c \<subseteq> set name \<union> {slash} \<and> backslash \<notin> set c"
proof -
  assume c: "c \<in> set (request_comps name)"
  have sub: "set (foldl (clean_step True) st xs) \<subseteq> set st \<union> set xs" for st xs
  proof (induction xs arbitrary: st)
    case (Cons x xs)
    have "set (clean_step True st x) \<subseteq> set st \<union> {x}"
      by (auto simp: clean_step.simps split: list.splits if_splits)
    then show ?case using Cons [of "clean_step True st x"] by auto
  qed simp
  have "c \<in> set (split_on slash (slash # ReplaceByte name backslash ''/''))"
    using c sub [of "[]"] by (auto simp: request_comps_def apath_of_def clean_comps_def)
  then have "set c \<subseteq> insert slash (set (ReplaceByte name backslash ''/''))" by (auto dest: split_on_chars)
  moreover have "set (ReplaceByte name backslash ''/'') \<subseteq> set name \<union> {slash}" by (auto simp: ReplaceByte_def split: if_splits)
  moreover have "backslash \<notin> set (ReplaceByte name backslash ''/'')" by (simp add: ReplaceByte_no)
  ultimately show ?thesis by auto
qed

lemma dav_rel:
  "(let rel0 = Trim (path_Clean (slash # ReplaceByte name backslash ''/'')) ''/'' in if rel0 = ''.'' then [] else rel0) =
     join_with ''/'' (request_comps name)"
proof -
  let ?j = "join_with ''/'' (request_comps name)"
  note o = request_comps_ordinary [of name]
  have "Trim (slash # ?j) ''/'' = Trim ?j ''/''" by (simp add: Trim_def TrimLeft_def)
  also have "\<dots> = ?j" using join_ends [OF o] by (intro Trim_id) auto
  finally have t: "Trim (path_Clean (slash # ReplaceByte name backslash ''/'')) ''/'' = ?j"
    by (simp add: path_Clean_rooted apath_str_def flip: request_comps_def)
  have "?j \<noteq> ''.''"
  proof
    assume "?j = ''.''"
    moreover have "split_on slash ?j = request_comps name" if "request_comps name \<noteq> []"
      using that o by (intro split_join_with) (auto simp: ordinary_path_def list_all_iff ordinary_def)
    ultimately have "request_comps name = [''.'']" by (cases "request_comps name = []") auto
    then show False using o by simp
  qed
  with t show ?thesis by simp
qed

lemma request_comps_join: "request_comps (join_with ''/'' (request_comps name)) = request_comps name"
proof -
  let ?j = "join_with ''/'' (request_comps name)"
  have "backslash \<notin> set (join_with ''/'' cs)" if "\<forall>c\<in>set cs. backslash \<notin> set c" for cs
    using that by (induction "''/''" cs rule: join_with.induct) auto
  then have "ReplaceByte ?j backslash ''/'' = ?j" using request_comps_chars by (intro ReplaceByte_id) blast
  then show ?thesis
    using apath_of_str [OF request_comps_ordinary [of name]] by (simp add: request_comps_def apath_str_def)
qed

text \<open>
  C36: WebDAV reaches exactly the places the pages reach: a name resolves to a place if and only if
  \<open>safePath\<close> resolves the same name to it. The check for hidden parts that comes before denies nothing else.
\<close>

theorem dav_paths_are_safe_paths:
  assumes "storageRealRoot f env = Inr root" "nul \<notin> set name"
  shows "resolveDAVPath env f name = Inr p \<longleftrightarrow> safePath f env name = Inr p"
proof -
  let ?cs = "request_comps name" let ?j = "join_with ''/'' ?cs"
  note o = request_comps_ordinary [of name]
  have "nul \<notin> set (join_with ''/'' cs)" if "\<forall>c\<in>set cs. nul \<notin> set c" for cs
    using that by (induction "''/''" cs rule: join_with.induct) auto
  then have n: "nul \<notin> set ?j" using request_comps_chars [of _ name] assms(2) by blast
  have same: "safePath f env ?j = safePath f env name"
    using safePath_eq [OF assms(1) n] safePath_eq [OF assms] by (simp add: request_comps_join)
  have "safePath f env ?j = Inl ''hidden path denied''" if "list_ex (\<lambda>part. part \<noteq> [] \<and> part \<noteq> ''.'' \<and> HasPrefix part ''.'') (split_on slash ?j)"
  proof -
    note part = that
    obtain c where c: "c \<in> set (split_on slash ?j)" "c \<noteq> []" "HasPrefix c ''.''" using part unfolding list_ex_iff by blast
    then have "?cs \<noteq> []" by auto
    then have "split_on slash ?j = ?cs" using o by (intro split_join_with) (auto simp: ordinary_path_def list_all_iff ordinary_def)
    then have "c \<in> set (request_comps ?j)" using c(1) by (simp add: request_comps_join)
    then show ?thesis using safePath_hidden_denied [OF assms(1) n] c(3) by blast
  qed
  then show ?thesis unfolding resolveDAVPath_def dav_rel [unfolded Let_def] Let_def using same by auto
qed

theorem dav_paths_are_safe_paths_witness:
  "resolveDAVPath demo_env demo_fs ''/docs/../ok/a.txt'' = Inr [''s'', ''docs'', ''a.txt'']"
proof -
  have "safePath demo_fs demo_env ''/docs/../ok/a.txt'' = Inr [''s'', ''docs'', ''a.txt'']" by code_simp
  with dav_paths_are_safe_paths [OF demo_root, of "''/docs/../ok/a.txt''"] show ?thesis by simp
qed

subsection \<open>What the protocol handler can learn\<close>

definition showable_answer :: "fs \<Rightarrow> apath \<Rightarrow> dav_answer \<Rightarrow> bool" where
  "showable_answer f root a \<longleftrightarrow>
     (case a of
        AnsInfo name n \<Rightarrow> (\<exists>p. showable f root p n \<and> name = apath_Base p)
      | AnsBytes b \<Rightarrow> (\<exists>p. showable f root p (FFile b))
      | AnsInfos es \<Rightarrow> (\<exists>p. showable f root p FDir \<and>
          (\<forall>(name, n)\<in>set es. \<not> HasPrefix name ''.'' \<and> node_at f (p @ [name]) = Some n))
      | _ \<Rightarrow> True)"

text \<open>An open file shows its place, and what it has of its directory are entries of it.\<close>

definition file_ok :: "fs \<Rightarrow> apath \<Rightarrow> davFile \<Rightarrow> bool" where
  "file_ok f root fl \<longleftrightarrow> showable f root (davPlace fl) (davNode fl) \<and>
     (case dirCache fl of None \<Rightarrow> True | Some es \<Rightarrow> davNode fl = FDir \<and>
        (\<forall>(name, n)\<in>set es. \<not> HasPrefix name ''.'' \<and> node_at f (davPlace fl @ [name]) = Some n))"

text \<open>The order of a directory on disk lists its entries.\<close>

definition lists_entries :: "dirOrder \<Rightarrow> bool" where
  "lists_entries ord \<longleftrightarrow> (\<forall>p es. set (ord p es) = set es \<and> length (ord p es) = length es)"

lemma os_Open_placed:
  assumes "wf_fs f" "placed f p" "os_Open f p = Inr (q, n)"
  shows "q = p \<and> node_at f p = Some n \<and> (\<forall>t. n \<noteq> FLink t)"
proof -
  obtain w where w: "walk f kernel_links [] p = Inr q" "lookup_entry f q = Inr n"
    using assms(3) by (auto simp: os_Open_def split: sum.splits)
  then have "os_Stat f p = Inr n" by (simp add: os_Stat_def)
  with placed_entry [OF assms(2)] have n: "node_at f p = Some n" "\<forall>t. n \<noteq> FLink t" by auto
  have "q = p" using placed_settled [OF assms(2)] w(1) unfolding settled_def by (metis sum.inject(2) sum.disc(2))
  with n show ?thesis by simp
qed

lemma davPage_sub:
  "davPage c count fl = (a, fl') \<Longrightarrow> (\<exists>i. fl' = fl\<lparr>dirOffset := i\<rparr>) \<and> (\<forall>es. a = Inr es \<longrightarrow> set es \<subseteq> set c)"
  by (auto simp: davPage_def Let_def dest: in_set_dropD in_set_takeD split: if_splits intro: exI [of _ "dirOffset fl"])

lemma Readdir_ok:
  assumes "wf_fs f" "lists_entries ord" "file_ok f root fl"
    and "davReaddir (file_Readdir_all f ord fl) count fl = (a, fl')"
  shows "file_ok f root fl' \<and> (\<forall>es. a = Inr es \<longrightarrow> showable_answer f root (AnsInfos es))"
proof -
  let ?p = "davPlace fl"
  define entries where "entries es \<longleftrightarrow> (\<forall>(name, n)\<in>set es. \<not> HasPrefix name ''.'' \<and> node_at f (?p @ [name]) = Some n)" for es
  have sh: "showable f root ?p (davNode fl)" using assms(3) by (simp add: file_ok_def)
  have page: ?thesis if "davNode fl = FDir" "entries c" "davPage c count (fl\<lparr>dirCache := Some c, dirOffset := i\<rparr>) = (a, fl')" for c i
    using davPage_sub [OF that(3)] that(1,2) sh by (auto simp: entries_def file_ok_def showable_answer_def)
  show ?thesis
  proof (cases "dirCache fl")
    case (Some c)
    then have "fl = fl\<lparr>dirCache := Some c, dirOffset := dirOffset fl\<rparr>" by simp
    with page [of c "dirOffset fl"] Some assms(3,4) show ?thesis by (simp add: davReaddir_def file_ok_def entries_def)
  next
    case None
    show ?thesis
    proof (cases "file_Readdir_all f ord fl")
      case (Inr es)
      then obtain es0 where r: "os_ReadDir f ?p = Inr es0" "set es = set es0"
        using assms(2) by (auto simp: file_Readdir_all_def lists_entries_def split: sum.splits)
      then obtain q where "walk f kernel_links [] ?p = Inr q" "lookup_entry f q = Inr FDir"
        by (auto simp: os_ReadDir_def is_dir_def split: sum.splits if_splits)
      then have "os_Open f ?p = Inr (q, FDir)" by (simp add: os_Open_def)
      with os_Open_placed [OF assms(1)] sh have d: "node_at f ?p = Some FDir" "davNode fl = FDir" by (auto simp: showable_def)
      from os_ReadDir_dir(3) [OF assms(1) d(1) r(1)] have "entries (filter (\<lambda>e. \<not> HasPrefix (fst e) ''.'') es)"
        using r(2) by (auto simp: entries_def)
      moreover have "davPage (filter (\<lambda>e. \<not> HasPrefix (fst e) ''.'') es) count
          (fl\<lparr>dirCache := Some (filter (\<lambda>e. \<not> HasPrefix (fst e) ''.'') es), dirOffset := 0\<rparr>) = (a, fl')"
        using None Inr assms(4) by (simp add: davReaddir_def Let_def)
      ultimately show ?thesis by (rule page [OF d(2)])
    qed (use None assms(3,4) in \<open>auto simp: davReaddir_def\<close>)
  qed
qed

text \<open>The names of WebDAV are resolved by the contract of the pages.\<close>

context path_resolver begin

lemma open_showable:
  assumes "storageRealRoot f env = Inr root" "real_dir f root" "wf_fs f" "resolve env f name = Inr p" "os_Open f p = Inr (q, n)"
  shows "showable f root q n"
proof -
  obtain v where "p = root @ v" "visible_path v" "placed f p" using resolve_inside [OF assms(1,2,4)] by blast
  with os_Open_placed [OF assms(3) _ assms(5)] show ?thesis by (auto simp: showable_def)
qed

end

interpretation dav: path_resolver resolveDAVPath
proof unfold_locales
  fix f env root name p
  assume r: "storageRealRoot f env = Inr root" "real_dir f root" and d: "resolveDAVPath env f name = Inr p"
  obtain rel where "safePath f env rel = Inr p" using d by (auto simp: resolveDAVPath_def Let_def split: if_splits)
  then show "\<exists>v. p = root @ v \<and> visible_path v \<and> placed f p" by (rule pages.resolve_inside [OF r])
qed

lemma davOpenFile_ok:
  assumes "storageRealRoot f env = Inr root" "real_dir f root" "wf_fs f" "davOpenFile env f name flag = Inr fl"
  shows "file_ok f root fl"
  using assms(4) dav.open_showable [OF assms(1-3)] by (auto simp: davOpenFile_def file_ok_def split: if_splits sum.splits)

lemma davStat_ok:
  assumes "storageRealRoot f env = Inr root" "real_dir f root"
  shows "showable_answer f root (davStat env f name)"
  using dav.stat_showable [OF assms] by (auto simp: davStat_def showable_answer_def split: sum.split)

lemma dav_step_ok:
  assumes "storageRealRoot f env = Inr root" "real_dir f root" "wf_fs f" "lists_entries ord"
    and "\<forall>fl\<in>set fs. file_ok f root fl" "dav_step env ord f call fs = (a, fs')"
  shows "(\<forall>fl\<in>set fs'. file_ok f root fl) \<and> showable_answer f root a"
proof -
  have wf: "(\<forall>fl\<in>set fs'. file_ok f root fl) \<and> showable_answer f root a"
    if "with_file h op fs = (a, fs')" and "\<And>fl b fl'. file_ok f root fl \<Longrightarrow> op fl = (b, fl') \<Longrightarrow> file_ok f root fl' \<and> showable_answer f root b"
    for h op
    using that(1) that(2) [of "fs ! h"] assms(5)
    by (auto simp: with_file_def showable_answer_def dest!: subsetD [OF set_update_subset_insert] split: if_splits prod.splits)
  have bytes: "showable_answer f root (case davNode fl of FFile b \<Rightarrow> AnsBytes b | _ \<Rightarrow> AnsErr (DavOS EISDIR))" if "file_ok f root fl" for fl
    using that by (auto simp: file_ok_def showable_answer_def split: fnode.split)
  show ?thesis
  proof (cases call)
    case (DavStat name)
    then show ?thesis using davStat_ok [OF assms(1,2)] assms(5,6) by auto
  next
    case (DavOpenFile name flag)
    then show ?thesis using davOpenFile_ok [OF assms(1-3)] assms(5,6) by (auto simp: showable_answer_def split: sum.splits)
  next
    case (FileRead h)
    then show ?thesis using assms(6) by (intro wf [of h]) (auto simp: bytes)
  next
    case (FileStat h)
    then show ?thesis using assms(6) by (intro wf [of h]) (auto simp: file_ok_def showable_answer_def)
  next
    case (FileReaddir h count)
    have s: "file_ok f root fl' \<and> showable_answer f root (case r of Inl e \<Rightarrow> AnsErr e | Inr es \<Rightarrow> AnsInfos es)"
      if "file_ok f root fl" "davReaddir (file_Readdir_all f ord fl) count fl = (r, fl')" for fl r fl'
      using Readdir_ok [OF assms(3,4) that] by (auto simp: showable_answer_def split: sum.split)
    show ?thesis
    proof (rule wf)
      show "with_file h (\<lambda>fl. let (r, fl1) = davReaddir (file_Readdir_all f ord fl) count fl
          in (case r of Inl e \<Rightarrow> AnsErr e | Inr es \<Rightarrow> AnsInfos es, fl1)) fs = (a, fs')"
        using assms(6) FileReaddir by simp
    qed (use s in \<open>auto split: prod.splits\<close>)
  next
    case (FileWrite h b)
    then show ?thesis using assms(6) by (intro wf [of h]) (auto simp: davWrite_def showable_answer_def)
  qed (use assms(5,6) in \<open>auto simp: showable_answer_def\<close>)
qed

text \<open>
  C33: Whatever program serves the protocol, and whatever it asks for: every entry, every byte and every
  listing it is given lies below the storage root at a place with no hidden part and no link in its path, and no
  listing names a hidden entry.
\<close>

theorem dav_shows_visible_only:
  assumes "storageRealRoot f env = Inr root" "real_dir f root" "wf_fs f" "lists_entries ord"
    and "\<forall>fl\<in>set fs. file_ok f root fl" "run_dav env ord f prog fs = (resp, seen)"
  shows "\<forall>(call, a)\<in>set seen. showable_answer f root a"
  using assms(5,6)
proof (induction prog arbitrary: fs resp seen)
  case (DavCall call k)
  obtain a fs1 seen1 where s: "dav_step env ord f call fs = (a, fs1)" "run_dav env ord f (k a) fs1 = (resp, seen1)" "seen = (call, a) # seen1"
    using DavCall.prems(2) by (auto split: prod.splits)
  from dav_step_ok [OF assms(1-4) DavCall.prems(1) s(1)] DavCall.IH [OF rangeI _ s(2)] s(3) show ?case by auto
qed simp

theorem dav_shows_visible_only_witness:
  "showable_answer demo_fs [''s'']
     (snd (snd (run_dav demo_env (\<lambda>_ es. es) demo_fs
        (DavCall (DavOpenFile ''/'' 0) (\<lambda>_. DavCall (FileReaddir 0 0) (\<lambda>_. DavRespond (http_NotFound)))) []) ! 1)) \<and>
   snd (run_dav demo_env (\<lambda>_ es. es) demo_fs
        (DavCall (DavOpenFile ''/'' 0) (\<lambda>_. DavCall (FileReaddir 0 0) (\<lambda>_. DavRespond (http_NotFound)))) []) ! 1 =
     (FileReaddir 0 0, AnsInfos [(''docs'', FDir), (''evil'', FLink ''.dingbap''), (''ok'', FLink ''docs''), (''out'', FLink ''/etc'')])"
proof -
  let ?prog = "DavCall (DavOpenFile ''/'' 0) (\<lambda>_. DavCall (FileReaddir 0 0) (\<lambda>_. DavRespond (http_NotFound)))"
  have r: "snd (run_dav demo_env (\<lambda>_ es. es) demo_fs ?prog []) =
      [(DavOpenFile ''/'' 0, AnsFile 0), (FileReaddir 0 0, AnsInfos [(''docs'', FDir), (''evil'', FLink ''.dingbap''), (''ok'', FLink ''docs''), (''out'', FLink ''/etc'')])]"
    by code_simp
  have "\<forall>(call, a)\<in>set (snd (run_dav demo_env (\<lambda>_ es. es) demo_fs ?prog [])). showable_answer demo_fs [''s''] a"
    by (rule dav_shows_visible_only [OF demo_root demo_root_real wf_demo_fs _ _ prod.collapse [symmetric]])
      (simp_all add: lists_entries_def)
  then show ?thesis unfolding r by simp
qed

subsection \<open>Reading a directory in pages\<close>

text \<open>A reader that asks for pages of the given sizes, and what it gets.\<close>

fun read_pages :: "(oserr + (string \<times> fnode) list) \<Rightarrow> int list \<Rightarrow> davFile \<Rightarrow> (dav_err + (string \<times> fnode) list) list" where
  "read_pages all [] fl = []"
| "read_pages all (n # ns) fl = (let (a, fl1) = davReaddir all n fl in a # read_pages all ns fl1)"

lemma davPage_at:
  assumes "0 < n" "int (length c) + n < 2 ^ 63" "dirOffset fl \<le> length c"
  shows "davPage c n fl = (if dirOffset fl = length c then Inl DavEOF else Inr (take (nat n) (drop (dirOffset fl) c)),
     fl\<lparr>dirOffset := min (length c) (dirOffset fl + nat n)\<rparr>)"
proof -
  have "int64 (int (dirOffset fl) + n) = int (dirOffset fl) + n" using assms by (intro int64_id) auto
  then show ?thesis using assms
    by (auto simp: davPage_def Let_def min_def drop_take nat_add_distrib intro!: arg_cong [of _ _ "\<lambda>i. fl\<lparr>dirOffset := i\<rparr>"])
qed

lemma read_pages_at:
  assumes "\<forall>n\<in>set ns. 0 < n \<and> int (length c) + n < 2 ^ 63" "dirCache fl = Some c" "dirOffset fl \<le> length c"
  shows "concat (map (case_sum (\<lambda>_. []) id) (read_pages all ns fl)) = take (\<Sum>n\<leftarrow>ns. nat n) (drop (dirOffset fl) c) \<and>
    (\<forall>i<length ns. read_pages all ns fl ! i = Inl DavEOF \<longleftrightarrow> length c \<le> dirOffset fl + (\<Sum>n\<leftarrow>take i ns. nat n))"
  using assms
proof (induction ns arbitrary: fl)
  case (Cons n ns)
  let ?fl = "fl\<lparr>dirOffset := min (length c) (dirOffset fl + nat n)\<rparr>"
  have r: "davReaddir all n fl = (if dirOffset fl = length c then Inl DavEOF else Inr (take (nat n) (drop (dirOffset fl) c)), ?fl)"
    using Cons.prems davPage_at [of n c fl] by (simp add: davReaddir_def)
  have IH: "concat (map (case_sum (\<lambda>_. []) id) (read_pages all ns ?fl)) = take (\<Sum>n\<leftarrow>ns. nat n) (drop (dirOffset ?fl) c) \<and>
      (\<forall>i<length ns. read_pages all ns ?fl ! i = Inl DavEOF \<longleftrightarrow> length c \<le> dirOffset ?fl + (\<Sum>n\<leftarrow>take i ns. nat n))"
    using Cons.prems by (intro Cons.IH) auto
  have "take (nat n) (drop (dirOffset fl) c) @ take k (drop (dirOffset ?fl) c) = take (nat n + k) (drop (dirOffset fl) c)" for k
    using take_add [of "nat n" k "drop (dirOffset fl) c"]
    by (cases "length c \<le> dirOffset fl + nat n") (simp_all add: min_def add.commute [of "nat n"])
  then show ?case using IH r Cons.prems(3)
    by (auto simp: nth_Cons' min_def less_Suc_eq_0_disj split: if_splits)
qed simp

text \<open>
  C35: Reading a directory page by page gives the same entries in the same order as reading it at once:
  the pages put together are as much of the visible entries as was asked for, the end is announced by
  the first page after the last entry and by every later one, and never before.
\<close>

theorem dav_pages_equal_listing:
  assumes "dirCache fl = None" and "c = filter (\<lambda>e. \<not> HasPrefix (fst e) ''.'') es"
    and "\<forall>n\<in>set ns. 0 < n \<and> int (length c) + n < 2 ^ 63"
  shows "fst (davReaddir (Inr es) 0 fl) = Inr c \<and>
    concat (map (case_sum (\<lambda>_. []) id) (read_pages (Inr es) ns fl)) = take (\<Sum>n\<leftarrow>ns. nat n) c \<and>
    (\<forall>i<length ns. read_pages (Inr es) ns fl ! i = Inl DavEOF \<longleftrightarrow> length c \<le> (\<Sum>n\<leftarrow>take i ns. nat n))"
proof -
  let ?fl = "fl\<lparr>dirCache := Some c, dirOffset := 0\<rparr>"
  have "davReaddir (Inr es) n fl = davReaddir (Inr es) n ?fl" for n
    using assms(1,2) by (simp add: davReaddir_def Let_def)
  then have "read_pages (Inr es) ns fl = read_pages (Inr es) ns ?fl" by (cases ns) simp_all
  moreover have "fst (davReaddir (Inr es) 0 fl) = Inr c"
    using assms(1,2) by (simp add: davReaddir_def davPage_def Let_def)
  ultimately show ?thesis using read_pages_at [OF assms(3), of ?fl "Inr es"] by simp
qed

theorem dav_pages_equal_listing_witness:
  "read_pages (Inr [(''a'', FDir), (''.b'', FDir), (''c'', FDir), (''d'', FDir)]) [2, 2, 2]
       \<lparr>davPlace = [], davNode = FDir, dirOffset = 0, dirCache = None\<rparr> =
     [Inr [(''a'', FDir), (''c'', FDir)], Inr [(''d'', FDir)], Inl DavEOF]"
proof -
  let ?es = "[(''a'', FDir), (''.b'', FDir), (''c'', FDir), (''d'', FDir)]"
  let ?fl = "\<lparr>davPlace = [], davNode = FDir, dirOffset = 0, dirCache = None\<rparr>"
  have "read_pages (Inr ?es) [2, 2, 2] ?fl ! 2 = Inl DavEOF"
    using dav_pages_equal_listing [of ?fl "[(''a'', FDir), (''c'', FDir), (''d'', FDir)]" ?es "[2, 2, 2]"] by simp
  moreover have "read_pages (Inr ?es) [2, 2, 2] ?fl = [Inr [(''a'', FDir), (''c'', FDir)], Inr [(''d'', FDir)], Inl DavEOF]" by code_simp
  ultimately show ?thesis by simp
qed

subsection \<open>Read-only, and never without a user\<close>

text \<open>The request carries a session, or a name and password that are right.\<close>

definition dav_signed_in :: "genv \<Rightarrow> request \<Rightarrow> server \<Rightarrow> bool" where
  "dav_signed_in G r s \<longleftrightarrow> rSession r \<noteq> None \<or>
     (\<exists>user pass u. parseBasicAuth r = Some (user, pass) \<and>
        authenticate (gU G) (gArgon G) (srvUsers s) user pass = Inr u)"



end
