(* ===== verification/Compress.thy ===== *)
theory Compress
  imports Server
begin

text \<open>
  Compressed responses (\<open>compress.go\<close>). A handler writes a response in steps; the same steps go to the
  writer of net/http directly, or through \<open>gzipResponseWriter\<close>. The format is that of compress/gzip, a
  parameter here. Main result: with or without compression a client that decodes what the headers say
  receives the same status and the same bytes.
\<close>

subsection \<open>What may be compressed\<close>

definition compressibleContentType :: "unicode \<Rightarrow> string \<Rightarrow> bool" where
  "compressibleContentType U ct0 =
     (let ct = ToLower U ct0 in
      if ct = [] then True
      else HasPrefix ct ''text/'' \<or> HasPrefix ct ''application/json'' \<or> HasPrefix ct ''application/javascript'' \<or>
        Contains ct ''javascript'' \<or> HasPrefix ct ''application/xml'' \<or> HasPrefix ct ''image/svg+xml'')"

definition body_allowed :: "nat \<Rightarrow> bool" where
  "body_allowed st \<longleftrightarrow> \<not> (100 \<le> st \<and> st \<le> 199) \<and> st \<noteq> 204 \<and> st \<noteq> 304"

subsection \<open>The writers\<close>

text \<open>
  The writer of net/http: the header map the handler changes, what was sent of it with the status, and
  the bytes of the body. The first write sends status 200 when none was sent, and a status that has no body
  drops the bytes.
\<close>

type_synonym headers = "(string \<times> string) list"

record writer =
  wHeader :: headers
  wSent :: "(nat \<times> headers) option"
  wBody :: string

definition bw_WriteHeader :: "nat \<Rightarrow> writer \<Rightarrow> writer" where
  "bw_WriteHeader st w = (case wSent w of None \<Rightarrow> w\<lparr>wSent := Some (st, wHeader w)\<rparr> | Some _ \<Rightarrow> w)"

definition bw_Write :: "string \<Rightarrow> writer \<Rightarrow> writer" where
  "bw_Write b w =
     (let w1 = bw_WriteHeader 200 w in
      case wSent w1 of
        None \<Rightarrow> w1
      | Some (st, h) \<Rightarrow> (if body_allowed st then w1\<lparr>wBody := wBody w1 @ b\<rparr> else w1))"

definition bw_Flush :: "writer \<Rightarrow> writer" where
  "bw_Flush w = bw_WriteHeader 200 w"

text \<open>
  \<open>gzipResponseWriter\<close>. The compressor keeps what it was given, cut where it was flushed; its output goes to
  the writer below, and is written there when it is closed.
\<close>

record gzipResponseWriter =
  gzBelow :: writer
  gzIn :: "string list"
  wroteHeader :: bool
  shouldCompress :: bool
  gzChecked :: bool

definition decide :: "unicode \<Rightarrow> gzipResponseWriter \<Rightarrow> gzipResponseWriter" where
  "decide U w =
     (if gzChecked w then w
      else if get_header (wHeader (gzBelow w)) ''Content-Encoding'' \<noteq> []
      then w\<lparr>gzChecked := True, shouldCompress := False\<rparr>
      else w\<lparr>gzChecked := True,
             shouldCompress := compressibleContentType U (get_header (wHeader (gzBelow w)) ''Content-Type'')\<rparr>)"

definition gzip_headers :: "headers \<Rightarrow> headers" where
  "gzip_headers h =
     set_header ''Content-Encoding'' ''gzip'' (filter (\<lambda>e. fst e \<noteq> ''Content-Length'') h) @ [(''Vary'', ''Accept-Encoding'')]"

definition gz_WriteHeader :: "unicode \<Rightarrow> nat \<Rightarrow> gzipResponseWriter \<Rightarrow> gzipResponseWriter" where
  "gz_WriteHeader U st w =
     (if wroteHeader w then w
      else let w1 = decide U (w\<lparr>wroteHeader := True\<rparr>);
               b = gzBelow w1;
               b1 = (if shouldCompress w1 then b\<lparr>wHeader := gzip_headers (wHeader b)\<rparr> else b)
           in w1\<lparr>gzBelow := bw_WriteHeader st b1\<rparr>)"

definition gz_Write :: "unicode \<Rightarrow> string \<Rightarrow> gzipResponseWriter \<Rightarrow> gzipResponseWriter" where
  "gz_Write U b w =
     (let w1 = (if \<not> wroteHeader w then gz_WriteHeader U 200 w else w)
      in if shouldCompress w1
         then w1\<lparr>gzIn := (case gzIn w1 of [] \<Rightarrow> [b] | s # ss \<Rightarrow> (s @ b) # ss)\<rparr>
         else w1\<lparr>gzBelow := bw_Write b (gzBelow w1)\<rparr>)"

definition gz_Flush :: "gzipResponseWriter \<Rightarrow> gzipResponseWriter" where
  "gz_Flush w =
     (let w1 = (if shouldCompress w then w\<lparr>gzIn := [] # gzIn w\<rparr> else w)
      in w1\<lparr>gzBelow := bw_Flush (gzBelow w1)\<rparr>)"

text \<open>The end of \<open>withGzip\<close>: the compressor is closed when it was used. \<open>gz\<close> compresses the pieces, the newest first.\<close>

definition gz_close :: "(string list \<Rightarrow> string) \<Rightarrow> gzipResponseWriter \<Rightarrow> writer" where
  "gz_close gz w = (if wroteHeader w \<and> shouldCompress w then bw_Write (gz (gzIn w)) (gzBelow w) else gzBelow w)"

subsection \<open>A handler's steps\<close>

datatype write_step = SetHeader string string | SendHeader nat | WriteBytes string | FlushBytes

fun plain_step :: "write_step \<Rightarrow> writer \<Rightarrow> writer" where
  "plain_step (SetHeader k v) w = w\<lparr>wHeader := set_header k v (wHeader w)\<rparr>"
| "plain_step (SendHeader st) w = bw_WriteHeader st w"
| "plain_step (WriteBytes b) w = bw_Write b w"
| "plain_step FlushBytes w = bw_Flush w"

fun gzip_step :: "unicode \<Rightarrow> write_step \<Rightarrow> gzipResponseWriter \<Rightarrow> gzipResponseWriter" where
  "gzip_step U (SetHeader k v) w = w\<lparr>gzBelow := (gzBelow w)\<lparr>wHeader := set_header k v (wHeader (gzBelow w))\<rparr>\<rparr>"
| "gzip_step U (SendHeader st) w = gz_WriteHeader U st w"
| "gzip_step U (WriteBytes b) w = gz_Write U b w"
| "gzip_step U FlushBytes w = gz_Flush w"

definition new_writer :: writer where
  "new_writer = \<lparr>wHeader = [], wSent = None, wBody = []\<rparr>"

text \<open>The whole of \<open>withGzip\<close> over the steps of the handler it wraps.\<close>

definition withGzip :: "unicode \<Rightarrow> (string list \<Rightarrow> string) \<Rightarrow> request \<Rightarrow> write_step list \<Rightarrow> writer" where
  "withGzip U gz r steps =
     (if HasPrefix (rPath r) ''/dav'' then fold plain_step steps new_writer
      else if rMethod r = ''HEAD'' \<or> \<not> Contains (rHeader r ''Accept-Encoding'') ''gzip'' then fold plain_step steps new_writer
      else gz_close gz (fold (gzip_step U) steps
        \<lparr>gzBelow = new_writer, gzIn = [], wroteHeader = False, shouldCompress = False, gzChecked = False\<rparr>))"

subsection \<open>The client receives the same\<close>

definition compresses :: "unicode \<Rightarrow> headers \<Rightarrow> bool" where
  "compresses U h \<longleftrightarrow> get_header h ''Content-Encoding'' = [] \<and> compressibleContentType U (get_header h ''Content-Type'')"

text \<open>The two writers after the same steps.\<close>

definition gz_sim :: "unicode \<Rightarrow> writer \<Rightarrow> gzipResponseWriter \<Rightarrow> bool" where
  "gz_sim U p g \<longleftrightarrow>
     (case wSent p of
        None \<Rightarrow> gzBelow g = p \<and> \<not> wroteHeader g \<and> \<not> shouldCompress g \<and> \<not> gzChecked g \<and> gzIn g = [] \<and> wBody p = []
      | Some (st, h) \<Rightarrow> wroteHeader g \<and> shouldCompress g = compresses U h \<and>
          (if compresses U h
           then wSent (gzBelow g) = Some (st, gzip_headers h) \<and> wBody (gzBelow g) = [] \<and>
             wBody p = (if body_allowed st then concat (rev (gzIn g)) else [])
           else wSent (gzBelow g) = Some (st, h) \<and> wBody (gzBelow g) = wBody p))"

text \<open>No step flushes before the header is sent; no handler of the program flushes at all.\<close>

fun flush_late :: "write_step list \<Rightarrow> bool" where
  "flush_late [] = True"
| "flush_late (SetHeader k v # ss) = flush_late ss"
| "flush_late (FlushBytes # ss) = False"
| "flush_late (_ # ss) = True"

lemma gz_sim_header:
  "gz_sim U p g \<Longrightarrow> gz_sim U (bw_WriteHeader st p) (gz_WriteHeader U st g)"
  by (auto simp: gz_sim_def bw_WriteHeader_def gz_WriteHeader_def decide_def compresses_def Let_def split: option.splits)

lemma gz_sim_sent_write:
  assumes "gz_sim U p g" "wSent p = Some (st, h)"
  shows "gz_sim U (bw_Write b p) (gz_Write U b g)"
  using assms
  by (auto simp: gz_sim_def bw_Write_def gz_Write_def bw_WriteHeader_def Let_def split: option.splits if_splits list.splits)

lemma gz_sim_step:
  assumes "gz_sim U p g" "s = FlushBytes \<longrightarrow> wSent p \<noteq> None"
  shows "gz_sim U (plain_step s p) (gzip_step U s g)"
proof (cases s)
  case (SetHeader k v)
  then show ?thesis using assms(1) by (auto simp: gz_sim_def split: option.splits if_splits)
next
  case (SendHeader st)
  then show ?thesis using gz_sim_header [OF assms(1)] by simp
next
  case (WriteBytes b)
  show ?thesis
  proof (cases "wSent p")
    case None
    note h = gz_sim_header [OF assms(1), of 200]
    have "bw_Write b p = bw_Write b (bw_WriteHeader 200 p)" by (simp add: bw_Write_def bw_WriteHeader_def Let_def None)
    moreover have "gz_Write U b g = gz_Write U b (gz_WriteHeader U 200 g)"
      using None assms(1) by (auto simp: gz_sim_def gz_Write_def gz_WriteHeader_def decide_def Let_def)
    moreover have "wSent (bw_WriteHeader 200 p) = Some (200, wHeader p)" by (simp add: bw_WriteHeader_def None)
    ultimately show ?thesis using gz_sim_sent_write [OF h] WriteBytes by simp
  next
    case (Some sh)
    then show ?thesis using gz_sim_sent_write [OF assms(1)] WriteBytes by (cases sh) simp
  qed
next
  case FlushBytes
  then show ?thesis
    using assms by (auto simp: gz_sim_def bw_Flush_def gz_Flush_def bw_WriteHeader_def Let_def split: option.splits if_splits)
qed

lemma sent_stays: "wSent p \<noteq> None \<Longrightarrow> wSent (plain_step s p) \<noteq> None"
  by (cases s) (auto simp: bw_WriteHeader_def bw_Write_def bw_Flush_def Let_def split: option.splits)

lemma gz_sim_fold:
  assumes "gz_sim U p g" "wSent p \<noteq> None \<or> flush_late ss"
  shows "gz_sim U (fold plain_step ss p) (fold (gzip_step U) ss g)"
  using assms
proof (induction ss arbitrary: p g)
  case (Cons s ss)
  have "s = FlushBytes \<longrightarrow> wSent p \<noteq> None" using Cons.prems(2) by (cases s) auto
  note st = gz_sim_step [OF Cons.prems(1) this]
  have "wSent (plain_step s p) \<noteq> None \<or> flush_late ss"
    using Cons.prems(2) sent_stays [of p s]
    by (cases s) (auto simp: bw_WriteHeader_def bw_Write_def Let_def split: option.splits)
  with Cons.IH [OF st] show ?case by simp
qed simp

text \<open>What a client makes of a response: it decodes a body that is announced as compressed.\<close>

definition received :: "(string \<Rightarrow> string) \<Rightarrow> writer \<Rightarrow> (nat \<times> string) option" where
  "received gunzip w =
     (case wSent w of
        None \<Rightarrow> None
      | Some (st, h) \<Rightarrow>
          Some (st, if body_allowed st \<and> get_header h ''Content-Encoding'' = ''gzip'' then gunzip (wBody w) else wBody w))"

text \<open>
  C37: Compression is invisible to the client: whatever steps a handler takes to write its response, as long as it
  does not flush before it has sent a header, the status and the decoded body are the ones it would have sent
  without compression, and the other headers as well; a response that already is encoded, a HEAD request, a client that
  does not accept gzip and everything below /dav are passed on unchanged.
\<close>

theorem gzip_transparent:
  assumes "\<And>ss. gunzip (gz ss) = concat (rev ss)" and "flush_late steps"
  shows "received gunzip (withGzip U gz r steps) = received gunzip (fold plain_step steps new_writer) \<and>
    (\<forall>st h. wSent (fold plain_step steps new_writer) = Some (st, h) \<longrightarrow>
       (\<exists>h'. wSent (withGzip U gz r steps) = Some (st, h') \<and>
          (h' = h \<or> h' = gzip_headers h \<and> compresses U h \<and> rMethod r \<noteq> ''HEAD'' \<and>
             Contains (rHeader r ''Accept-Encoding'') ''gzip'' \<and> \<not> HasPrefix (rPath r) ''/dav'')))"
proof (cases "HasPrefix (rPath r) ''/dav'' \<or> rMethod r = ''HEAD'' \<or> \<not> Contains (rHeader r ''Accept-Encoding'') ''gzip''")
  case True
  then have "withGzip U gz r steps = fold plain_step steps new_writer" by (auto simp: withGzip_def)
  then show ?thesis by auto
next
  case False
  let ?p = "fold plain_step steps new_writer"
  let ?g = "fold (gzip_step U) steps
    \<lparr>gzBelow = new_writer, gzIn = [], wroteHeader = False, shouldCompress = False, gzChecked = False\<rparr>"
  have z: "withGzip U gz r steps = gz_close gz ?g" using False by (simp add: withGzip_def)
  have sim: "gz_sim U ?p ?g" using assms(2) by (intro gz_sim_fold) (simp_all add: gz_sim_def new_writer_def)
  show ?thesis
  proof (cases "wSent ?p")
    case None
    with sim show ?thesis by (simp add: z gz_sim_def gz_close_def)
  next
    case (Some sh)
    then obtain st h where sh: "wSent ?p = Some (st, h)" by (cases sh) simp
    have "get_header (gzip_headers h) ''Content-Encoding'' = ''gzip''"
      by (auto simp: gzip_headers_def get_header_def set_header_def map_add_def map_of_append_filter dest!: map_of_SomeD
          split: option.split)
    with sim sh False assms(1) show ?thesis
      by (auto simp: z gz_sim_def gz_close_def received_def bw_Write_def bw_WriteHeader_def compresses_def Let_def split: if_splits)
  qed
qed

theorem gzip_transparent_witness:
  "received (\<lambda>s. drop 1 s) (withGzip basic_unicode (\<lambda>ss. CHR ''z'' # concat (rev ss))
      (demo_request\<lparr>rHeader := (\<lambda>k. if k = ''Accept-Encoding'' then ''gzip'' else [])\<rparr>)
      [SetHeader ''Content-Type'' ''text/html'', WriteBytes ''he'', FlushBytes, WriteBytes ''llo'']) = Some (200, ''hello'')"
proof -
  let ?steps = "[SetHeader ''Content-Type'' ''text/html'', WriteBytes ''he'', FlushBytes, WriteBytes ''llo'']"
  have "received (\<lambda>s. drop 1 s) (fold plain_step ?steps new_writer) = Some (200, ''hello'')" by code_simp
  moreover have "flush_late ?steps" by simp
  ultimately show ?thesis using gzip_transparent [of "\<lambda>s. drop 1 s" "\<lambda>ss. CHR ''z'' # concat (rev ss)" ?steps] by simp
qed

text \<open>
  An answer to a range request is compressed too, though the range it announces counts the bytes of the file:
  its type alone decides.
\<close>

lemma partial_content_compressed:
  assumes "compressibleContentType U ct" "Contains (rHeader r ''Accept-Encoding'') ''gzip''" "rMethod r = ''GET''"
    and "\<not> HasPrefix (rPath r) ''/dav''"
  shows "wSent (withGzip U gz r [SetHeader ''Content-Type'' ct, SetHeader ''Content-Range'' rng, SendHeader 206]) =
    Some (206, gzip_headers [(''Content-Type'', ct), (''Content-Range'', rng)])"
  using assms
  by (simp add: withGzip_def gz_WriteHeader_def decide_def new_writer_def bw_WriteHeader_def set_header_def get_header_def
      gz_close_def bw_Write_def Let_def body_allowed_def)

end
