(* ===== verification/Routes.thy ===== *)
theory Routes
  imports SignIn UploadHandlers Listing ShareWeb WebDAV Compress
begin

text \<open>
  The routes of the server (\<open>main.go\<close>): which handler answers which path, behind which guards. The
  multiplexer is that of net/http (Go 1.22), modelled for patterns without wildcards, methods and hosts, which are the
  only ones in use. Main results, over whole requests and whole runs: the stored files change only for an admin on
  a page of this origin, or by an upload into a drop folder; and whatever is done, nothing outside the visible part
  of the storage and its trash changes, as long as nobody renames or duplicates the storage root itself.
\<close>

subsection \<open>The multiplexer\<close>

text \<open>The path as the request line has it, still escaped, and one segment of it.\<close>

definition escaped_path :: "request \<Rightarrow> string" where
  "escaped_path r = takeWhile (\<lambda>c. c \<noteq> CHR ''?'') (rRequestURI r)"

definition hex_digit_val :: "char \<Rightarrow> nat" where
  "hex_digit_val c =
     (let b = byte_val c in if b \<le> 57 then b - 48 else if b \<le> 70 then b - 55 else b - 87)"

fun unpercent :: "string \<Rightarrow> string option" where
  "unpercent [] = Some []"
| "unpercent (c # cs) =
     (if c \<noteq> CHR ''%'' then map_option (Cons c) (unpercent cs)
      else case cs of
        a # b # ds \<Rightarrow>
          (if is_hex a \<and> is_hex b then map_option (Cons (char_of (16 * hex_digit_val a + hex_digit_val b))) (unpercent ds) else None)
      | _ \<Rightarrow> None)"

definition path_unescape :: "string \<Rightarrow> string" where
  "path_unescape s = (case unpercent s of None \<Rightarrow> s | Some u \<Rightarrow> u)"

text \<open>A trailing slash shows as an empty last segment.\<close>

definition path_segs :: "string \<Rightarrow> string list" where
  "path_segs p = map path_unescape (split_on slash (drop 1 p))"

definition cleanPath :: "string \<Rightarrow> string" where
  "cleanPath p0 =
     (if p0 = [] then ''/''
      else let p = (if hd p0 \<noteq> slash then slash # p0 else p0); np = path_Clean p
           in if last p = slash \<and> np \<noteq> ''/'' then np @ ''/'' else np)"

text \<open>A pattern that ends in a slash stands for everything below, any other for itself.\<close>

definition pattern_lits :: "string \<Rightarrow> string list" where
  "pattern_lits pat = filter (\<lambda>c. c \<noteq> []) (split_on slash pat)"

definition pattern_matches :: "string \<Rightarrow> string \<Rightarrow> bool" where
  "pattern_matches pat p \<longleftrightarrow>
     (let ls = pattern_lits pat; ss = path_segs p
      in if HasSuffix pat ''/'' then length ls < length ss \<and> take (length ls) ss = ls else ls = ss)"

text \<open>The most specific pattern that matches: one that names the path, or else the longest one above it.\<close>

fun most_specific :: "(string \<times> 'h) list \<Rightarrow> (string \<times> 'h) option" where
  "most_specific [] = None"
| "most_specific (e # es) =
     (case most_specific es of
        None \<Rightarrow> Some e
      | Some e' \<Rightarrow>
          (if \<not> HasSuffix (fst e) ''/'' then Some e
           else if \<not> HasSuffix (fst e') ''/'' \<or> length (pattern_lits (fst e)) < length (pattern_lits (fst e')) then Some e'
           else Some e))"

definition mux_match :: "(string \<times> 'h) list \<Rightarrow> string \<Rightarrow> (string \<times> 'h) option" where
  "mux_match pats p = most_specific (filter (\<lambda>e. pattern_matches (fst e) p) pats)"

definition exactMatch :: "(string \<times> 'h) option \<Rightarrow> string \<Rightarrow> bool" where
  "exactMatch m p =
     (case m of
        None \<Rightarrow> False
      | Some (pat, _) \<Rightarrow>
          (if \<not> HasSuffix pat ''/'' then True
           else HasSuffix p ''/'' \<and> length (pattern_lits pat) + 1 = length (filter (\<lambda>c. c = slash) p)))"

definition slash_redirect :: "(string \<times> 'h) list \<Rightarrow> string \<Rightarrow> bool" where
  "slash_redirect pats p \<longleftrightarrow>
     \<not> exactMatch (mux_match pats p) p \<and> \<not> HasSuffix p ''/'' \<and> exactMatch (mux_match pats (p @ ''/'')) (p @ ''/'')"

definition url_string :: "string \<Rightarrow> string \<Rightarrow> string" where
  "url_string path query =
     concat (map (\<lambda>c. if is_alnum c \<or> c \<in> set ''-_.~$&+,/:;=@'' then [c] else percent c) path) @
     (if query = [] then [] else ''?'' @ query)"

definition mux_run :: "(string \<times> shandler) list \<Rightarrow> string \<Rightarrow> shandler" where
  "mux_run pats p G x r s = (case mux_match pats p of None \<Rightarrow> (http_NotFound, s) | Some (_, h) \<Rightarrow> h G x r s)"

definition ServeMux :: "(string \<times> shandler) list \<Rightarrow> shandler" where
  "ServeMux pats G x r s =
     (if rRequestURI r = ''*'' then (mk_response 400 [(''Connection'', ''close'')] BEmpty, s)
      else let esc = escaped_path r; slashed = redirect (url_string (cleanPath (rPath r) @ ''/'') (raw_query r)) 301 in
      if rMethod r = ''CONNECT'' then (if slash_redirect pats esc then (slashed, s) else mux_run pats esc G x r s)
      else let path = cleanPath esc in
        if slash_redirect pats path then (slashed, s)
        else if path \<noteq> esc then (redirect (url_string path (raw_query r)) 301, s)
        else mux_run pats path G x r s)"

subsection \<open>The table\<close>

definition publicMux :: "(string \<times> shandler) list" where
  "publicMux =
     [(''/'', handlePagePublic), (''/download/'', handleDownload), (''/preview/'', handlePreview), (''/api/tree'', handleTree),
      (''/api/search'', handleSearch), (''/api/zip'', requireCSRF handleZip)]"

definition adminMux :: "(string \<times> shandler) list" where
  "adminMux =
     [(''/admin'', handlePageAdmin), (''/admin/upload'', handleUpload), (''/admin/upload/init'', handleUploadInit),
      (''/admin/upload/chunk'', handleUploadChunk), (''/admin/upload/status'', handleUploadStatus),
      (''/admin/upload/complete'', handleUploadComplete), (''/admin/upload/abort'', handleUploadAbort),
      (''/admin/mkdir'', handleMkdir), (''/admin/rename'', handleRename), (''/admin/delete'', handleDelete),
      (''/admin/move'', handleMove), (''/admin/copy'', handleCopy), (''/admin/duplicate'', handleDuplicate),
      (''/admin/bulk/delete'', handleBulkDelete), (''/admin/bulk/move'', handleBulkMove), (''/admin/bulk/zip'', handleZip),
      (''/admin/share'', handleCreateShare), (''/admin/share/revoke'', handleRevokeShare), (''/admin/api/tree'', handleTree),
      (''/admin/api/search'', handleSearch), (''/admin/api/disk'', handleDiskUsage), (''/admin/api/activity'', handleActivityList),
      (''/admin/api/trash'', handleTrashList), (''/admin/api/shares'', handleListShares), (''/admin/api/users'', handleUsersList),
      (''/admin/users'', handleUsersCreate), (''/admin/users/delete'', handleUsersDelete),
      (''/admin/users/password'', handleUsersSetPassword), (''/admin/users/role'', handleUsersSetRole),
      (''/admin/trash/restore'', handleTrashRestore), (''/admin/trash/purge'', handleTrashPurge),
      (''/admin/trash/empty'', handleTrashEmpty)]"

definition sign_in_routes :: "(string \<times> shandler) list" where
  "sign_in_routes =
     [(''/login'', handleLoginPage), (''/api/login'', handleLoginAPI), (''/api/login/totp'', handleLoginTOTP),
      (''/api/logout'', handleLogoutAPI), (''/api/me'', handleMeAPI), (''/api/password'', requireCSRF handleChangeOwnPassword),
      (''/api/totp/status'', handleTOTPStatus), (''/api/totp/begin'', requireCSRF handleTOTPBegin),
      (''/api/totp/confirm'', requireCSRF handleTOTPConfirm), (''/api/totp/disable'', requireCSRF handleTOTPDisable),
      (''/s/'', handlePublicShare)]"

text \<open>\<open>W\<close> and \<open>ord\<close>: the WebDAV protocol handler and the order of directories on disk.\<close>

definition dav_routes :: "genv \<Rightarrow> (request \<Rightarrow> dav_prog) \<Rightarrow> dirOrder \<Rightarrow> (string \<times> shandler) list" where
  "dav_routes G W ord =
     (if cfg_webdavEnabled (gConf G)
      then [(''/dav'', requireWebDAVAuth (newWebDAVHandler W ord)), (''/dav/'', requireWebDAVAuth (newWebDAVHandler W ord))]
      else [])"

definition mux :: "genv \<Rightarrow> (request \<Rightarrow> dav_prog) \<Rightarrow> dirOrder \<Rightarrow> (string \<times> shandler) list" where
  "mux G W ord =
     sign_in_routes @ dav_routes G W ord @
     [(''/'', requireViewerOrOpen (ServeMux publicMux)),
      (''/admin'', requireAdmin (requireCSRF (ServeMux adminMux))),
      (''/admin/'', requireAdmin (requireCSRF (ServeMux adminMux)))]"

text \<open>The handler of the server, under the compression of \<open>withGzip\<close>.\<close>

definition serve :: "(request \<Rightarrow> dav_prog) \<Rightarrow> dirOrder \<Rightarrow> shandler" where
  "serve W ord G x r s = withSession (ServeMux (mux G W ord)) G x r s"

subsection \<open>Where a request ends up\<close>

lemma most_specific_in: "most_specific es = Some e \<Longrightarrow> e \<in> set es"
  by (induction es arbitrary: e) (auto split: option.splits if_splits)

lemma mux_match_in: "mux_match pats p = Some e \<Longrightarrow> e \<in> set pats \<and> pattern_matches (fst e) p"
  unfolding mux_match_def using most_specific_in by fastforce

text \<open>The multiplexer changes nothing itself, and hands over to a handler whose pattern matches the path.\<close>

lemma ServeMux_cases:
  obtains (answered) resp where "ServeMux pats G x r s = (resp, s)"
  | (handled) pat h where "(pat, h) \<in> set pats" "pattern_matches pat (escaped_path r)" "ServeMux pats G x r s = h G x r s"
proof -
  have run: "(\<exists>resp. mux_run pats (escaped_path r) G x r s = (resp, s)) \<or>
      (\<exists>pat h. (pat, h) \<in> set pats \<and> pattern_matches pat (escaped_path r) \<and> mux_run pats (escaped_path r) G x r s = h G x r s)"
    using mux_match_in [of pats "escaped_path r"] by (auto simp: mux_run_def split: option.splits) blast+
  have "ServeMux pats G x r s = mux_run pats (escaped_path r) G x r s \<or> (\<exists>resp. ServeMux pats G x r s = (resp, s))"
    unfolding ServeMux_def Let_def by (auto split: if_split)
  with run answered handled show thesis by metis
qed

text \<open>The session a request is served under.\<close>

definition request_session :: "genv \<Rightarrow> extern \<Rightarrow> request \<Rightarrow> server \<Rightarrow> session option" where
  "request_session G x r s =
     (case sessionFromProxy (gU G) (gConf G) (x_now x 0) r (srvUsers s) of
        Some ses \<Rightarrow> Some ses
      | None \<Rightarrow> fst (fromRequest (x_now x 0) (x_now x 1) (x_save x 0) r (srvSessions s)))"

lemma withSession_runs:
  "\<exists>r' sm. snd (withSession h G x r s) = snd (h G x r' (s\<lparr>srvSessions := sm\<rparr>)) \<and>
     rSession r' = request_session G x r s \<and> r' = r\<lparr>rSession := rSession r', rAuthVia := rAuthVia r'\<rparr>"
proof (cases "sessionFromProxy (gU G) (gConf G) (x_now x 0) r (srvUsers s)")
  case (Some ses)
  then show ?thesis
    by (intro exI [of _ "r\<lparr>rSession := Some ses, rAuthVia := ''proxy''\<rparr>"] exI [of _ "srvSessions s"])
      (simp add: withSession_def request_session_def Let_def)
next
  case None
  obtain o1 sm where f: "fromRequest (x_now x 0) (x_now x 1) (x_save x 0) r (srvSessions s) = (o1, sm)" by (meson surj_pair)
  show ?thesis
  proof (cases o1)
    case None
    then show ?thesis using f \<open>sessionFromProxy _ _ _ _ _ = None\<close>
      by (intro exI [of _ "r\<lparr>rSession := None, rAuthVia := []\<rparr>"] exI [of _ sm])
        (simp add: withSession_def request_session_def Let_def)
  next
    case (Some ses)
    then show ?thesis using f \<open>sessionFromProxy _ _ _ _ _ = None\<close>
      by (intro exI [of _ "r\<lparr>rSession := Some ses, rAuthVia := ''session''\<rparr>"] exI [of _ sm])
        (simp add: withSession_def request_session_def Let_def)
  qed
qed

subsection \<open>Who may change what\<close>

text \<open>What is stored for the users, and what an account signs in with.\<close>

definition stored_state :: "server \<Rightarrow> fs \<times> trashStore \<times> uploadManager" where
  "stored_state s = (srvFs s, srvTrash s, srvUploads s)"

definition credentials :: "server \<Rightarrow> (string \<times> string \<times> string \<times> string \<times> bool) list" where
  "credentials s = map (\<lambda>u. (Username u, PasswordHash u, Role u, TOTPSecret u, TOTPEnabled u)) (Users (srvUsers s))"

definition leaves_stored :: "shandler \<Rightarrow> bool" where
  "leaves_stored h \<longleftrightarrow> (\<forall>G x r s. stored_state (snd (h G x r s)) = stored_state s)"

definition leaves_accounts :: "shandler \<Rightarrow> bool" where
  "leaves_accounts h \<longleftrightarrow> (\<forall>G x r s. credentials (snd (h G x r s)) = credentials s)"

lemma stored_simps [simp]:
  "stored_state (s\<lparr>srvCache := c\<rparr>) = stored_state s" "stored_state (s\<lparr>srvPending := p\<rparr>) = stored_state s"
  "stored_state (s\<lparr>srvSessions := sm\<rparr>) = stored_state s" "stored_state (s\<lparr>srvUsers := us\<rparr>) = stored_state s"
  "stored_state (on_sessions f s) = stored_state s" "stored_state (audit G x u a pth r s) = stored_state s"
  "stored_state (snd (with_shares op s)) = stored_state s" "stored_state (snd (with_users op' s)) = stored_state s"
  by (simp_all add: stored_state_def with_shares_def with_users_def on_sessions_def case_prod_beta)

lemma credentials_simps [simp]:
  "credentials (s\<lparr>srvCache := c\<rparr>) = credentials s" "credentials (s\<lparr>srvPending := p\<rparr>) = credentials s"
  "credentials (s\<lparr>srvSessions := sm\<rparr>) = credentials s" "credentials (on_sessions f s) = credentials s"
  "credentials (audit G x u a pth r s) = credentials s" "credentials (snd (with_shares op s)) = credentials s"
  "credentials (on_fs f' s) = credentials s" "credentials (invalidateListingCache s) = credentials s"
  by (simp_all add: credentials_def with_shares_def on_sessions_def on_fs_def case_prod_beta)

lemma recovery_keeps_credentials:
  "verifyTOTPOrRecovery U V now ok name code us = (good, us') \<Longrightarrow>
   map (\<lambda>u. (Username u, PasswordHash u, Role u, TOTPSecret u, TOTPEnabled u)) (Users us') =
   map (\<lambda>u. (Username u, PasswordHash u, Role u, TOTPSecret u, TOTPEnabled u)) (Users us)"
  by (auto simp: verifyTOTPOrRecovery_def consumeRecoveryCode_def save_def Let_def map_update_same split: if_splits option.splits)

lemma reading_handlers:
  "leaves_stored handlePagePublic" "leaves_stored handleDownload" "leaves_stored handlePreview" "leaves_stored handleTree"
  "leaves_stored handleSearch" "leaves_stored handleZip" "leaves_stored handlePageAdmin"
  by (auto simp: leaves_stored_def handlePagePublic_def handleDownload_def handlePreview_def handleTree_def handleSearch_def
      handleZip_def handlePageAdmin_def post_json_def requirePOST_def decodeJSONBody_def Let_def
      split: sum.split prod.split json_body.split)

lemma reading_handlers_accounts:
  "leaves_accounts handlePagePublic" "leaves_accounts handleDownload" "leaves_accounts handlePreview" "leaves_accounts handleTree"
  "leaves_accounts handleSearch" "leaves_accounts handleZip" "leaves_accounts handlePageAdmin"
  by (auto simp: leaves_accounts_def handlePagePublic_def handleDownload_def handlePreview_def handleTree_def handleSearch_def
      handleZip_def handlePageAdmin_def post_json_def requirePOST_def decodeJSONBody_def Let_def
      split: sum.split prod.split json_body.split)

lemma sign_in_handlers:
  "leaves_stored handleLoginPage" "leaves_stored handleLogoutAPI" "leaves_stored handleMeAPI" "leaves_stored handleTOTPStatus"
  "leaves_stored handleTOTPBegin"
  by (auto simp: leaves_stored_def handleLoginPage_def handleLogoutAPI_def handleMeAPI_def handleTOTPStatus_def handleTOTPBegin_def
      Let_def split: option.split prod.split)

lemma sign_in_handlers_accounts:
  "leaves_accounts handleLoginPage" "leaves_accounts handleLogoutAPI" "leaves_accounts handleMeAPI" "leaves_accounts handleTOTPStatus"
  "leaves_accounts handleTOTPBegin"
  by (auto simp: leaves_accounts_def handleLoginPage_def handleLogoutAPI_def handleMeAPI_def handleTOTPStatus_def handleTOTPBegin_def
      Let_def split: option.split prod.split)

lemma post_leaves:
  "(\<And>b. stored_state (snd (k b)) = stored_state s) \<Longrightarrow> stored_state (snd (decodeJSONBody r k s)) = stored_state s"
  "(\<And>b. credentials (snd (k' b)) = credentials s) \<Longrightarrow> credentials (snd (decodeJSONBody r k' s)) = credentials s"
  by (simp_all add: decodeJSONBody_def split: json_body.split)

lemma open_session_leaves:
  "stored_state (snd (open_session G x r ip u role s)) = stored_state s"
  "credentials (snd (open_session G x r ip u role s)) = credentials s"
  by (simp_all add: open_session_def Let_def split: sum.split prod.split)

lemma finish_leaves:
  "stored_state (snd (finishLoginAfterPassword G x r ip u s)) = stored_state s"
  "credentials (snd (finishLoginAfterPassword G x r ip u s)) = credentials s"
  by (simp_all add: finishLoginAfterPassword_def open_session_leaves split: sum.split prod.split)

lemma totp_answer_leaves:
  "stored_state (snd (totp_answer G x r ip b l s)) = stored_state s"
  "credentials (snd (totp_answer G x r ip b l s)) = credentials s"
proof -
  obtain good us where v: "verifyTOTPOrRecovery (gU G) (gTotp G) (x_now x 7) (x_save x 2) (plUsername l) (fStr b ''code'') (srvUsers s) = (good, us)"
    by (meson surj_pair)
  have c: "credentials (s\<lparr>srvUsers := us\<rparr>) = credentials s"
    using recovery_keeps_credentials [OF v] by (simp add: credentials_def)
  show "stored_state (snd (totp_answer G x r ip b l s)) = stored_state s"
    by (simp add: totp_answer_def v Let_def open_session_leaves split: sum.split prod.split)
  show "credentials (snd (totp_answer G x r ip b l s)) = credentials s"
    by (simp add: totp_answer_def v Let_def open_session_leaves c split: sum.split prod.split)
qed

lemma login_entry_leaves:
  assumes "\<And>ip b s. stored_state (snd (k ip b s)) = stored_state s" "\<And>ip b s. credentials (snd (k ip b s)) = credentials s"
  shows "stored_state (snd (login_entry G x r k s)) = stored_state s"
    and "credentials (snd (login_entry G x r k s)) = credentials s"
  using assms by (auto simp: login_entry_def decodeJSONBody_def Let_def split: prod.split json_body.split bool.split)

lemma login_handlers:
  "leaves_stored handleLoginAPI" "leaves_accounts handleLoginAPI" "leaves_stored handleLoginTOTP" "leaves_accounts handleLoginTOTP"
  unfolding leaves_stored_def leaves_accounts_def handleLoginAPI_def handleLoginTOTP_def
  by (intro allI login_entry_leaves; simp add: finish_leaves totp_answer_leaves split: sum.split option.split prod.split)+

lemma account_handlers:
  "leaves_stored handleChangeOwnPassword" "leaves_stored handleTOTPConfirm" "leaves_stored handleTOTPDisable"
proof -
  show "leaves_stored handleChangeOwnPassword"
    unfolding leaves_stored_def handleChangeOwnPassword_def
    by (auto simp: Let_def with_users_def decodeJSONBody_def split: option.split sum.split prod.split json_body.split)
  show "leaves_stored handleTOTPConfirm"
    unfolding leaves_stored_def handleTOTPConfirm_def
    by (auto simp: decodeJSONBody_def split: option.split sum.split prod.split json_body.split)
  show "leaves_stored handleTOTPDisable"
    unfolding leaves_stored_def handleTOTPDisable_def
    by (auto simp: Let_def with_users_def decodeJSONBody_def split: option.split sum.split prod.split json_body.split)
qed

text \<open>Without a session the account pages do nothing.\<close>

lemma account_handlers_signed_out:
  assumes "rSession r = None"
  shows "snd (handleChangeOwnPassword G x r s) = s" "snd (handleTOTPConfirm G x r s) = s" "snd (handleTOTPDisable G x r s) = s"
  using assms by (simp_all add: handleChangeOwnPassword_def handleTOTPConfirm_def handleTOTPDisable_def admin_session_def)

text \<open>A link's page changes what is stored by a drop upload only.\<close>

lemma drop_accounts: "credentials (snd (handleDropUpload G x r sh s)) = credentials s"
proof -
  show ?thesis
    unfolding handleDropUpload_def Let_def
    by (auto simp: undo_drop_def on_shares_def credentials_def on_fs_def with_shares_def invalidateListingCache_def audit_def
        split: form_body.split option.split sum.split stored.split prod.split)
qed

lemma share_page_accounts: "leaves_accounts handlePublicShare"
proof -
  have ws: "credentials (snd (reserveAndServeShareFile G x r sh t s)) = credentials s"
    "credentials (snd (serveShareZip G x r sh s)) = credentials s" for G x r sh t s
    by (simp_all add: reserveAndServeShareFile_def serveShareZip_def case_prod_beta split: sum.split)
  have pages: "credentials (snd (serveShareDownload G x r sh s)) = credentials s"
    "credentials (snd (serveShareFile G x r sh rel s)) = credentials s"
    "credentials (snd (serveShareContent G x r sh rel s)) = credentials s" for G x r sh rel s
    by (simp_all add: serveShareDownload_def serveShareFile_def serveShareContent_def Let_def ws split: sum.split)
  show ?thesis
    by (simp add: leaves_accounts_def handlePublicShare_def case_prod_beta Let_def pages ws drop_accounts split: sum.split)
qed

text \<open>The request uploads into the drop folder its path names.\<close>

definition drop_request :: "extern \<Rightarrow> request \<Rightarrow> server \<Rightarrow> bool" where
  "drop_request x r s \<longleftrightarrow> Trim (TrimPrefix (rPath r) ''/s/'') ''/'' \<noteq> [] \<and>
     (case fst (getValid (x_now x 2) (x_now x 3) (x_save x 1) (fst (share_parts (rPath r))) (srvShares s)) of
        Inl _ \<Rightarrow> False
      | Inr sh \<Rightarrow> drops_into r sh)"

lemma drop_request_iff: "drop_request x r s \<longleftrightarrow> (\<exists>sh s1. names_share x r s sh s1 \<and> drops_into r sh)"
  by (auto simp: drop_request_def names_share_def with_shares_def case_prod_beta split: sum.split)

lemma share_page_uploads: "srvUploads (snd (handlePublicShare G x r s)) = srvUploads s"
proof -
  have w: "srvUploads s2 = srvUploads s1" if "with_shares op s1 = (a, s2)" for op :: "shareStore \<Rightarrow> 'b \<times> shareStore" and a s1 s2
    using that by (auto simp: with_shares_def split: prod.splits)
  have w': "srvUploads (snd (with_shares op s1)) = srvUploads s1" for op :: "shareStore \<Rightarrow> 'b \<times> shareStore" and s1
    by (simp add: with_shares_def case_prod_beta)
  have ws: "srvUploads (snd (reserveAndServeShareFile G x r sh t s)) = srvUploads s"
    "srvUploads (snd (serveShareZip G x r sh s)) = srvUploads s" for sh t s
    by (simp_all add: reserveAndServeShareFile_def serveShareZip_def case_prod_beta with_shares_def split: sum.split)
  have pages: "srvUploads (snd (serveShareDownload G x r sh s)) = srvUploads s"
    "srvUploads (snd (serveShareFile G x r sh rel s)) = srvUploads s"
    "srvUploads (snd (serveShareContent G x r sh rel s)) = srvUploads s" for sh rel s
    by (simp_all add: serveShareDownload_def serveShareFile_def serveShareContent_def Let_def ws split: sum.split)
  have drop: "srvUploads (snd (handleDropUpload G x r sh s)) = srvUploads s" for sh s
    unfolding handleDropUpload_def Let_def
    by (auto simp: undo_drop_def on_shares_def on_fs_def with_shares_def invalidateListingCache_def audit_def
        split: form_body.split option.split sum.split stored.split prod.split)
  show ?thesis
    by (simp add: handlePublicShare_def case_prod_beta Let_def pages ws drop with_shares_def split: sum.split)
qed

lemma share_page_stored:
  assumes "\<not> drop_request x r s"
  shows "stored_state (snd (handlePublicShare G x r s)) = stored_state s"
proof -
  have "srvFs (snd (handlePublicShare G x r s)) = srvFs s \<and> srvTrash (snd (handlePublicShare G x r s)) = srvTrash s"
  proof (cases "\<exists>sh s1. names_share x r s sh s1")
    case True
    then show ?thesis using assms other_pages_fs unfolding drop_request_iff by blast
  next
    case False
    then show ?thesis by (rule no_share_fs)
  qed
  then show ?thesis using share_page_uploads by (simp add: stored_state_def)
qed

text \<open>The change of a request is one its sender may make.\<close>

definition may_change :: "genv \<Rightarrow> extern \<Rightarrow> request \<Rightarrow> server \<Rightarrow> server \<Rightarrow> bool" where
  "may_change G x r s s' \<longleftrightarrow>
     (stored_state s' = stored_state s \<or> drop_request x r s \<or>
        (sameOrigin (gU G) r \<and> (case rSession r of None \<Rightarrow> False | Some ses \<Rightarrow> sRole ses = roleAdmin))) \<and>
     (credentials s' = credentials s \<or> (sameOrigin (gU G) r \<and> rSession r \<noteq> None))"

lemma may_change_leaves:
  "leaves_stored h \<Longrightarrow> leaves_accounts h \<Longrightarrow> may_change G x r s (snd (h G x r s))"
  by (simp add: may_change_def leaves_stored_def leaves_accounts_def)

lemma may_change_same [simp]: "may_change G x r s s"
  by (simp add: may_change_def)

lemma may_change_account:
  assumes "leaves_stored h" "\<And>G x r s. rSession r = None \<Longrightarrow> snd (h G x r s) = s"
  shows "may_change G x r s (snd (requireCSRF h G x r s))"
  using assms by (cases "rSession r") (auto simp: may_change_def leaves_stored_def requireCSRF_def)

lemma may_change_mux:
  assumes "\<And>pat h. (pat, h) \<in> set pats \<Longrightarrow> may_change G x r s (snd (h G x r s))"
  shows "may_change G x r s (snd (ServeMux pats G x r s))"
  by (cases rule: ServeMux_cases [of pats G x r s]) (use assms in auto)

lemma may_change_public: "may_change G x r s (snd (ServeMux publicMux G x r s))"
proof (rule may_change_mux)
  have z: "may_change G x r s (snd (requireCSRF handleZip G x r s))"
    using may_change_leaves [OF reading_handlers(6) reading_handlers_accounts(6)] by (simp add: requireCSRF_def)
  show "may_change G x r s (snd (h G x r s))" if "(pat, h) \<in> set publicMux" for pat h
    using that may_change_leaves [OF reading_handlers(1) reading_handlers_accounts(1)]
      may_change_leaves [OF reading_handlers(2) reading_handlers_accounts(2)]
      may_change_leaves [OF reading_handlers(3) reading_handlers_accounts(3)]
      may_change_leaves [OF reading_handlers(4) reading_handlers_accounts(4)]
      may_change_leaves [OF reading_handlers(5) reading_handlers_accounts(5)] z
    by (auto simp: publicMux_def)
qed

lemma may_change_sign_in:
  assumes "(pat, h) \<in> set sign_in_routes"
  shows "may_change G x r s (snd (h G x r s))"
proof -
  note si = may_change_leaves [OF sign_in_handlers(1) sign_in_handlers_accounts(1)] may_change_leaves [OF sign_in_handlers(2) sign_in_handlers_accounts(2)]
    may_change_leaves [OF sign_in_handlers(3) sign_in_handlers_accounts(3)] may_change_leaves [OF sign_in_handlers(4) sign_in_handlers_accounts(4)]
    may_change_leaves [OF login_handlers(1,2)] may_change_leaves [OF login_handlers(3,4)]
  have b: "may_change G x r s (snd (requireCSRF handleTOTPBegin G x r s))"
    using may_change_leaves [OF sign_in_handlers(5) sign_in_handlers_accounts(5)] by (simp add: requireCSRF_def)
  note ac = may_change_account [OF account_handlers(1) account_handlers_signed_out(1)]
    may_change_account [OF account_handlers(2) account_handlers_signed_out(2)] may_change_account [OF account_handlers(3) account_handlers_signed_out(3)]
  have sh: "may_change G x r s (snd (handlePublicShare G x r s))"
    using share_page_stored [of x r s G] share_page_accounts by (auto simp: may_change_def leaves_accounts_def)
  show ?thesis using assms si b ac sh by (auto simp: sign_in_routes_def)
qed

lemma dav_changes_nothing: "snd (requireWebDAVAuth (newWebDAVHandler W ord) G x r s) = s"
  by (simp add: requireWebDAVAuth_def newWebDAVHandler_def Let_def split: option.split sum.split prod.split)

lemma may_change_route:
  assumes "(pat, h) \<in> set (mux G W ord)"
  shows "may_change G x r s (snd (h G x r s))"
proof -
  have adm: "may_change G x r s (snd (requireAdmin (requireCSRF k) G x r s))" for k
    by (auto simp: requireAdmin_def requireCSRF_def may_change_def split: option.split)
  have pub: "may_change G x r s (snd (requireViewerOrOpen (ServeMux publicMux) G x r s))"
    using may_change_public by (simp add: requireViewerOrOpen_def split: option.split)
  show ?thesis
    using assms may_change_sign_in adm pub dav_changes_nothing [of W ord G x r s]
    by (auto simp: mux_def dav_routes_def split: if_splits)
qed

text \<open>
  C1: Over every route of the server: the stored files, the trash and the running uploads change only for a request
  of an admin's session that names no other origin, or for an upload of an unlocked visitor into a drop
  folder; and what an account signs in with (its name, password, role and second factor) changes only for a signed-in
  request that names no other origin. It holds for every method, path and body, whatever stands behind
  WebDAV and whether or not anonymous browsing is on.
\<close>

theorem changes_are_authorised:
  assumes "serve W ord G x r s = (resp, s')"
  shows "(stored_state s' \<noteq> stored_state s \<longrightarrow> drop_request x r s \<or>
      (sameOrigin (gU G) r \<and> (\<exists>ses. request_session G x r s = Some ses \<and> sRole ses = roleAdmin))) \<and>
    (credentials s' \<noteq> credentials s \<longrightarrow> sameOrigin (gU G) r \<and> request_session G x r s \<noteq> None)"
proof -
  obtain r' sm where w: "s' = snd (ServeMux (mux G W ord) G x r' (s\<lparr>srvSessions := sm\<rparr>))"
    "rSession r' = request_session G x r s" "r' = r\<lparr>rSession := rSession r', rAuthVia := rAuthVia r'\<rparr>"
    using withSession_runs [of "ServeMux (mux G W ord)" G x r s] assms unfolding serve_def by auto
  have m: "may_change G x r' (s\<lparr>srvSessions := sm\<rparr>) s'"
    unfolding w(1) by (rule may_change_mux) (rule may_change_route)
  have o: "sameOrigin (gU G) r' = sameOrigin (gU G) r"
    by (subst w(3)) (simp add: sameOrigin_def expectedOrigin_def)
  have d: "drop_request x r' (s\<lparr>srvSessions := sm\<rparr>) = drop_request x r s"
    by (subst w(3)) (simp add: drop_request_def drops_into_def shareUnlocked_def request_cookie_def split: sum.split)
  show ?thesis using m unfolding may_change_def o d w(2) by (auto split: option.splits)
qed

theorem changes_are_authorised_witness:
  "stored_state (snd (serve (\<lambda>_. DavRespond http_NotFound) (\<lambda>_ es. es) demo_G demo_x demo_request (demo_server []))) =
     stored_state (demo_server [])"
proof -
  have "\<not> drop_request demo_x demo_request (demo_server [])" "request_session demo_G demo_x demo_request (demo_server []) = None"
    by code_simp+
  then show ?thesis
    using changes_are_authorised [OF prod.collapse [symmetric], of "\<lambda>_. DavRespond http_NotFound" "\<lambda>_ es. es" demo_G demo_x demo_request "demo_server []"]
    by auto
qed

subsection \<open>Whole runs stay inside the storage\<close>

text \<open>
  Renaming or duplicating the storage root itself is not refused by the handlers; the requests meant here do
  not do it.
\<close>

definition spares_root :: "genv \<Rightarrow> apath \<Rightarrow> request \<Rightarrow> server \<Rightarrow> bool" where
  "spares_root G root r s \<longleftrightarrow>
     (pattern_matches ''/admin/rename'' (escaped_path r) \<longrightarrow> not_the_root G root ''oldPath'' (rBody r) (srvFs s)) \<and>
     (pattern_matches ''/admin/duplicate'' (escaped_path r) \<longrightarrow> not_the_root G root ''path'' (rBody r) (srvFs s))"

text \<open>What happens to the server: a request, with what its handler reads from outside, or the janitor of the trash.\<close>

inductive server_step :: "genv \<Rightarrow> (request \<Rightarrow> dav_prog) \<Rightarrow> dirOrder \<Rightarrow> apath \<Rightarrow> server \<Rightarrow> server \<Rightarrow> bool"
  for G W ord root where
  request: "fresh_tokens x \<Longrightarrow> spares_root G root r s \<Longrightarrow> server_step G W ord root s (snd (serve W ord G x r s))"
| janitor: "server_step G W ord root s (snd (with_trash (purgeExpired now trashRetention ok) s))"

inductive_cases server_stepE: "server_step G W ord root s s'"

lemma leaves_confining: "leaves_stored h \<Longrightarrow> tidy_server G root s \<Longrightarrow> keeps root s (snd (h G x r s))"
proof -
  assume "leaves_stored h" and t: "tidy_server G root s"
  then have "srvFs (snd (h G x r s)) = srvFs s \<and> srvTrash (snd (h G x r s)) = srvTrash s"
    by (simp add: leaves_stored_def stored_state_def)
  then show ?thesis using keeps_refl [OF t] by (simp add: keeps_def)
qed

lemma small_admin_handlers:
  "leaves_stored handleDiskUsage" "leaves_stored handleActivityList" "leaves_stored handleListShares" "leaves_stored handleCreateShare"
  "leaves_stored handleRevokeShare" "leaves_stored handleUsersList" "leaves_stored handleUsersCreate" "leaves_stored handleUsersDelete"
  "leaves_stored handleUsersSetPassword" "leaves_stored handleUsersSetRole"
proof -
  show "leaves_stored handleDiskUsage" "leaves_stored handleActivityList"
    by (auto simp: leaves_stored_def handleDiskUsage_def handleActivityList_def getDiskUsage_def stored_state_def Let_def
        split: sum.splits prod.splits option.splits if_splits)
  show "leaves_stored handleListShares" "leaves_stored handleCreateShare" "leaves_stored handleRevokeShare"
    by (auto simp: leaves_stored_def handleListShares_def handleCreateShare_def handleRevokeShare_def post_json_def requirePOST_def
        decodeJSONBody_def Let_def with_shares_def stored_state_def split: json_body.split sum.split prod.split)
  show "leaves_stored handleUsersList" "leaves_stored handleUsersCreate" "leaves_stored handleUsersDelete"
    "leaves_stored handleUsersSetPassword" "leaves_stored handleUsersSetRole"
    by (auto simp: leaves_stored_def handleUsersList_def handleUsersCreate_def handleUsersDelete_def handleUsersSetPassword_def
        handleUsersSetRole_def account_changed_def post_json_def requirePOST_def decodeJSONBody_def Let_def with_users_def stored_state_def
        split: json_body.split sum.split prod.split)
qed

text \<open>A handler of the admin pages under its pattern.\<close>

lemma admin_route_keeps:
  assumes "(pat, h) \<in> set adminMux" "tidy_server G root s" "fresh_tokens x"
    and "pat = ''/admin/rename'' \<Longrightarrow> not_the_root G root ''oldPath'' (rBody r) (srvFs s)"
    and "pat = ''/admin/duplicate'' \<Longrightarrow> not_the_root G root ''path'' (rBody r) (srvFs s)"
  shows "keeps root s (snd (h G x r s))"
proof -
  have c: "keeps root s (snd (k G x r s))" if "confining G root (\<lambda>_ _. True) k" for k
    using that assms(2,3) by (simp add: confining_def)
  have l: "keeps root s (snd (k G x r s))" if "leaves_stored k" for k
    using leaves_confining [OF that assms(2)] .
  have ren: "pat = ''/admin/rename'' \<Longrightarrow> keeps root s (snd (handleRename G x r s))"
    and dup: "pat = ''/admin/duplicate'' \<Longrightarrow> keeps root s (snd (handleDuplicate G x r s))"
    using assms(2-5) handleRename_confining handleDuplicate_confining by (simp_all add: confining_def)
  note conf = handleUpload_confining handleMkdir_confining handleMove_confining handleCopy_confining
    trash_handlers_confining bulk_handlers_confining upload_handlers_confining
  note cs = conf [THEN c] small_admin_handlers [THEN l] reading_handlers [THEN l]
  from assms(1) have "pat = ''/admin/rename'' \<and> h = handleRename \<or> pat = ''/admin/duplicate'' \<and> h = handleDuplicate \<or>
      h \<in> {handlePageAdmin, handleUpload, handleUploadInit, handleUploadChunk, handleUploadStatus, handleUploadComplete,
        handleUploadAbort, handleMkdir, handleDelete, handleMove, handleCopy, handleBulkDelete, handleBulkMove, handleZip,
        handleCreateShare, handleRevokeShare, handleTree, handleSearch, handleDiskUsage, handleActivityList, handleTrashList,
        handleListShares, handleUsersList, handleUsersCreate, handleUsersDelete, handleUsersSetPassword, handleUsersSetRole,
        handleTrashRestore, handleTrashPurge, handleTrashEmpty}"
    by (auto simp: adminMux_def)
  then show ?thesis using cs ren dup by (elim disjE conjE insertE emptyE) simp_all
qed

lemma mux_keeps:
  assumes "tidy_server G root s"
    and "\<And>pat h. (pat, h) \<in> set pats \<Longrightarrow> pattern_matches pat (escaped_path r) \<Longrightarrow> keeps root s (snd (h G x r s))"
  shows "keeps root s (snd (ServeMux pats G x r s))"
  by (cases rule: ServeMux_cases [of pats G x r s]) (use assms keeps_refl in auto)

lemma request_keeps:
  assumes "tidy_server G root s" "fresh_tokens x" "spares_root G root r s"
  shows "keeps root s (snd (serve W ord G x r s))"
proof -
  obtain r' sm where w: "snd (serve W ord G x r s) = snd (ServeMux (mux G W ord) G x r' (s\<lparr>srvSessions := sm\<rparr>))"
    "r' = r\<lparr>rSession := rSession r', rAuthVia := rAuthVia r'\<rparr>"
    using withSession_runs [of "ServeMux (mux G W ord)" G x r s] unfolding serve_def by auto
  let ?s = "s\<lparr>srvSessions := sm\<rparr>"
  have t: "tidy_server G root ?s" using assms(1) by (simp add: tidy_server_def)
  have sp: "spares_root G root r' ?s" using assms(3) by (subst w(2)) (simp add: spares_root_def escaped_path_def)
  have adm: "keeps root ?s (snd (ServeMux adminMux G x r' ?s))"
    using admin_route_keeps [OF _ t assms(2)] sp by (intro mux_keeps [OF t]) (auto simp: spares_root_def)
  have share: "keeps root ?s (snd (handlePublicShare G x r' ?s))"
    using handlePublicShare_confining t assms(2) by (simp add: confining_def)
  have pub: "keeps root ?s (snd (ServeMux publicMux G x r' ?s))"
    using reading_handlers [THEN leaves_confining, OF t] keeps_refl [OF t]
    by (intro mux_keeps [OF t]) (auto simp: publicMux_def requireCSRF_def)
  have si: "keeps root ?s (snd (h G x r' ?s))" if "(pat, h) \<in> set sign_in_routes" for pat h
    using that sign_in_handlers [THEN leaves_confining, OF t] login_handlers(1,3) [THEN leaves_confining, OF t]
      account_handlers [THEN leaves_confining, OF t] keeps_refl [OF t] share
    by (auto simp: sign_in_routes_def requireCSRF_def)
  have "keeps root ?s (snd (ServeMux (mux G W ord) G x r' ?s))"
  proof (rule mux_keeps [OF t])
    fix pat h
    assume "(pat, h) \<in> set (mux G W ord)"
    then consider "(pat, h) \<in> set sign_in_routes" | "h = requireWebDAVAuth (newWebDAVHandler W ord)"
      | "h = requireViewerOrOpen (ServeMux publicMux)" | "h = requireAdmin (requireCSRF (ServeMux adminMux))"
      by (auto simp: mux_def dav_routes_def split: if_splits)
    then show "keeps root ?s (snd (h G x r' ?s))"
      by cases (use si pub adm keeps_refl [OF t] dav_changes_nothing [of W ord G x r' ?s] in
          \<open>auto simp: requireViewerOrOpen_def requireAdmin_def requireCSRF_def split: option.split\<close>)
  qed
  then show ?thesis unfolding w(1) by (simp add: keeps_def)
qed

lemma janitor_keeps:
  assumes t: "tidy_server G root s"
  shows "keeps root s (snd (with_trash (purgeExpired now old ok) s))"
proof -
  let ?T = "srvTrash s" and ?f = "srvFs s"
  let ?gone = "filter (item_expired now old) (Items ?T)"
  have td: "tidy (gPaths G) root ?T ?f" and g: "\<forall>it\<in>set (Items ?T). validShareToken (tiID it)"
    using t by (auto simp: tidy_server_def good_items_def list_all_iff)
  have c: "confined root ?f (fold (remove_item_files ?T \<circ> tiID) ?gone ?f)"
    using remove_item_confined g by (intro fold_confined [OF _ td]) (auto simp: comp_def)
  then show ?thesis
    by (auto simp: keeps_def with_trash_def purgeExpired_def Let_def good_items_def list_all_iff itemsSave_def)
qed

text \<open>
  C3: Over any run of the server from a tidy start - any requests, authenticated or not, in any order, with any
  faults and clocks, and the trash janitor - nothing changes on the file system except below the storage root at
  places with no hidden part, and in the items of the trash. The exception are requests that name the storage root
  itself to be renamed or duplicated.
\<close>

theorem runs_stay_inside:
  assumes "(server_step G W ord root)\<^sup>*\<^sup>* s s'" "tidy_server G root s" "\<not> inside root q"
  shows "node_at (srvFs s') q = node_at (srvFs s) q \<and> tidy_server G root s'"
  using assms(1)
proof (induction rule: rtranclp_induct)
  case (step s1 s2)
  have "keeps root s1 s2"
    using step.hyps(2) step.IH request_keeps janitor_keeps by (auto elim!: server_stepE)
  then show ?case using step.IH tidy_server_keeps assms(3) by (auto simp: keeps_def confined_def)
qed (use assms(2) in simp)

theorem runs_stay_inside_witness:
  "node_at (srvFs (snd (serve (\<lambda>_. DavRespond http_NotFound) (\<lambda>_ es. es) demo_G demo_x demo_dropping (demo_shared demo_drop))))
     [''s'', ''.dingbap'', ''users.json''] = Some (FFile ''secret'')"
proof -
  let ?s = "demo_shared demo_drop"
  let ?s' = "snd (serve (\<lambda>_. DavRespond http_NotFound) (\<lambda>_ es. es) demo_G demo_x demo_dropping ?s)"
  have "fresh_tokens demo_x" by (simp add: fresh_tokens_def demo_x_def demo_rnd_def)
  moreover have "\<not> pattern_matches ''/admin/rename'' (escaped_path demo_dropping)"
    "\<not> pattern_matches ''/admin/duplicate'' (escaped_path demo_dropping)" by code_simp+
  ultimately have "server_step demo_G (\<lambda>_. DavRespond http_NotFound) (\<lambda>_ es. es) [''s''] ?s ?s'"
    by (intro server_step.request) (simp_all add: spares_root_def)
  moreover have "\<not> inside [''s''] [''s'', ''.dingbap'', ''users.json'']" by code_simp
  moreover have "node_at (srvFs ?s) [''s'', ''.dingbap'', ''users.json''] = Some (FFile ''secret'')" by code_simp
  ultimately show ?thesis using runs_stay_inside [OF r_into_rtranclp demo_tidy] by metis
qed

subsection \<open>The exception is real\<close>

text \<open>
  A rename of the empty path moves the storage root itself to a name beside it, and with it the accounts, the
  links and the trash; a duplicate of the path of a dot copies it there.
\<close>

lemma rename_moves_the_root:
  "let s' = snd (handleRename demo_G demo_x (demo_post [(''oldPath'', []), (''newName'', ''x'')]) (demo_server []))
   in node_at (srvFs s') [''s''] = None \<and> node_at (srvFs s') [''x'', ''.dingbap'', ''users.json''] = Some (FFile ''secret'')"
  by code_simp

lemma duplicate_copies_the_root:
  "let s' = snd (handleDuplicate demo_G demo_x (demo_post [(''path'', ''.'')]) (demo_server []))
   in node_at (srvFs s') [''s copy'', ''docs'', ''a.txt''] = Some (FFile ''hello'')"
  by code_simp

end
