(* ===== verification/Startup.thy ===== *)
theory Startup
  imports Routes
begin

text \<open>
  The start of the program: the part of \<open>main\<close> (\<open>main.go\<close>) before it serves. Configuration, storage
  directory, stores and managers are set up in this order, and the first failure ends the program. Main
  result: a program that comes up has an admin account and a storage whose folders and trash are in order,
  which is what the theorems on running servers start from.
\<close>

subsection \<open>What a start reads\<close>

text \<open>
  The files earlier runs left, and the outside of one start: environment, flags, working directory, packages,
  clock, random bytes and outcomes of the saves of the first accounts, times of change of the upload
  folders, and whether making the folder of the uploads fails.
\<close>

record previous =
  pvUsers :: "user list diskFile"
  pvShares :: "Share list diskFile"
  pvTrash :: "TrashItem list diskFile"
  pvSessions :: "sessionMap option"
  pvUploads :: "(string \<times> sessionDir) list"
  pvLog :: "logLine list option"

record launch =
  lnEnv :: environment
  lnStorage :: string
  lnCert :: string
  lnKey :: string
  lnCwd :: "apath option"
  lnNow :: "nat \<Rightarrow> gotime"
  lnSalt :: "nat \<Rightarrow> string option"
  lnSave :: "nat \<Rightarrow> bool"
  lnMtime :: "string \<Rightarrow> gotime option"
  lnRmFails :: "string \<Rightarrow> bool"
  lnUploadsErr :: "oserr option"

definition metaDirName :: string where "metaDirName = ''.dingbap''"

definition configureActivityLog :: "config \<Rightarrow> logLine list option \<Rightarrow> activityLog" where
  "configureActivityLog cfg ls =
     \<lparr>activityEnabled = cfg_activityEnabled cfg, activityLogIP = cfg_activityLogIP cfg, activityLines = ls\<rparr>"

subsection \<open>The start\<close>

text \<open>
  The package variables once everything is open. The listing cache, the cached disk usage and the pending
  logins begin empty.
\<close>

definition new_server ::
  "launch \<Rightarrow> previous \<Rightarrow> config \<Rightarrow> userStore \<Rightarrow> shareStore \<Rightarrow> trashStore \<Rightarrow> uploadManager \<Rightarrow> fs \<Rightarrow> server"
where
  "new_server L P cfg us sh T um f =
     \<lparr>srvUsers = us, srvSessions = newSessionManager (lnNow L 1) True (pvSessions P) (cfg_secureCookie cfg),
      srvPending = no_pendings, srvShares = sh, srvTrash = T, srvUploads = um,
      srvCache = newListingCache (int dirCacheMaxEntries),
      srvDisk = \<lparr>diskUsageCache = \<lparr>UsedBytes = 0, FreeBytes = 0, TotalBytes = 0\<rparr>, diskUsageAt = 0, diskUsageValid = False\<rparr>,
      srvLog = configureActivityLog cfg (pvLog P), srvFs = f\<rparr>"

text \<open>
  The stores, with the storage directory \<open>dir\<close> known. A failed start gives the error, and in every case
  what it made of the accounts (\<open>None\<close>: not read yet) and of the file system.
\<close>

definition open_stores ::
  "unicode \<Rightarrow> argon2 \<Rightarrow> launch \<Rightarrow> previous \<Rightarrow> config \<Rightarrow> apath \<Rightarrow> fs \<Rightarrow> server result \<times> userStore option \<times> fs"
where
  "open_stores U A L P cfg dir f =
     (case openUserStore (pvUsers P) of
        Inl e \<Rightarrow> (Inl (''Failed to load users: '' @ e), None, f)
      | Inr us0 \<Rightarrow>
     (case bootstrapUsers U A (lnEnv L) (lnSalt L 0) (lnSave L 0) (lnSalt L 1) (lnSave L 1) us0 of
        (Inl e, us) \<Rightarrow> (Inl (''Config error: '' @ e), Some us, f)
      | (Inr _, us) \<Rightarrow>
     (case openShareStore (pvShares P) of
        Inl e \<Rightarrow> (Inl (''Failed to load shares: '' @ e), Some us, f)
      | Inr sh \<Rightarrow>
     (case openTrashStore dir (pvTrash P) f of
        (Inl e, f1) \<Rightarrow> (Inl (''Failed to init trash: '' @ e), Some us, f1)
      | (Inr T, f1) \<Rightarrow>
     (case newUploadManager (lnNow L 0) (lnMtime L) (dir @ [metaDirName]) (pvUploads P) (lnRmFails L) (lnUploadsErr L) of
        Inl e \<Rightarrow> (Inl (''Failed to init upload manager: '' @ e), Some us, f1)
      | Inr um \<Rightarrow> (Inr (new_server L P cfg us sh T um f1), Some us, f1))))))"

definition start_server ::
  "unicode \<Rightarrow> argon2 \<Rightarrow> totp_validate \<Rightarrow> launch \<Rightarrow> previous \<Rightarrow> fs \<Rightarrow> (genv \<times> server) result \<times> userStore option \<times> fs"
where
  "start_server U A V L P f =
     (case load_config U (lnEnv L) (lnCert L) (lnKey L) of
        Inl e \<Rightarrow> (Inl e, None, f)
      | Inr cfg \<Rightarrow>
     (case resolveStorageDir U (lnEnv L) (lnCwd L) (lnStorage L) f of
        (Inl e, f1) \<Rightarrow> (Inl (''Storage: '' @ e), None, f1)
      | (Inr dir, f1) \<Rightarrow>
     (case configureStorageRoot f1 \<lparr>pe_cwd = lnCwd L, rootDir = apath_str dir, pathRoot = None\<rparr> (apath_str dir) of
        Inl e \<Rightarrow> (Inl (''Storage root: '' @ e), None, f1)
      | Inr env \<Rightarrow>
     (case os_MkdirAll f1 (dir @ [metaDirName]) of
        (Some e, f2) \<Rightarrow>
          (Inl (''Failed to create metadata dir: '' @ path_error ''mkdir'' (dir @ [metaDirName]) e), None, f2)
      | (None, f2) \<Rightarrow>
          (case open_stores U A L P cfg dir f2 of
             (Inl e, us, f3) \<Rightarrow> (Inl e, us, f3)
           | (Inr s, us, f3) \<Rightarrow> (Inr (\<lparr>gU = U, gArgon = A, gTotp = V, gPaths = env, gConf = cfg\<rparr>, s), us, f3))))))"

subsection \<open>A way without links\<close>

text \<open>Every part of the path is a folder or not there yet, and readable.\<close>

definition clear_way :: "fs \<Rightarrow> apath \<Rightarrow> bool" where
  "clear_way f p \<longleftrightarrow> ordinary_path p \<and>
     list_all (\<lambda>q. \<not> rfail f q \<and> (node_at f q = None \<or> node_at f q = Some FDir)) (prefixes p)"

lemma clear_way_prefix: "clear_way f (p @ r) \<Longrightarrow> clear_way f p"
  by (auto simp: clear_way_def list_all_iff)

lemma clear_way_snoc:
  "clear_way f (p @ [c]) \<longleftrightarrow> clear_way f p \<and> ordinary c \<and> \<not> rfail f (p @ [c]) \<and>
     (node_at f (p @ [c]) = None \<or> node_at f (p @ [c]) = Some FDir)"
  by (auto simp: clear_way_def list_all_iff)

lemma clear_way_placed: "clear_way f p \<Longrightarrow> placed f p \<and> (node_at f p = Some FDir \<longrightarrow> wf_fs f \<longrightarrow> real_dir f p)"
proof (induction p rule: rev_induct)
  case (snoc c p)
  note c = snoc.prems [unfolded clear_way_snoc]
  have "placed f p" using snoc.IH c by blast
  then show ?case
    unfolding placed_def [of f p]
  proof (elim disjE exE conjE)
    assume "real_entry f p"
    then have "real_dir f p"
      using c snoc.IH by (auto simp: real_entry_def clear_way_snoc lookup_entry_def split: if_splits)
    moreover from this have "real_dir f (p @ [c])" if "node_at f (p @ [c]) = Some FDir"
      using c that by (simp add: real_dir_snoc lookup_entry_def)
    moreover have "lookup_entry f (p @ [c]) = Inl ENOENT" if "node_at f (p @ [c]) = None"
      using c that by (simp add: lookup_entry_def)
    ultimately show ?thesis
      using c unfolding placed_def by (metis append_Cons append_Nil ordinary_path_simps(1,2) real_entry_dirI option.distinct(1))
  next
    fix d c' r
    assume a: "p = d @ c' # r" "real_dir f d" "ordinary_path (c' # r)" "lookup_entry f (d @ [c']) = Inl ENOENT"
    then have "placed f (p @ [c])" using c unfolding placed_def by (intro disjI2 exI [of _ d] exI [of _ c'] exI [of _ "r @ [c]"]) simp
    moreover have "node_at f (p @ [c]) = None" if w: "wf_fs f"
    proof -
      have "node_at f (d @ [c']) = None" using a(4) by (auto simp: lookup_entry_def split: if_splits option.splits)
      then show ?thesis using wf_fs_missing_below [OF w, of "d @ [c']" "r @ [c]"] a(1) by simp
    qed
    ultimately show ?thesis by auto
  qed
qed (simp add: placed_def real_entry_def)

text \<open>Steps that put folders there, or nothing, keep the way clear.\<close>

lemma clear_way_step:
  assumes "clear_way f p" "same_faults f f'"
    and "\<And>q. prefix q p \<Longrightarrow> node_at f' q \<noteq> node_at f q \<Longrightarrow> node_at f' q = Some FDir"
  shows "clear_way f' p"
proof -
  have "rfail f' = rfail f" using assms(2) by (simp add: same_faults_def)
  then show ?thesis using assms(1,3) unfolding clear_way_def list_all_iff Ball_def in_set_prefixes by metis
qed

text \<open>What a start needs of the file system: the ways to its own folders are clear, the probe is no link.\<close>

definition probeName :: string where "probeName = ''.dingbap-write-test''"

definition clean_storage :: "fs \<Rightarrow> apath \<Rightarrow> bool" where
  "clean_storage f dir \<longleftrightarrow>
     clear_way f (dir @ [metaDirName]) \<and> clear_way f (dir @ [trashDirName, trashItemsDir]) \<and>
     \<not> rfail f (dir @ [probeName]) \<and> (case node_at f (dir @ [probeName]) of Some (FLink t) \<Rightarrow> False | _ \<Rightarrow> True)"

lemma ordinary_start_names [simp]: "ordinary metaDirName" "ordinary trashItemsDir" "ordinary probeName" "ordinary trashDirName"
  by (simp_all add: metaDirName_def trashItemsDir_def probeName_def trashDirName_def ordinary_def)

text \<open>A step that adds folders, or changes what lies at or below the probe, and nothing else.\<close>

definition start_step :: "apath \<Rightarrow> fs \<Rightarrow> fs \<Rightarrow> bool" where
  "start_step dir f f' \<longleftrightarrow> same_faults f f' \<and> wf_fs f' \<and>
     (\<forall>q. node_at f' q \<noteq> node_at f q \<longrightarrow> node_at f q = None \<and> node_at f' q = Some FDir \<or> prefix (dir @ [probeName]) q)"

lemma start_step_refl: "wf_fs f \<Longrightarrow> start_step dir f f"
  by (simp add: start_step_def same_faults_def)

lemma start_step_trans: "start_step dir f f1 \<Longrightarrow> start_step dir f1 f2 \<Longrightarrow> start_step dir f f2"
  unfolding start_step_def same_faults_def by metis

lemma start_step_clear:
  assumes "start_step dir f f'" "clear_way f (dir @ r)" "\<not> prefix [probeName] r"
  shows "clear_way f' (dir @ r)"
proof (rule clear_way_step [OF assms(2)])
  show "same_faults f f'" using assms(1) by (simp add: start_step_def)
  fix q
  assume "prefix q (dir @ r)" "node_at f' q \<noteq> node_at f q"
  then have "node_at f' q = Some FDir \<or> prefix (dir @ [probeName]) (dir @ r)"
    using assms(1) prefix_order.trans unfolding start_step_def by blast
  then show "node_at f' q = Some FDir" using assms(3) by simp
qed

lemma mkdir_clear:
  assumes "wf_fs f" "clear_way f t" "os_MkdirAll f t = (None, f')"
  shows "start_step dir f f'" "node_at f' t = Some FDir" "\<And>q. node_at f' q \<noteq> node_at f q \<Longrightarrow> node_at f q = None \<and> node_at f' q = Some FDir"
proof -
  have m: "same_faults f f'" "wf_fs f'" "\<And>q. node_at f' q \<noteq> node_at f q \<Longrightarrow> prefix q t \<and> node_at f q = None" "node_at f' t = Some FDir"
    using mkdir_all_placed [of f "rev t" None f'] clear_way_placed [OF assms(2)] assms(1,3) by (auto simp: os_MkdirAll_def)
  have "node_at f' q = Some FDir" if below: "prefix q t" for q
  proof -
    obtain r where "t = q @ r" using below unfolding prefix_def by blast
    then show ?thesis using m(4) wf_fs_parent [OF m(2), of q r] by (cases "r = []") auto
  qed
  then show "start_step dir f f'" "node_at f' t = Some FDir" "\<And>q. node_at f' q \<noteq> node_at f q \<Longrightarrow> node_at f q = None \<and> node_at f' q = Some FDir" using m(1,2,3) by (auto simp: start_step_def m(4))
qed

lemma place_at_probe:
  assumes "real_dir f dir" "clean_storage f dir"
  shows "place_to_write f kernel_links (dir @ [probeName]) = Inr (dir @ [probeName])"
proof -
  let ?p = "dir @ [probeName]"
  obtain k where k: "kernel_links = Suc k" by (simp add: kernel_links_def)
  have l: "last ?p \<notin> {[], ''.'', ''..''}" by (simp add: probeName_def)
  show ?thesis
  proof (cases "node_at f ?p")
    case None
    then have "walk f kernel_links [] ?p = Inl ENOENT"
      using assms by (simp add: walk_real_dir walk_ordinary lookup_entry_def clean_storage_def)
    then have "place_to_write f (Suc k) ?p = Inr ?p" using l None assms(1) by (simp add: resolve_nofollow_real)
    then show ?thesis by (simp only: k)
  next
    case (Some n)
    then have "walk f kernel_links [] ?p = Inr ?p"
      using assms by (auto simp: walk_real_dir walk_ordinary lookup_entry_def clean_storage_def walk.simps(1) split: fnode.splits)
    then have "place_to_write f (Suc k) ?p = Inr ?p" by simp
    then show ?thesis by (simp only: k)
  qed
qed

lemma wf_fs_replace:
  assumes "wf_fs f" "node_at f p = Some m" "m \<noteq> FDir"
  shows "wf_fs (set_node p n f)"
proof -
  have p: "p \<noteq> []" using assms(2,3) by (auto simp: node_at_def)
  have "butlast q \<noteq> p" if "node_at f q \<noteq> None" "q \<noteq> []" for q
    using assms that unfolding wf_fs_def by (metis option.inject)
  then show ?thesis
    using assms unfolding wf_fs_def node_at_set_node [OF p] by (metis option.distinct(1) p)
qed

lemma write_probe_step:
  assumes "wf_fs f" "real_dir f dir" "clean_storage f dir" "write_probe f (dir @ [probeName]) = (None, f')"
  shows "start_step dir f f'"
proof -
  let ?p = "dir @ [probeName]"
  have p: "node_at f dir = Some FDir" using assms(2) by (rule real_dir_node)
  have r: "resolve_nofollow f1 ?p = Inr ?p \<or> (\<exists>e. resolve_nofollow f1 ?p = Inl e)" if "wf_fs f1" "node_at f1 dir = Some FDir" for f1
    using resolve_in_dir [OF that] .
  obtain f1 where f1: "f1 = set_node ?p (FFile []) f" "node_at f ?p \<noteq> Some FDir" "f' = snd (os_RemoveAll f1 ?p)"
    using assms(4) place_at_probe [OF assms(2,3)] by (auto simp: write_probe_def os_WriteFile_def split: sum.splits if_splits)
  have w: "wf_fs f1" unfolding f1(1)     using assms(1) p f1(2) wf_fs_replace [OF assms(1), of ?p] wf_fs_set_node [OF assms(1), of dir probeName]
    by (cases "node_at f ?p") auto
  have s1: "start_step dir f f1"
    using w unfolding f1(1) by (auto simp: start_step_def same_faults_def node_at_set_node)
  have "node_at f1 dir = Some FDir" unfolding f1(1) using p by (simp add: node_at_set_node)
  then have "f' = f1 \<or> f' = del_tree ?p f1" using r [OF w] unfolding f1(3) by (auto simp: os_RemoveAll_def)
  then have "start_step dir f1 f'"
    using start_step_refl [OF w] wf_fs_del_tree [OF w, of ?p] by (auto simp: start_step_def same_faults_def node_at_del_tree)
  with s1 show ?thesis by (rule start_step_trans)
qed

lemma resolveStorageDir_step:
  assumes "wf_fs f" "resolveStorageDir U env cwd flag f = (Inr dir, f')" "clean_storage f dir"
  shows "start_step dir f f'" "real_dir f' dir"
proof -
  let ?p = "join_abs dir ''.dingbap-write-test''"
  have c: "clear_way f dir" using assms(3) clear_way_prefix unfolding clean_storage_def by blast
  then have o: "ordinary_path dir" by (simp add: clear_way_def)
  have p: "?p = dir @ [probeName]" unfolding probeName_def [symmetric] by (rule join_abs_ordinary_name) simp
  obtain f1 where f1: "os_Stat f dir = Inr FDir \<and> f1 = f \<or> os_MkdirAll f dir = (None, f1)" "write_probe f1 ?p = (None, f')"
    using assms(2) by (auto simp: resolveStorageDir_def Let_def is_dir_def split: option.splits sum.splits prod.splits if_splits)
  have s: "start_step dir f f1" "real_dir f1 dir" "\<And>q. node_at f1 q \<noteq> node_at f q \<Longrightarrow> node_at f1 q = Some FDir"
  proof -
    have "start_step dir f f1 \<and> real_dir f1 dir \<and> (\<forall>q. node_at f1 q \<noteq> node_at f q \<longrightarrow> node_at f1 q = Some FDir)"
      using f1(1)
    proof
      assume "os_Stat f dir = Inr FDir \<and> f1 = f"
      then show ?thesis using placed_dir clear_way_placed [OF c] start_step_refl [OF assms(1)] by blast
    next
      assume m: "os_MkdirAll f dir = (None, f1)"
      note k = mkdir_clear [OF assms(1) c m]
      have "clear_way f1 dir" using start_step_clear [of dir f f1 "[]"] k(1) c by simp
      moreover have "wf_fs f1" using k(1) by (simp add: start_step_def)
      ultimately show ?thesis using k clear_way_placed by blast
    qed
    then show "start_step dir f f1" "real_dir f1 dir" "\<And>q. node_at f1 q \<noteq> node_at f q \<Longrightarrow> node_at f1 q = Some FDir" by blast+
  qed
  have w: "wf_fs f1" "rfail f1 = rfail f" using s(1) by (simp_all add: start_step_def same_faults_def)
  have "clean_storage f1 dir"
    using assms(3) start_step_clear [OF s(1), of "[metaDirName]"] start_step_clear [OF s(1), of "[trashDirName, trashItemsDir]"]
      s(3) [of "dir @ [probeName]"] w(2)
    by (auto simp: clean_storage_def probeName_def metaDirName_def trashDirName_def split: option.splits fnode.splits)
  then have s2: "start_step dir f1 f'" using write_probe_step [OF w(1) s(2)] f1(2) p by simp
  with s(1) show st: "start_step dir f f'" by (rule start_step_trans)
  have "clear_way f' dir" using start_step_clear [of dir f f' "[]"] st c by simp
  moreover have "\<not> prefix (dir @ [probeName]) dir" by (auto simp: prefix_def)
  then have "node_at f' dir = Some FDir" using s2 real_dir_node [OF s(2)] unfolding start_step_def by (metis option.distinct(1))
  ultimately show "real_dir f' dir" using clear_way_placed st by (simp add: start_step_def)
qed

text \<open>The root is remembered as the directory itself.\<close>

lemma configureStorageRoot_real:
  assumes "real_dir f dir" "configureStorageRoot f \<lparr>pe_cwd = cwd, rootDir = apath_str dir, pathRoot = None\<rparr> (apath_str dir) = Inr env"
  shows "cachedRealRoot env (rootDir env) = Some dir"
proof -
  have "path_Abs c (apath_str dir) = Some dir" for c
    using apath_of_str [OF real_dir_ordinary [OF assms(1)]] by (simp add: path_Abs_def apath_str_def)
  then show ?thesis
    using assms by (auto simp: configureStorageRoot_def cachedRealRoot_def EvalSymlinks_def walk_real_dir_id)
qed

text \<open>The stores as they are opened.\<close>

lemma open_stores_ok:
  assumes "open_stores U A L P cfg dir f = (Inr s, us, f')"
  obtains us0 where "openUserStore (pvUsers P) = Inr us0"
    "bootstrapUsers U A (lnEnv L) (lnSalt L 0) (lnSave L 0) (lnSalt L 1) (lnSave L 1) us0 = (Inr (), srvUsers s)"
    "us = Some (srvUsers s)" "openTrashStore dir (pvTrash P) f = (Inr (srvTrash s), f')" "srvFs s = f'"
    "srvSessions s = newSessionManager (lnNow L 1) True (pvSessions P) (cfg_secureCookie cfg)"
  using assms by (auto simp: open_stores_def new_server_def split: sum.splits prod.splits)

lemma openTrashStore_tidy:
  assumes "openTrashStore dir file f = (Inr T, f')" "wf_fs f" "clear_way f (dir @ [trashDirName, trashItemsDir])"
    and "\<And>its. file = Holds its \<Longrightarrow> \<forall>it\<in>set its. validShareToken (tiID it)"
  shows "start_step dir f f'" "trashRoot T = dir @ [trashDirName]" "good_items T" "real_dir f' (dir @ [trashDirName, trashItemsDir])"
proof -
  have m: "os_MkdirAll f (dir @ [trashDirName, trashItemsDir]) = (None, f')" "trashRoot T = dir @ [trashDirName]" "good_items T"
    using assms(1,4) by (auto simp: openTrashStore_def Let_def good_items_def list_all_iff split: diskFile.splits prod.splits option.splits)
  note k = mkdir_clear [OF assms(2,3) m(1)]
  have s: "start_step dir f f'" by (rule k(1))
  have "clear_way f' (dir @ [trashDirName, trashItemsDir])"
    using start_step_clear [OF s assms(3)] by (simp add: probeName_def trashDirName_def)
  then show "start_step dir f f'" "trashRoot T = dir @ [trashDirName]" "good_items T" "real_dir f' (dir @ [trashDirName, trashItemsDir])"
    using k(2) s m clear_way_placed by (auto simp: start_step_def)
qed

lemma newSessionManager_unexpired:
  "(t, ses) \<in> set (smSessions (newSessionManager now pers disk sec)) \<Longrightarrow> \<not> expired now ses"
proof -
  have "(t, ses) \<in> set (fold (\<lambda>e m. aput (fst e) (snd e) m) es m) \<Longrightarrow> (t, ses) \<in> set m \<or> (t, ses) \<in> set es" for es and m :: sessionMap
  proof (induction es arbitrary: m)
    case (Cons e es)
    then show ?case by (cases e) (force simp: aput_def)
  qed simp
  then show "(t, ses) \<in> set (smSessions (newSessionManager now pers disk sec)) \<Longrightarrow> \<not> expired now ses"
    by (fastforce simp: newSessionManager_def sm_load_def loadable_def split: option.splits if_splits)
qed

lemma first_accounts_inv:
  assumes "openUserStore file = Inr us0" "bootstrapUsers U A env r1 ok1 r2 ok2 us0 = (Inr (), us)"
    and "\<And>d. file = Holds d \<Longrightarrow> d = [] \<or> good_users U d"
  shows "users_inv U us" "file = NoFile \<Longrightarrow> env ''ADMIN_USER'' \<noteq> [] \<and> env ''ADMIN_PASS'' \<noteq> []"
proof -
  show "users_inv U us"
  proof (cases "Users us0 = []")
    case True
    then show ?thesis using bootstrapUsers_inv assms(2) by blast
  next
    case False
    then obtain d where "file = Holds d" "us0 = usersFrom (Some d)" "d \<noteq> []"
      using assms(1) by (auto simp: openUserStore_def usersFrom_def split: diskFile.splits)
    then show ?thesis
      using assms(2,3) by (auto simp: bootstrapUsers_def empty_users_def users_inv_def usersFrom_def)
  qed
  show "env ''ADMIN_USER'' \<noteq> [] \<and> env ''ADMIN_PASS'' \<noteq> []" if "file = NoFile"
    using that assms(1,2) by (auto simp: openUserStore_def bootstrapUsers_def empty_users_def usersFrom_def Let_def split: if_splits)
qed

text \<open>
  C39: A program that comes up is in order. When the ways to its own folders hold no links and the account and
  trash files are ones the program wrote: the storage is tidy (its root is cached, the trash is a real folder in
  it, every record in it has a proper token), the accounts are well formed and hold an admin, also in the file,
  every session taken over has not expired, and nothing stored was changed: the start adds folders and touches
  its probe, no more. With no account file it comes up only if the environment names a first admin.
\<close>

theorem server_starts_tidy:
  assumes "start_server U A V L P f = (Inr (G, s), us, f')" "wf_fs f"
    and "resolveStorageDir U (lnEnv L) (lnCwd L) (lnStorage L) f = (Inr dir, f1)" "clean_storage f dir"
    and "\<And>d. pvUsers P = Holds d \<Longrightarrow> d = [] \<or> good_users U d"
    and "\<And>its. pvTrash P = Holds its \<Longrightarrow> \<forall>it\<in>set its. validShareToken (tiID it)"
  shows "tidy_server G dir s \<and> users_inv U (srvUsers s) \<and> srvFs s = f' \<and> start_step dir f f' \<and>
    (\<forall>(t, ses)\<in>set (smSessions (srvSessions s)). \<not> expired (lnNow L 1) ses) \<and>
    (pvUsers P = NoFile \<longrightarrow> lnEnv L ''ADMIN_USER'' \<noteq> [] \<and> lnEnv L ''ADMIN_PASS'' \<noteq> [])"
proof -
  note r = resolveStorageDir_step [OF assms(2-4)]
  obtain cfg env f2 where st: "configureStorageRoot f1 \<lparr>pe_cwd = lnCwd L, rootDir = apath_str dir, pathRoot = None\<rparr> (apath_str dir) = Inr env"
    "os_MkdirAll f1 (dir @ [metaDirName]) = (None, f2)" "open_stores U A L P cfg dir f2 = (Inr s, us, f')"
    "gPaths G = env"
    using assms(1,3) by (auto simp: start_server_def split: sum.splits prod.splits option.splits)
  obtain us0 where op: "openUserStore (pvUsers P) = Inr us0"
    "bootstrapUsers U A (lnEnv L) (lnSalt L 0) (lnSave L 0) (lnSalt L 1) (lnSave L 1) us0 = (Inr (), srvUsers s)"
    "openTrashStore dir (pvTrash P) f2 = (Inr (srvTrash s), f')" "srvFs s = f'"
    "srvSessions s = newSessionManager (lnNow L 1) True (pvSessions P) (cfg_secureCookie cfg)"
    using open_stores_ok [OF st(3)] by metis
  have "clear_way f1 (dir @ [metaDirName])"
    using start_step_clear [OF r(1), of "[metaDirName]"] assms(4) by (simp add: clean_storage_def metaDirName_def probeName_def)
  then have s12: "start_step dir f1 f2" using mkdir_clear(1) st(2) r(1) unfolding start_step_def by blast
  have s2: "start_step dir f f2" by (rule start_step_trans [OF r(1) s12])
  then have "clear_way f2 (dir @ [trashDirName, trashItemsDir])"
    using start_step_clear [OF s2, of "[trashDirName, trashItemsDir]"] assms(4) by (simp add: clean_storage_def trashDirName_def probeName_def)
  moreover have "wf_fs f2" using s2 by (simp add: start_step_def)
  ultimately have t: "start_step dir f2 f'" "trashRoot (srvTrash s) = dir @ [trashDirName]" "good_items (srvTrash s)"
    "real_dir f' (dir @ [trashDirName, trashItemsDir])"
    using openTrashStore_tidy [OF op(3)] assms(6) by auto
  have "tidy_server G dir s"
    using configureStorageRoot_real [OF r(2) st(1)] t op(4) st(4) by (simp add: tidy_server_def tidy_def start_step_def)
  moreover have "\<forall>(t, ses)\<in>set (smSessions (srvSessions s)). \<not> expired (lnNow L 1) ses"
    using newSessionManager_unexpired unfolding op(5) by blast
  ultimately show ?thesis
    using first_accounts_inv [OF op(1,2)] assms(5) start_step_trans [OF s2 t(1)] op(4) by blast
qed

definition demo_launch :: launch where
  "demo_launch = \<lparr>lnEnv = demo_getenv, lnStorage = ''/s'', lnCert = [], lnKey = [], lnCwd = Some [], lnNow = (\<lambda>_. 5),
     lnSalt = (\<lambda>k. if k = 0 then Some ''salt'' else None), lnSave = (\<lambda>_. True), lnMtime = (\<lambda>_. None), lnRmFails = (\<lambda>_. False), lnUploadsErr = None\<rparr>"

definition nothing_yet :: previous where
  "nothing_yet = \<lparr>pvUsers = NoFile, pvShares = NoFile, pvTrash = NoFile, pvSessions = None, pvUploads = [], pvLog = None\<rparr>"

definition probed_fs :: fs where
  "probed_fs = snd (write_probe demo_fs [''s'', ''.dingbap-write-test''])"

lemma demo_launch_dir: "resolveStorageDir basic_unicode demo_getenv (Some []) ''/s'' demo_fs = (Inr [''s''], probed_fs)"
proof -
  have "TrimSpace ''/s'' = ''/s''" by (rule TrimSpace_id) (simp_all add: graphic_def)
  moreover have "path_Abs (Some []) ''/s'' = Some [''s'']" "os_Stat demo_fs [''s''] = Inr FDir"
    "join_abs [''s''] ''.dingbap-write-test'' = [''s'', ''.dingbap-write-test'']"
    "fst (write_probe demo_fs [''s'', ''.dingbap-write-test'']) = None" by code_simp+
  moreover from this have "write_probe demo_fs [''s'', ''.dingbap-write-test''] = (None, probed_fs)"
    by (simp add: probed_fs_def prod_eq_iff)
  ultimately show ?thesis by (simp add: resolveStorageDir_def Let_def is_dir_def)
qed

lemma demo_launch_config: "\<exists>cfg. load_config basic_unicode demo_getenv [] [] = Inr cfg"
  by (simp add: load_config_def Let_def demo_getenv_def)

lemma demo_launch_starts:
  "\<exists>r f'. start_server basic_unicode toy_argon (\<lambda>_ _ _. False) demo_launch nothing_yet demo_fs = (Inr r, Some demo_users, f')"
proof -
  obtain cfg where c: "load_config basic_unicode demo_getenv [] [] = Inr cfg" using demo_launch_config by blast
  let ?env0 = "\<lparr>pe_cwd = Some [], rootDir = ''/s'', pathRoot = None\<rparr>"
  let ?f2 = "snd (os_MkdirAll probed_fs [''s'', metaDirName])"
  have s: "apath_str [''s''] = ''/s''" "configureStorageRoot probed_fs ?env0 ''/s'' = Inr (?env0\<lparr>pathRoot := Some ([''s''], [''s''])\<rparr>)"
    "fst (os_MkdirAll probed_fs [''s'', metaDirName]) = None"
    "fst (os_MkdirAll ?f2 [''s'', trashDirName, trashItemsDir]) = None"
    by code_simp+
  then obtain f2 f3 where m: "os_MkdirAll probed_fs [''s'', metaDirName] = (None, f2)"
    "os_MkdirAll f2 [''s'', trashDirName, trashItemsDir] = (None, f3)"
    by (metis prod.collapse)
  show ?thesis
    using c s(1,2) m demo_launch_dir demo_bootstrap
    by (simp add: start_server_def open_stores_def demo_launch_def nothing_yet_def openUserStore_def openShareStore_def
        openTrashStore_def newUploadManager_def)
qed

theorem server_starts_tidy_witness:
  "\<exists>G s us f'. start_server basic_unicode toy_argon (\<lambda>_ _ _. False) demo_launch nothing_yet demo_fs = (Inr (G, s), us, f') \<and>
     tidy_server G [''s''] s \<and> users_inv basic_unicode (srvUsers s)"
proof -
  obtain G s f' where st: "start_server basic_unicode toy_argon (\<lambda>_ _ _. False) demo_launch nothing_yet demo_fs = (Inr (G, s), Some demo_users, f')"
    using demo_launch_starts by (metis surj_pair)
  have d: "resolveStorageDir basic_unicode (lnEnv demo_launch) (lnCwd demo_launch) (lnStorage demo_launch) demo_fs = (Inr [''s''], probed_fs)"
    using demo_launch_dir by (simp add: demo_launch_def)
  have w: "wf_fs demo_fs" by (rule wf_fs_list) code_simp
  have "clean_storage demo_fs [''s'']" by code_simp
  from server_starts_tidy [OF st w d this] st show ?thesis by (auto simp: nothing_yet_def)
qed

end
