(* ===== verification/Lifetime.thy ===== *)
theory Lifetime
  imports Startup
begin

text \<open>
  The accounts over the whole life of an installation: starts that succeed or fail (\<open>main\<close>, \<open>bootstrapUsers\<close> in
  \<open>main.go\<close>), requests to any route, and stops at any moment. Main results: whatever a request does to the
  accounts, it does by operations of the account store; and from the first start on there is always an admin.
\<close>

subsection \<open>Handlers that leave the accounts alone\<close>

definition leaves_users :: "shandler \<Rightarrow> bool" where
  "leaves_users h \<longleftrightarrow> (\<forall>G x r s. srvUsers (snd (h G x r s)) = srvUsers s)"

lemma users_simps [simp]:
  "srvUsers (snd (with_shares op s)) = srvUsers s" "srvUsers (snd (with_trash op' s)) = srvUsers s"
  "srvUsers (snd (with_uploads op'' s)) = srvUsers s" "srvUsers (on_fs f s) = srvUsers s"
  "srvUsers (on_shares g s) = srvUsers s" "srvUsers (changed G x a p r s) = srvUsers s"
  by (simp_all add: with_shares_def with_trash_def with_uploads_def on_fs_def on_shares_def changed_def case_prod_beta)

lemma users_frame:
  "with_shares op s = (a, s') \<Longrightarrow> srvUsers s' = srvUsers s" "with_trash op' s = (b, s') \<Longrightarrow> srvUsers s' = srvUsers s"
  "with_uploads op'' s = (c, s') \<Longrightarrow> srvUsers s' = srvUsers s" "with_up op3 s = (d, s') \<Longrightarrow> srvUsers s' = srvUsers s"
  by (auto simp: with_shares_def with_trash_def with_uploads_def with_up_def case_prod_beta)

lemma post_users: "(\<And>b. srvUsers (snd (k b)) = srvUsers s) \<Longrightarrow> srvUsers (snd (post_json r k s)) = srvUsers s"
  by (cases rule: post_json_cases [of r k s]) auto

lemma reading_users:
  "leaves_users handlePagePublic" "leaves_users handleDownload" "leaves_users handlePreview" "leaves_users handleTree"
  "leaves_users handleSearch" "leaves_users handleZip" "leaves_users handlePageAdmin"
  by (auto simp: leaves_users_def handlePagePublic_def handleDownload_def handlePreview_def handleTree_def handleSearch_def
      handleZip_def handlePageAdmin_def Let_def intro!: post_users split: sum.split prod.split)

lemma upload_users: "leaves_users handleUpload"
  by (auto simp: leaves_users_def handleUpload_def Let_def split: form_body.split sum.split option.split prod.split stored.split)

lemma file_users:
  "leaves_users handleMkdir" "leaves_users handleRename" "leaves_users handleDelete" "leaves_users handleMove"
  "leaves_users handleCopy" "leaves_users handleDuplicate"
  unfolding leaves_users_def handleMkdir_def handleRename_def handleDelete_def handleMove_def handleCopy_def handleDuplicate_def
  by (intro allI post_users; auto simp: Let_def dest: users_frame split: sum.split option.split prod.split)+

lemma bulk_users:
  assumes "\<And>i rel s. srvUsers (snd (one i rel s)) = srvUsers s"
  shows "srvUsers (snd (bulk_loop one i rels s)) = srvUsers s"
proof (induction rels arbitrary: i s)
  case (Cons rel rels)
  then show ?case using assms by (simp add: Let_def case_prod_beta)
qed simp

lemma bulk_one_users:
  "srvUsers (snd (bulk_delete_one G x who i rel s)) = srvUsers s" "srvUsers (snd (bulk_move_one G x d dd i rel s)) = srvUsers s"
  by (auto simp: bulk_delete_one_def bulk_move_one_def Let_def dest: users_frame split: sum.split option.split prod.split)

lemma bulk_handlers_users: "leaves_users handleBulkDelete" "leaves_users handleBulkMove"
  unfolding leaves_users_def handleBulkDelete_def handleBulkMove_def
  by (intro allI post_users; auto simp: Let_def case_prod_beta bulk_users bulk_one_users split: sum.split option.split)+

lemma trash_users:
  "leaves_users handleTrashList" "leaves_users handleTrashRestore" "leaves_users handleTrashPurge" "leaves_users handleTrashEmpty"
  by (auto simp: leaves_users_def handleTrashList_def handleTrashRestore_def handleTrashPurge_def handleTrashEmpty_def Let_def
      intro!: post_users dest: users_frame split: sum.split option.split prod.split)

lemma upload_handlers_users:
  "leaves_users handleUploadInit" "leaves_users handleUploadChunk" "leaves_users handleUploadStatus" "leaves_users handleUploadComplete"
  "leaves_users handleUploadAbort"
  by (auto simp: leaves_users_def handleUploadInit_def handleUploadChunk_def handleUploadStatus_def handleUploadComplete_def
      handleUploadAbort_def Let_def intro!: post_users dest!: users_frame
      split: sum.split option.split prod.split form_body.split)

lemma page_users:
  "leaves_users handleDiskUsage" "leaves_users handleActivityList" "leaves_users handleListShares" "leaves_users handleCreateShare"
  "leaves_users handleRevokeShare" "leaves_users handleUsersList"
  by (auto simp: leaves_users_def handleDiskUsage_def handleActivityList_def getDiskUsage_def handleListShares_def handleCreateShare_def
      handleRevokeShare_def handleUsersList_def Let_def intro!: post_users dest: users_frame
      split: sum.splits prod.splits option.splits if_splits)

lemma share_page_users: "leaves_users handlePublicShare"
proof -
  have drop: "srvUsers (snd (handleDropUpload G x r sh s)) = srvUsers s" for G x r sh s
    unfolding handleDropUpload_def Let_def
    by (auto simp: undo_drop_def dest: users_frame split: form_body.split option.split sum.split stored.split prod.split)
  have ws: "srvUsers (snd (reserveAndServeShareFile G x r sh t s)) = srvUsers s"
    "srvUsers (snd (serveShareZip G x r sh s)) = srvUsers s" for G x r sh t s
    by (simp_all add: reserveAndServeShareFile_def serveShareZip_def case_prod_beta split: sum.split)
  have pages: "srvUsers (snd (serveShareDownload G x r sh s)) = srvUsers s"
    "srvUsers (snd (serveShareFile G x r sh rel s)) = srvUsers s"
    "srvUsers (snd (serveShareContent G x r sh rel s)) = srvUsers s" for G x r sh rel s
    by (simp_all add: serveShareDownload_def serveShareFile_def serveShareContent_def Let_def ws split: sum.split)
  show ?thesis
    by (simp add: leaves_users_def handlePublicShare_def case_prod_beta Let_def pages ws drop split: sum.split)
qed

lemma sign_in_users:
  "leaves_users handleLoginPage" "leaves_users handleLogoutAPI" "leaves_users handleMeAPI" "leaves_users handleTOTPStatus"
  "leaves_users handleTOTPBegin"
  by (auto simp: leaves_users_def handleLoginPage_def handleLogoutAPI_def handleMeAPI_def handleTOTPStatus_def handleTOTPBegin_def
      Let_def split: option.split prod.split)

subsection \<open>Handlers that change accounts\<close>

text \<open>They do it by operations of the account store, one after the other.\<close>

definition account_steps :: "genv \<Rightarrow> userStore \<Rightarrow> userStore \<Rightarrow> bool" where
  "account_steps G = (\<lambda>u v. \<exists>a. user_step (gU G) (gArgon G) u a v)\<^sup>*\<^sup>*"

definition accounts_by_steps :: "shandler \<Rightarrow> bool" where
  "accounts_by_steps h \<longleftrightarrow> (\<forall>G x r s. account_steps G (srvUsers s) (srvUsers (snd (h G x r s))))"

lemma account_steps_refl [simp]: "account_steps G u u"
  by (simp add: account_steps_def)

lemma account_steps_trans: "account_steps G u v \<Longrightarrow> account_steps G v w \<Longrightarrow> account_steps G u w"
  unfolding account_steps_def by (rule rtranclp_trans)

lemma leaves_users_steps: "leaves_users h \<Longrightarrow> accounts_by_steps h"
  by (simp add: leaves_users_def accounts_by_steps_def)

lemma account_op: "run_user_op (gU G) (gArgon G) a u = v \<Longrightarrow> account_steps G u v"
  unfolding account_steps_def user_step_def by blast

lemma store_ops:
  "addUser (gU G) (gArgon G) rnd ok n p ro u = (e, v) \<Longrightarrow> account_steps G u v"
  "setPassword (gU G) (gArgon G) rnd ok n p u = (e, v) \<Longrightarrow> account_steps G u v"
  "setRole (gU G) ok n ro u = (e, v) \<Longrightarrow> account_steps G u v"
  "deleteUser (gU G) ok n u = (e, v) \<Longrightarrow> account_steps G u v"
  "enableTOTP (gU G) ok n sec hs u = (e, v) \<Longrightarrow> account_steps G u v"
  "disableTOTP (gU G) ok n u = (e, v) \<Longrightarrow> account_steps G u v"
  "consumeRecoveryCode (gU G) ok n p u = (b, v) \<Longrightarrow> account_steps G u v"
  using account_op [of G "OpAdd rnd ok n p ro" u] account_op [of G "OpSetPassword rnd ok n p" u] account_op [of G "OpSetRole ok n ro" u]
    account_op [of G "OpDelete ok n" u] account_op [of G "OpEnableTOTP ok n sec hs" u] account_op [of G "OpDisableTOTP ok n" u]
    account_op [of G "OpConsume ok n p" u]
  by simp_all

lemma verify_steps: "verifyTOTPOrRecovery (gU G) V now ok name code u = (good, v) \<Longrightarrow> account_steps G u v"
  by (auto simp: verifyTOTPOrRecovery_def Let_def split: if_splits option.splits dest: store_ops(7))

lemma with_users_steps: "with_users op s = (a, s') \<Longrightarrow> op (srvUsers s) = (a, srvUsers s')"
  by (auto simp: with_users_def split: prod.splits)

lemma post_steps:
  "(\<And>b. account_steps G u (srvUsers (snd (k b)))) \<Longrightarrow> account_steps G u (srvUsers s) \<Longrightarrow> account_steps G u (srvUsers (snd (post_json r k s)))"
  by (cases rule: post_json_cases [of r k s]) auto

lemma decode_steps:
  "(\<And>b. account_steps G u (srvUsers (snd (k b)))) \<Longrightarrow> account_steps G u (srvUsers s) \<Longrightarrow> account_steps G u (srvUsers (snd (decodeJSONBody r k s)))"
  by (auto simp: decodeJSONBody_def split: json_body.split)

lemma account_handlers_steps:
  "accounts_by_steps handleUsersCreate" "accounts_by_steps handleUsersDelete" "accounts_by_steps handleUsersSetPassword"
  "accounts_by_steps handleUsersSetRole" "accounts_by_steps handleChangeOwnPassword" "accounts_by_steps handleTOTPConfirm"
proof -
  have c: "account_steps G u (srvUsers (snd (account_changed G x r n m a res)))" if "account_steps G u (srvUsers (snd res))" for G x r n m a res u
    using that by (auto simp: account_changed_def split: sum.split prod.split)
  have w: "account_steps G (srvUsers s) (srvUsers (snd (with_users op s)))" if "\<And>e v. op (srvUsers s) = (e, v) \<Longrightarrow> account_steps G (srvUsers s) v" for G s and op :: "userStore \<Rightarrow> 'b \<times> userStore"
    using that [OF prod.collapse [symmetric]] by (simp add: with_users_def case_prod_beta)
  show "accounts_by_steps handleUsersDelete" "accounts_by_steps handleUsersSetPassword" "accounts_by_steps handleUsersSetRole"
    unfolding accounts_by_steps_def handleUsersDelete_def handleUsersSetPassword_def handleUsersSetRole_def
    by (intro allI post_steps; auto intro!: c w dest: store_ops)+
  show "accounts_by_steps handleUsersCreate"
    unfolding accounts_by_steps_def handleUsersCreate_def Let_def
    by (intro allI post_steps) (auto dest!: with_users_steps dest: store_ops split: sum.split prod.split)
  show "accounts_by_steps handleChangeOwnPassword"
    unfolding accounts_by_steps_def handleChangeOwnPassword_def Let_def
    by (auto intro!: decode_steps dest!: with_users_steps dest: store_ops split: sum.split prod.split option.split)
  show "accounts_by_steps handleTOTPConfirm"
    unfolding accounts_by_steps_def handleTOTPConfirm_def
    by (auto intro!: decode_steps dest: store_ops split: sum.split prod.split option.split)
qed

lemma totp_disable_steps: "accounts_by_steps handleTOTPDisable"
  unfolding accounts_by_steps_def handleTOTPDisable_def Let_def
  by (auto intro!: decode_steps dest!: with_users_steps verify_steps store_ops(6) split: sum.split prod.split option.split)
    (metis account_steps_trans)+

lemma login_steps: "accounts_by_steps handleLoginAPI" "accounts_by_steps handleLoginTOTP"
proof -
  have o: "srvUsers (snd (open_session G x r ip u role s)) = srvUsers s" for G x r ip u role s
    by (simp add: open_session_def Let_def split: sum.split prod.split)
  have f: "srvUsers (snd (finishLoginAfterPassword G x r ip u s)) = srvUsers s" for G x r ip u s
    by (simp add: finishLoginAfterPassword_def o split: sum.split prod.split)
  have t: "account_steps G (srvUsers s) (srvUsers (snd (totp_answer G x r ip b l s)))" for G x r ip b l s
    by (auto simp: totp_answer_def Let_def o dest: verify_steps split: prod.split sum.split)
  have l: "account_steps G (srvUsers s) (srvUsers (snd (login_entry G x r k s)))"
    if "\<And>ip b s. account_steps G (srvUsers s) (srvUsers (snd (k ip b s)))" for G x r k s
  proof -
    have "account_steps G (srvUsers s) (srvUsers (snd (k ip b (s\<lparr>srvSessions := sm\<rparr>))))" for ip b sm
      using that [of "s\<lparr>srvSessions := sm\<rparr>"] by simp
    then show ?thesis by (auto simp: login_entry_def Let_def intro!: decode_steps split: prod.split bool.split)
  qed
  show "accounts_by_steps handleLoginAPI"
    unfolding accounts_by_steps_def handleLoginAPI_def by (intro allI l) (simp add: f split: sum.split)
  show "accounts_by_steps handleLoginTOTP"
    unfolding accounts_by_steps_def handleLoginTOTP_def
  proof (intro allI l)
    fix G x r s and ip :: string and b
    have "account_steps G (srvUsers s) (srvUsers (snd (totp_answer G x r ip b l (s\<lparr>srvPending := p\<rparr>))))" for l p
      using t [of G "s\<lparr>srvPending := p\<rparr>"] by simp
    then show "account_steps G (srvUsers s) (srvUsers (snd (case takePendingLogin (x_now x 6) (fStr b ''pending_token'') (srvPending s) of
          (None, p) \<Rightarrow>
            (jsonErr 401 (''2FA session expired '' @ emdash @ '' sign in again''),
             on_sessions (recordFailure (x_now x 4) (x_now x 5) ip) (s\<lparr>srvPending := p\<rparr>))
        | (Some l, p) \<Rightarrow> totp_answer G x r ip b l (s\<lparr>srvPending := p\<rparr>))))"
      by (auto split: prod.split option.split)
  qed
qed

lemma mux_steps:
  assumes "\<And>pat h. (pat, h) \<in> set pats \<Longrightarrow> accounts_by_steps h"
  shows "accounts_by_steps (ServeMux pats)"
  unfolding accounts_by_steps_def
proof (intro allI)
  fix G x r s
  show "account_steps G (srvUsers s) (srvUsers (snd (ServeMux pats G x r s)))"
    by (cases rule: ServeMux_cases [of pats G x r s]) (use assms in \<open>auto simp: accounts_by_steps_def\<close>)
qed

lemma guards_steps:
  assumes "accounts_by_steps h"
  shows "accounts_by_steps (requireCSRF h)" "accounts_by_steps (requireAdmin h)" "accounts_by_steps (requireViewerOrOpen h)"
  using assms by (auto simp: accounts_by_steps_def requireCSRF_def requireAdmin_def requireViewerOrOpen_def split: option.split)

lemmas users_left_alone = reading_users upload_users file_users bulk_handlers_users trash_users upload_handlers_users page_users
  share_page_users sign_in_users

lemma routes_steps:
  "\<forall>(pat, h)\<in>set adminMux. accounts_by_steps h" "\<forall>(pat, h)\<in>set publicMux. accounts_by_steps h"
  "\<forall>(pat, h)\<in>set sign_in_routes. accounts_by_steps h"
  by (simp_all add: adminMux_def publicMux_def sign_in_routes_def users_left_alone [THEN leaves_users_steps] account_handlers_steps
      totp_disable_steps login_steps guards_steps)

lemma dav_steps: "accounts_by_steps (requireWebDAVAuth (newWebDAVHandler W ord))"
  by (simp add: accounts_by_steps_def dav_changes_nothing)

lemma server_mux_steps: "accounts_by_steps (ServeMux (mux G W ord))"
proof (rule mux_steps)
  fix pat h
  assume "(pat, h) \<in> set (mux G W ord)"
  then consider "(pat, h) \<in> set sign_in_routes" | "h = requireWebDAVAuth (newWebDAVHandler W ord)"
    | "h = requireViewerOrOpen (ServeMux publicMux)" | "h = requireAdmin (requireCSRF (ServeMux adminMux))"
    by (auto simp: mux_def dav_routes_def split: if_splits)
  then show "accounts_by_steps h"
    using routes_steps dav_steps by cases (auto intro!: guards_steps mux_steps)
qed

lemma serve_account_steps: "account_steps G (srvUsers s) (srvUsers (snd (serve W ord G x r s)))"
proof -
  obtain r' sm where "snd (serve W ord G x r s) = snd (ServeMux (mux G W ord) G x r' (s\<lparr>srvSessions := sm\<rparr>))"
    using withSession_runs [of "ServeMux (mux G W ord)" G x r s] unfolding serve_def by auto
  then show ?thesis using server_mux_steps [of G W ord] unfolding accounts_by_steps_def by (metis server.select_convs(1) server.surjective server.update_convs(2))
qed

subsection \<open>The accounts for life\<close>

lemma account_steps_inv: "account_steps G u v \<Longrightarrow> users_inv (gU G) u \<Longrightarrow> users_inv (gU G) v"
  unfolding account_steps_def by (induction rule: rtranclp_induct) (auto simp: user_step_def run_user_op_inv)

lemma users_inv_admin: "users_inv U u \<Longrightarrow> usersDisk u \<noteq> None \<and> good_users U (Users u) \<and> 1 \<le> adminCount u"
  by (auto simp: users_inv_def good_users_def adminCount_def split: option.splits)

text \<open>
  The life of an installation: what \<open>users.json\<close> holds, and the program when it runs. A start finds the file as it
  is or fails to read it, everything else at hand, the other files and the storage, is arbitrary; a failed start may still have written
  the first account. The program may be stopped at any time, by a signal, a crash or a loss of power
  (\<open>writeFileAtomic\<close> keeps the file whole).
\<close>

inductive lifetime ::
  "unicode \<Rightarrow> argon2 \<Rightarrow> totp_validate \<Rightarrow> (request \<Rightarrow> dav_prog) \<Rightarrow> dirOrder \<Rightarrow> user list option \<Rightarrow> (genv \<times> server) option \<Rightarrow> bool"
  for U A V W ord where
  installed: "lifetime U A V W ord None None"
| start: "lifetime U A V W ord d None \<Longrightarrow>
    pvUsers P = (case d of None \<Rightarrow> NoFile | Some us \<Rightarrow> Holds us) \<or> (\<exists>e. pvUsers P = ReadFails e) \<Longrightarrow>
    start_server U A V L P f = (res, us, f') \<Longrightarrow>
    lifetime U A V W ord (case us of None \<Rightarrow> d | Some u \<Rightarrow> usersDisk u) (case res of Inl _ \<Rightarrow> None | Inr run \<Rightarrow> Some run)"
| request: "lifetime U A V W ord d (Some (G, s)) \<Longrightarrow> s' = snd (serve W ord G x r s) \<Longrightarrow>
    lifetime U A V W ord (usersDisk (srvUsers s')) (Some (G, s'))"
| stop: "lifetime U A V W ord d (Some run) \<Longrightarrow> lifetime U A V W ord d None"

inductive_cases lifetimeE: "lifetime U A V W ord d run"

lemma bootstrap_disk:
  assumes "bootstrapUsers U A env r1 ok1 r2 ok2 us0 = (res, us)" "us0 = usersFrom d" "\<And>ds. d = Some ds \<Longrightarrow> good_users U ds"
  shows "usersDisk us = None \<and> d = None \<or> (\<exists>ds. usersDisk us = Some ds \<and> good_users U ds)"
proof (cases d)
  case (Some ds)
  then have "Users us0 \<noteq> []" using assms(2,3) by (auto simp: usersFrom_def good_users_def admins_def)
  then have "us = us0" using assms(1) by (simp add: bootstrapUsers_def empty_users_def)
  then show ?thesis using Some assms(2,3) by (simp add: usersFrom_def)
next
  case None
  then have e: "empty_users us0" "Users us0 = []" "usersDisk us0 = None" using assms(2) by (simp_all add: empty_users_def usersFrom_def)
  obtain q s1 where first: "addUser U A r1 ok1 (env ''ADMIN_USER'') (env ''ADMIN_PASS'') roleAdmin us0 = (q, s1)" by (meson surj_pair)
  have failed: "usersDisk s1 = None" if "q = Inl m" for m
    using first e that by (auto simp: addUser_def save_def Let_def split: if_splits sum.splits)
  have ok: "users_inv U s1" if "q = Inr ()" using addUser_first_inv first e(2) that by blast
  have inv: "users_inv U v \<Longrightarrow> \<exists>ds. usersDisk v = Some ds \<and> good_users U ds" for v
    by (auto simp: users_inv_def split: option.splits)
  have "us = us0 \<or> us = s1 \<or> (q = Inr () \<and> (\<exists>n p. us = snd (addUser U A r2 ok2 n p roleViewer s1)))"
    using assms(1) first e(1) by (auto simp: bootstrapUsers_def Let_def split: if_splits sum.splits prod.splits) (metis snd_conv)+
  then show ?thesis using failed ok inv addUser_inv e(3) None by (cases q) auto
qed

lemma open_stores_accounts:
  assumes "open_stores U A L P cfg dir f = (res, us, f')"
  shows "(us = None \<and> (\<exists>e. res = Inl e)) \<or> (\<exists>us0 q u. openUserStore (pvUsers P) = Inr us0 \<and>
    bootstrapUsers U A (lnEnv L) (lnSalt L 0) (lnSave L 0) (lnSalt L 1) (lnSave L 1) us0 = (q, u) \<and> us = Some u \<and>
    (\<forall>s. res = Inr s \<longrightarrow> q = Inr () \<and> srvUsers s = u))"
  using assms by (auto simp: open_stores_def new_server_def split: sum.splits prod.splits)

lemma start_accounts:
  assumes "start_server U A V L P f = (res, us, f')"
  shows "(us = None \<and> (\<exists>e. res = Inl e)) \<or> (\<exists>us0 q u. openUserStore (pvUsers P) = Inr us0 \<and>
    bootstrapUsers U A (lnEnv L) (lnSalt L 0) (lnSave L 0) (lnSalt L 1) (lnSave L 1) us0 = (q, u) \<and> us = Some u \<and>
    (\<forall>G s. res = Inr (G, s) \<longrightarrow> q = Inr () \<and> gU G = U \<and> srvUsers s = u))"
proof -
  have "(us = None \<and> (\<exists>e. res = Inl e)) \<or> (\<exists>cfg dir f2 res1. open_stores U A L P cfg dir f2 = (res1, us, f') \<and>
      (\<forall>G s. res = Inr (G, s) \<longrightarrow> res1 = Inr s \<and> gU G = U))"
  proof (cases "load_config U (lnEnv L) (lnCert L) (lnKey L)")
    case (Inr cfg)
    obtain rd f1 where rd: "resolveStorageDir U (lnEnv L) (lnCwd L) (lnStorage L) f = (rd, f1)" by (meson surj_pair)
    show ?thesis
    proof (cases rd)
      case (Inr dir)
      obtain oe f2 where m: "os_MkdirAll f1 (dir @ [metaDirName]) = (oe, f2)" by (meson surj_pair)
      obtain res1 us1 f3 where o: "open_stores U A L P cfg dir f2 = (res1, us1, f3)" by (rule prod_cases3)
      show ?thesis
        using assms \<open>load_config U (lnEnv L) (lnCert L) (lnKey L) = Inr cfg\<close> rd Inr m o
        by (cases "configureStorageRoot f1 \<lparr>pe_cwd = lnCwd L, rootDir = apath_str dir, pathRoot = None\<rparr> (apath_str dir)"; cases oe; cases res1)
          (auto simp: start_server_def)
    qed (use assms Inr rd in \<open>auto simp: start_server_def\<close>)
  qed (use assms in \<open>auto simp: start_server_def\<close>)
  then show ?thesis
  proof (elim disjE exE conjE)
    fix cfg dir f2 res1
    assume o: "open_stores U A L P cfg dir f2 = (res1, us, f')" and r: "\<forall>G s. res = Inr (G, s) \<longrightarrow> res1 = Inr s \<and> gU G = U"
    show ?thesis
    proof (cases res)
      case (Inl e)
      then show ?thesis using open_stores_accounts [OF o] by blast
    next
      case (Inr run)
      then obtain G s where run: "res = Inr (G, s)" by (cases run) simp
      then have r1: "res1 = Inr s" "gU G = U" using r by blast+
      have only: "G' = G \<and> s' = s" if "res = Inr (G', s')" for G' s' using that run by simp
      show ?thesis using open_stores_accounts [OF o] r1 only by blast
    qed
  qed auto
qed

text \<open>
  C2: From the first start on there is always an admin. Over the whole life of an installation - starts that
  succeed or fail half way, any requests by anybody, stops at any moment - the account file, once it exists, holds
  well-formed accounts with an admin among them, and so does the memory of a running program; a program never runs
  without an account file.
\<close>

theorem an_admin_for_life:
  assumes "lifetime U A V W ord d run"
  shows "(\<forall>us. d = Some us \<longrightarrow> good_users U us) \<and>
    (\<forall>G s. run = Some (G, s) \<longrightarrow> d = usersDisk (srvUsers s) \<and> d \<noteq> None \<and> good_users U (Users (srvUsers s)) \<and> 1 \<le> adminCount (srvUsers s))"
proof -
  have "(\<forall>us. d = Some us \<longrightarrow> good_users U us) \<and>
    (\<forall>G s. run = Some (G, s) \<longrightarrow> gU G = U \<and> d = usersDisk (srvUsers s) \<and> users_inv U (srvUsers s))"
    using assms
  proof (induction rule: lifetime.induct)
    case (start d P L f res us f')
    show ?case
      using start_accounts [OF start.hyps(3)]
    proof
      assume "us = None \<and> (\<exists>e. res = Inl e)"
      then show ?thesis using start.IH by auto
    next
      assume "\<exists>us0 q u. openUserStore (pvUsers P) = Inr us0 \<and>
        bootstrapUsers U A (lnEnv L) (lnSalt L 0) (lnSave L 0) (lnSalt L 1) (lnSave L 1) us0 = (q, u) \<and> us = Some u \<and>
        (\<forall>G s. res = Inr (G, s) \<longrightarrow> q = Inr () \<and> gU G = U \<and> srvUsers s = u)"
      then obtain us0 q u where o: "openUserStore (pvUsers P) = Inr us0" "us = Some u"
        "bootstrapUsers U A (lnEnv L) (lnSalt L 0) (lnSave L 0) (lnSalt L 1) (lnSave L 1) us0 = (q, u)"
        "\<And>G s. res = Inr (G, s) \<Longrightarrow> q = Inr () \<and> gU G = U \<and> srvUsers s = u" by blast
      have p: "pvUsers P = (case d of None \<Rightarrow> NoFile | Some ds \<Rightarrow> Holds ds)" and us0: "us0 = usersFrom d"
        using start.hyps(2) o(1) by (auto simp: openUserStore_def split: option.splits)
      have dk: "usersDisk u = None \<and> d = None \<or> (\<exists>ds. usersDisk u = Some ds \<and> good_users U ds)"
        using bootstrap_disk [OF o(3) us0] start.IH by blast
      have iq: "users_inv U u" if "q = Inr ()"
        using first_accounts_inv(1) [OF o(1)] o(3) that p start.IH by (auto split: option.splits)
      show ?thesis
      proof (cases res)
        case (Inl e)
        then show ?thesis using dk o(2) by auto
      next
        case (Inr run)
        obtain G s where run: "run = (G, s)" by (cases run)
        have "q = Inr ()" "gU G = U" "srvUsers s = u" using o(4) Inr run by blast+
        then show ?thesis using iq dk o(2) Inr run by auto
      qed
    qed
  next
    case (request d G s s' x r)
    have g: "gU G = U" "users_inv U (srvUsers s)" using request.IH by simp_all
    then have "users_inv U (srvUsers s')"
      using account_steps_inv [OF serve_account_steps, of G s W ord x r] unfolding request.hyps(2) by simp
    then show ?case using g(1) by (auto simp: users_inv_def)
  qed auto
  then show ?thesis using users_inv_admin by blast
qed

theorem an_admin_for_life_witness:
  "\<exists>G s. lifetime basic_unicode toy_argon (\<lambda>_ _ _. False) (\<lambda>_. DavRespond http_NotFound) (\<lambda>_ es. es) (usersDisk demo_users) (Some (G, s)) \<and>
     1 \<le> adminCount (srvUsers s)"
proof -
  obtain G s f' where st: "start_server basic_unicode toy_argon (\<lambda>_ _ _. False) demo_launch nothing_yet demo_fs = (Inr (G, s), Some demo_users, f')"
    using demo_launch_starts by (metis surj_pair)
  have "pvUsers nothing_yet = (case None of None \<Rightarrow> NoFile | Some us \<Rightarrow> Holds us) \<or> (\<exists>e. pvUsers nothing_yet = ReadFails e)"
    by (simp add: nothing_yet_def)
  from lifetime.start [OF lifetime.installed this st]
  have l: "lifetime basic_unicode toy_argon (\<lambda>_ _ _. False) (\<lambda>_. DavRespond http_NotFound) (\<lambda>_ es. es) (usersDisk demo_users) (Some (G, s))"
    by simp
  with an_admin_for_life [OF l] show ?thesis by blast
qed

subsection \<open>A first start that fails half way\<close>

text \<open>
  With a viewer's name but no password in the environment the first start fails, but it has written the admin
  by then: the same start succeeds the second time, and there is no viewer.
\<close>

definition half_getenv :: "string \<Rightarrow> string" where
  "half_getenv k = (if k = ''VIEWER_USER'' then ''guest'' else demo_getenv k)"

lemma half_set_viewer_is_forgotten:
  obtains e us where "bootstrapUsers basic_unicode toy_argon half_getenv (Some ''salt'') True None True (usersFrom None) = (Inl e, us)"
    "bootstrapUsers basic_unicode toy_argon half_getenv (Some ''salt'') True None True (usersFrom (usersDisk us)) = (Inr (), us)"
    "length (Users us) = 1"
proof -
  obtain e us where b: "bootstrapUsers basic_unicode toy_argon half_getenv (Some ''salt'') True None True (usersFrom None) = (Inl e, us)"
    "length (Users us) = 1" "usersDisk us = Some (Users us)"
    by (simp add: bootstrapUsers_def empty_users_def usersFrom_def half_getenv_def demo_getenv_def addUser_def
        hashPassword_def save_def TrimSpace_root roleAdmin_def Let_def)
  then have "usersFrom (usersDisk us) = us" by (simp add: usersFrom_def)
  moreover have "\<not> empty_users us" using b(2) by (auto simp: empty_users_def)
  ultimately show thesis using that b(1,2) by (simp add: bootstrapUsers_def)
qed

end
